(* ===== verification/Prelude.thy ===== *)
theory Prelude
  imports Main "HOL-Library.Word"
begin

text \<open>
  The shared vocabulary of the development.

  A C++ member function is modelled as a function from the state it runs in to
  what it does, of type \<open>('s, 'a) M\<close>: \<open>None\<close> when it never returns (a loop that
  runs forever, a wait that nobody ends), otherwise the way it ended and the state
  it left.  It ends by returning a value (\<open>Ok\<close>), by throwing an \<open>RdmaError\<close>
  (\<open>Throw\<close>), or by the end of the program (\<open>Fault\<close>): a call of
  \<open>std::terminate\<close> or \<open>abort\<close>, or undefined behaviour of the language.  The
  state a throwing function leaves is the mutated one, as in C++.

  The theory holds this monad with its equations, the combinators that run a member
  function of a sub-object or of the outside world, and the collection \<open>run_simps\<close>
  that evaluates programs step by step.
\<close>

section \<open>Machine types\<close>

type_synonym u8 = "8 word"
type_synonym u16 = "16 word"
type_synonym u32 = "32 word"
type_synonym u64 = "64 word"

text \<open>The identity of an object made with \<open>new\<close> or \<open>make_shared\<close>; 0 is the null pointer.\<close>

type_synonym ptr = nat

section \<open>How a call ends\<close>

text \<open>\<open>RdmaError\<close>: the exception class of the library, an errno value and a text.\<close>

record rdma_error =
  errcode :: int
  err_what :: string

definition RdmaError :: "int \<Rightarrow> string \<Rightarrow> rdma_error" where
  "RdmaError e msg = \<lparr>errcode = e, err_what = msg\<rparr>"

text \<open>\<open>OtherException\<close>: an exception that is no \<open>RdmaError\<close>; no handler of the library
  catches one.\<close>

datatype fault = NullDeref | UseAfterFree | OutOfBounds | Terminated | Aborted | OtherException string

datatype 'a result = Ok 'a | Throw rdma_error | Fault fault

type_synonym ('s, 'a) M = "'s \<Rightarrow> ('a result \<times> 's) option"

text \<open>The errno values the library returns or puts into an \<open>RdmaError\<close> itself.\<close>

definition ENOENT :: int where "ENOENT = 2"
definition ESRCH :: int where "ESRCH = 3"
definition EAGAIN :: int where "EAGAIN = 11"
definition ENOMEM :: int where "ENOMEM = 12"
definition EFAULT :: int where "EFAULT = 14"
definition ENODEV :: int where "ENODEV = 19"
definition EINVAL :: int where "EINVAL = 22"

named_theorems errno_defs "the numeric values of the errno constants"

declare ENOENT_def [errno_defs] ESRCH_def [errno_defs] EAGAIN_def [errno_defs]
  ENOMEM_def [errno_defs] EFAULT_def [errno_defs] ENODEV_def [errno_defs] EINVAL_def [errno_defs]

section \<open>The monad\<close>

definition returnM :: "'a \<Rightarrow> ('s, 'a) M" where
  "returnM a = (\<lambda>s. Some (Ok a, s))"

definition throwM :: "rdma_error \<Rightarrow> ('s, 'a) M" where
  "throwM e = (\<lambda>s. Some (Throw e, s))"

definition faultM :: "fault \<Rightarrow> ('s, 'a) M" where
  "faultM f = (\<lambda>s. Some (Fault f, s))"

definition blockM :: "('s, 'a) M" where
  "blockM = (\<lambda>s. None)"

definition bindM :: "('s, 'a) M \<Rightarrow> ('a \<Rightarrow> ('s, 'b) M) \<Rightarrow> ('s, 'b) M" where
  "bindM m f = (\<lambda>s. Option.bind (m s) (\<lambda>(r, t). case r of
       Ok a \<Rightarrow> f a t
     | Throw e \<Rightarrow> Some (Throw e, t)
     | Fault q \<Rightarrow> Some (Fault q, t)))"

abbreviation thenM :: "('s, 'a) M \<Rightarrow> ('s, 'b) M \<Rightarrow> ('s, 'b) M" where
  "thenM m n \<equiv> bindM m (\<lambda>_. n)"

text \<open>\<open>try { m } catch (RdmaError& e) { h e }\<close>; a fault is no exception and is not caught.\<close>

definition catchM :: "('s, 'a) M \<Rightarrow> (rdma_error \<Rightarrow> ('s, 'a) M) \<Rightarrow> ('s, 'a) M" where
  "catchM m h = (\<lambda>s. Option.bind (m s) (\<lambda>(r, t). case r of
       Ok a \<Rightarrow> Some (Ok a, t)
     | Throw e \<Rightarrow> h e t
     | Fault q \<Rightarrow> Some (Fault q, t)))"

definition getM :: "('s, 's) M" where
  "getM = (\<lambda>s. Some (Ok s, s))"

definition modifyM :: "('s \<Rightarrow> 's) \<Rightarrow> ('s, unit) M" where
  "modifyM g = (\<lambda>s. Some (Ok (), g s))"

definition whenM :: "bool \<Rightarrow> ('s, unit) M \<Rightarrow> ('s, unit) M" where
  "whenM b m = (if b then m else returnM ())"

text \<open>\<open>iterM f xs\<close>: the loop \<open>for (x : xs) f(x)\<close>.\<close>

fun iterM :: "('x \<Rightarrow> ('s, unit) M) \<Rightarrow> 'x list \<Rightarrow> ('s, unit) M" where
  "iterM f [] = returnM ()"
| "iterM f (x # xs) = thenM (f x) (iterM f xs)"

subsection \<open>Running step by step\<close>

named_theorems run_simps "equations that run a program on a state"

lemma returnM_run [simp, run_simps]: "returnM a s = Some (Ok a, s)"
  by (simp add: returnM_def)

lemma throwM_run [simp, run_simps]: "throwM e s = Some (Throw e, s)"
  by (simp add: throwM_def)

lemma faultM_run [simp, run_simps]: "faultM q s = Some (Fault q, s)"
  by (simp add: faultM_def)

lemma blockM_run [simp, run_simps]: "blockM s = None"
  by (simp add: blockM_def)

lemma getM_run [simp, run_simps]: "getM s = Some (Ok s, s)"
  by (simp add: getM_def)

lemma modifyM_run [simp, run_simps]: "modifyM g s = Some (Ok (), g s)"
  by (simp add: modifyM_def)

lemma whenM_run [simp, run_simps]: "whenM b m s = (if b then m s else Some (Ok (), s))"
  by (simp add: whenM_def)

lemma bindM_run [run_simps]:
  "bindM m f s = (case m s of
       None \<Rightarrow> None
     | Some (r, t) \<Rightarrow> (case r of
           Ok a \<Rightarrow> f a t | Throw e \<Rightarrow> Some (Throw e, t) | Fault q \<Rightarrow> Some (Fault q, t)))"
  by (simp add: bindM_def split: option.split)

lemma catchM_run [run_simps]:
  "catchM m h s = (case m s of
       None \<Rightarrow> None
     | Some (r, t) \<Rightarrow> (case r of
           Ok a \<Rightarrow> Some (Ok a, t) | Throw e \<Rightarrow> h e t | Fault q \<Rightarrow> Some (Fault q, t)))"
  by (simp add: catchM_def split: option.split)

lemma bindM_Ok [simp]: "m s = Some (Ok a, t) \<Longrightarrow> bindM m f s = f a t"
  by (simp add: bindM_run)

lemma bindM_Throw [simp]: "m s = Some (Throw e, t) \<Longrightarrow> bindM m f s = Some (Throw e, t)"
  by (simp add: bindM_run)

lemma bindM_Fault [simp]: "m s = Some (Fault q, t) \<Longrightarrow> bindM m f s = Some (Fault q, t)"
  by (simp add: bindM_run)

lemma bindM_None [simp]: "m s = None \<Longrightarrow> bindM m f s = None"
  by (simp add: bindM_run)

lemma bindM_OkE:
  assumes "bindM m f s = Some (Ok b, u)"
  obtains a t where "m s = Some (Ok a, t)" and "f a t = Some (Ok b, u)"
  using assms by (auto simp: bindM_run split: option.splits result.splits)

text \<open>The monad laws.\<close>

lemma bindM_returnM [simp]: "bindM (returnM a) f = f a"
  by (rule ext) simp

lemma bindM_right_unit [simp]: "bindM m returnM = m"
  by (rule ext) (simp add: bindM_run split: option.split result.split prod.split)

lemma bindM_assoc: "bindM (bindM m f) g = bindM m (\<lambda>x. bindM (f x) g)"
  by (rule ext) (simp add: bindM_run split: option.split result.split prod.split)

text \<open>Loops of the source that may run forever are \<open>partial_function (option)\<close>.\<close>

lemma bindM_mono [partial_function_mono]:
  assumes "\<And>s. mono_option (\<lambda>f. m f s)" and "\<And>a s. mono_option (\<lambda>f. k f a s)"
  shows "mono_option (\<lambda>f. bindM (m f) (k f) s)"
proof -
  have "mono_option (\<lambda>f. case r of Ok a \<Rightarrow> k f a t
      | Throw e \<Rightarrow> Some (Throw e, t) | Fault q \<Rightarrow> Some (Fault q, t))" for r t
    using assms(2) by (cases r) (simp_all add: monotone_def option.leq_refl)
  then show ?thesis
    unfolding bindM_def by (intro partial_function_mono assms(1)) (auto split: prod.split)
qed

section \<open>Objects inside the world\<close>

text \<open>
  A member function runs on its own object paired with the rest of the world.
  \<^item> \<open>this_get\<close>, \<open>this_mod\<close> read and write fields of the object;
  \<^item> \<open>on_world m\<close> runs a call that does not touch the object;
  \<^item> \<open>on_member g p m\<close> runs a member function of a sub-object that \<open>g\<close> reads and \<open>p\<close>
    writes back (the sub-object is not touched by anything else meanwhile);
  \<^item> \<open>construct ob m\<close> runs a constructor body on a fresh object and returns the object
    (an exception leaves no object).
\<close>

definition this_get :: "('o \<times> 'w, 'o) M" where
  "this_get = (\<lambda>(ob, w). Some (Ok ob, (ob, w)))"

definition this_mod :: "('o \<Rightarrow> 'o) \<Rightarrow> ('o \<times> 'w, unit) M" where
  "this_mod g = (\<lambda>(ob, w). Some (Ok (), (g ob, w)))"

definition on_world :: "('w, 'a) M \<Rightarrow> ('o \<times> 'w, 'a) M" where
  "on_world m = (\<lambda>(ob, w). map_option (\<lambda>(r, w'). (r, (ob, w'))) (m w))"

definition on_member :: "('s \<Rightarrow> 'o) \<Rightarrow> ('o \<Rightarrow> 's \<Rightarrow> 's) \<Rightarrow> ('o \<times> 's, 'a) M \<Rightarrow> ('s, 'a) M" where
  "on_member g p m = (\<lambda>s. map_option (\<lambda>(r, (ob, s')). (r, p ob s')) (m (g s, s)))"

definition construct :: "'o \<Rightarrow> ('o \<times> 'w, unit) M \<Rightarrow> ('w, 'o) M" where
  "construct ob m = (\<lambda>w. case m (ob, w) of
       None \<Rightarrow> None
     | Some (Ok _, (ob', w')) \<Rightarrow> Some (Ok ob', w')
     | Some (Throw e, (_, w')) \<Rightarrow> Some (Throw e, w')
     | Some (Fault q, (_, w')) \<Rightarrow> Some (Fault q, w'))"

lemma this_get_run [simp, run_simps]: "this_get (ob, w) = Some (Ok ob, (ob, w))"
  by (simp add: this_get_def)

lemma this_mod_run [simp, run_simps]: "this_mod g (ob, w) = Some (Ok (), (g ob, w))"
  by (simp add: this_mod_def)

lemma on_world_run [run_simps]:
  "on_world m (ob, w) = (case m w of None \<Rightarrow> None | Some (r, w') \<Rightarrow> Some (r, (ob, w')))"
  by (simp add: on_world_def split: option.split)

lemma on_world_Some [simp]: "m w = Some (r, w') \<Longrightarrow> on_world m (ob, w) = Some (r, (ob, w'))"
  by (simp add: on_world_run)

lemma on_world_None [simp]: "m w = None \<Longrightarrow> on_world m (ob, w) = None"
  by (simp add: on_world_run)

lemma on_member_run [run_simps]:
  "on_member g p m s = (case m (g s, s) of None \<Rightarrow> None | Some (r, (ob, s')) \<Rightarrow> Some (r, p ob s'))"
  by (simp add: on_member_def split: option.split)

lemma construct_run [run_simps]:
  "construct ob m w = (case m (ob, w) of
       None \<Rightarrow> None
     | Some (r, (ob', w')) \<Rightarrow> (case r of
           Ok _ \<Rightarrow> Some (Ok ob', w') | Throw e \<Rightarrow> Some (Throw e, w') | Fault q \<Rightarrow> Some (Fault q, w')))"
  by (simp add: construct_def split: option.split result.split)

lemmas run_splits = option.split option.split_asm result.split result.split_asm
  prod.split prod.split_asm if_split_asm

section \<open>Heaps of objects\<close>

text \<open>
  The objects of one class that the program has made with \<open>new\<close>: the pointer \<open>p\<close> is the
  place \<open>p - 1\<close>, \<open>None\<close> after \<open>delete\<close>.  The null pointer is no place, and a new object
  never gets the pointer of an earlier one.
\<close>

type_synonym 'o heap = "'o option list"

definition heap_get :: "'o heap \<Rightarrow> ptr \<Rightarrow> 'o option" where
  "heap_get h p = (if 0 < p \<and> p \<le> length h then h ! (p - 1) else None)"

definition heap_put :: "ptr \<Rightarrow> 'o \<Rightarrow> 'o heap \<Rightarrow> 'o heap" where
  "heap_put p x h = h[p - 1 := Some x]"

definition heap_free :: "ptr \<Rightarrow> 'o heap \<Rightarrow> 'o heap" where
  "heap_free p h = h[p - 1 := None]"

definition heap_new :: "'o \<Rightarrow> 'o heap \<Rightarrow> 'o heap" where
  "heap_new x h = h @ [Some x]"

definition heap_live :: "'o heap \<Rightarrow> ptr set" where
  "heap_live h = {p. heap_get h p \<noteq> None}"

lemma heap_get_null [simp]: "heap_get h 0 = None"
  by (simp add: heap_get_def)

lemma heap_get_new: "heap_get (heap_new x h) p = (if p = Suc (length h) then Some x else heap_get h p)"
  by (auto simp: heap_get_def heap_new_def nth_append)

lemma heap_get_put:
  "heap_get h p \<noteq> None \<Longrightarrow> heap_get (heap_put p x h) q = (if q = p then Some x else heap_get h q)"
  by (auto simp: heap_get_def heap_put_def nth_list_update split: if_splits)

lemma heap_get_free:
  "heap_get h p \<noteq> None \<Longrightarrow> heap_get (heap_free p h) q = (if q = p then None else heap_get h q)"
  by (auto simp: heap_get_def heap_free_def nth_list_update split: if_splits)

lemma heap_put_same [simp]: "heap_get h p = Some x \<Longrightarrow> heap_put p x h = h"
  by (auto simp: heap_get_def heap_put_def list_update_same_conv split: if_splits)

lemma heap_put_twice [simp]: "heap_put p x (heap_put p y h) = heap_put p x h"
  by (simp add: heap_put_def)

lemma heap_new_fresh [simp]: "heap_get h (Suc (length h)) = None"
  by (simp add: heap_get_def)

lemma heap_live_new: "heap_live (heap_new x h) = insert (Suc (length h)) (heap_live h)"
  by (auto simp: heap_live_def heap_get_new)

lemma heap_live_put [simp]: "heap_get h p \<noteq> None \<Longrightarrow> heap_live (heap_put p x h) = heap_live h"
  by (auto simp: heap_live_def heap_get_put)

lemma heap_live_free: "heap_get h p \<noteq> None \<Longrightarrow> heap_live (heap_free p h) = heap_live h - {p}"
  by (auto simp: heap_live_def heap_get_free)

lemma heap_live_fresh [simp]: "Suc (length h) \<notin> heap_live h"
  by (simp add: heap_live_def)

lemma heap_length [simp]: "length (heap_put p x h) = length h" "length (heap_free p h) = length h"
  "length (heap_new x h) = Suc (length h)"
  by (simp_all add: heap_put_def heap_free_def heap_new_def)

text \<open>Call a member function of the object a pointer leads to; \<open>g\<close>, \<open>u\<close> read and update
  the heap of its class.\<close>

definition on_heap ::
    "('w \<Rightarrow> 'o heap) \<Rightarrow> (('o heap \<Rightarrow> 'o heap) \<Rightarrow> 'w \<Rightarrow> 'w) \<Rightarrow> ptr \<Rightarrow> ('o \<times> 'w, 'a) M \<Rightarrow> ('w, 'a) M"
where
  "on_heap g u p m = (\<lambda>w. if p = 0 then Some (Fault NullDeref, w) else
     (case heap_get (g w) p of
        None \<Rightarrow> Some (Fault UseAfterFree, w)
      | Some ob \<Rightarrow> map_option (\<lambda>(r, (ob', w')). (r, u (\<lambda>_. heap_put p ob' (g w')) w')) (m (ob, w))))"

lemma on_heap_null [simp]: "on_heap g u 0 m w = Some (Fault NullDeref, w)"
  by (simp add: on_heap_def)

lemma on_heap_run:
  "heap_get (g w) p = Some ob \<Longrightarrow> on_heap g u p m w =
     (case m (ob, w) of None \<Rightarrow> None | Some (r, (ob', w')) \<Rightarrow> Some (r, u (\<lambda>_. heap_put p ob' (g w')) w'))"
  by (cases "p = 0") (auto simp: on_heap_def split: option.split)

section \<open>Words\<close>

lemma of_nat_Suc_minus_one [simp]: "(of_nat (Suc n) :: 'a::len word) - 1 = of_nat n"
  by simp

lemma ucast_small_u64:
  "unat (x :: u64) < 2 ^ 32 \<Longrightarrow> unat (ucast x :: u32) = unat x"
  by (simp add: unsigned_ucast_eq take_bit_nat_eq_self)

lemma ucast_ucast_small:
  "unat (x :: u64) < 2 ^ 32 \<Longrightarrow> ucast (ucast x :: u32) = x"
  by (rule word_unat_eq_iff [THEN iffD2])
     (simp add: unsigned_ucast_eq unsigned_take_bit_eq take_bit_nat_eq_self)

end
