(* ===== verification/Verbs.thy ===== *)
theory Verbs
  imports Prelude
begin

text \<open>
  The interface to everything below the library: libibverbs, librdmacm, the kernel, the
  HPX event channel and the Blue Gene compute node kernel.  None of that code is under
  \<open>src/\<close>, so it is a parameter, the record \<open>env\<close>: what a call returns is an arbitrary
  function of the calls made before it (with their results) and of the call itself.
  Every statement of the development that has no hypothesis on the environment holds
  for every behaviour of these libraries, failures included.

  The world of a run keeps the trace of the external calls, newest first, so that
  ownership of external resources (registrations, mappings, events) can be stated.  It
  also keeps the one global variable of the library, \<open>RdmaDevice::bgvrnic_device\<close>.
  Fields of structures that the libraries own (\<open>cq->handle\<close>, \<open>id->qp\<close>, ...) are read
  through the environment too.  External calls are taken to return; waiting forever is
  modelled only for the library's own waits.
\<close>

section \<open>Structures of the verbs and connection manager interfaces\<close>

text \<open>\<open>ibv_mr\<close> as the library sees it; \<open>mr_frags\<close> is the field \<open>num_frags\<close> that
  \<open>bgvrnic_mr\<close> adds behind it.\<close>

record ibv_mr =
  mr_addr :: u64
  mr_length :: u64
  mr_lkey :: u32
  mr_rkey :: u32
  mr_frags :: u32

datatype wc_opcode =
    IBV_WC_SEND | IBV_WC_RDMA_WRITE | IBV_WC_RDMA_READ | IBV_WC_COMP_SWAP
  | IBV_WC_FETCH_ADD | IBV_WC_BIND_MW | IBV_WC_RECV | IBV_WC_RECV_RDMA_WITH_IMM
  | IBV_WC_OTHER nat

record ibv_wc =
  wc_wr_id :: u64
  wc_status :: nat
  wc_op :: wc_opcode
  wc_qp_num :: u32

definition IBV_WC_SUCCESS :: nat where "IBV_WC_SUCCESS = 0"

record ibv_sge =
  sge_addr :: u64
  sge_length :: u32
  sge_lkey :: u32

datatype wr_opcode =
    IBV_WR_RDMA_WRITE | IBV_WR_RDMA_WRITE_WITH_IMM | IBV_WR_SEND | IBV_WR_SEND_WITH_IMM
  | IBV_WR_RDMA_READ | IBV_WR_ATOMIC_CMP_AND_SWP | IBV_WR_ATOMIC_FETCH_AND_ADD

record send_wr =
  swr_id :: u64
  swr_sg_list :: "ibv_sge list"
  swr_num_sge :: int
  swr_opcode :: wr_opcode
  swr_flags :: u32
  swr_imm_data :: u32
  swr_remote_addr :: u64
  swr_rkey :: u32

text \<open>\<open>memset(&send_wr, 0, sizeof(send_wr))\<close>: the opcode 0 is \<open>IBV_WR_RDMA_WRITE\<close>.\<close>

definition zero_send_wr :: send_wr where
  "zero_send_wr = \<lparr>swr_id = 0, swr_sg_list = [], swr_num_sge = 0, swr_opcode = IBV_WR_RDMA_WRITE,
     swr_flags = 0, swr_imm_data = 0, swr_remote_addr = 0, swr_rkey = 0\<rparr>"

definition IBV_SEND_SIGNALED :: u32 where "IBV_SEND_SIGNALED = 2"

record recv_wr =
  rwr_id :: u64
  rwr_sg_list :: "ibv_sge list"
  rwr_num_sge :: int

record sockaddr_in =
  sin_family :: u16
  sin_port :: u16
  sin_addr :: u32

definition zero_sockaddr :: sockaddr_in where
  "zero_sockaddr = \<lparr>sin_family = 0, sin_port = 0, sin_addr = 0\<rparr>"

definition PF_INET :: u16 where "PF_INET = 2"

datatype cm_event_type =
    RDMA_CM_EVENT_ADDR_RESOLVED | RDMA_CM_EVENT_ROUTE_RESOLVED | RDMA_CM_EVENT_CONNECT_REQUEST
  | RDMA_CM_EVENT_ESTABLISHED | RDMA_CM_EVENT_DISCONNECTED | RDMA_CM_EVENT_OTHER nat

record cm_event =
  ev_handle :: u64
  ev_type :: cm_event_type
  ev_id :: u64
  ev_status :: int
  ev_private_data_len :: u8

record conn_param =
  responder_resources :: u8
  initiator_depth :: u8
  retry_count :: u8
  rnr_retry_count :: u8

record qp_attr =
  qa_max_send_wr :: u32
  qa_max_recv_wr :: u32
  qa_max_send_sge :: u32
  qa_max_recv_sge :: u32
  qa_sq_sig_all :: bool
  qa_send_cq :: u64
  qa_recv_cq :: u64
  qa_srq :: u64

text \<open>The limits of a device that are plain integers are kept by their name.\<close>

record ibv_device_attr =
  fw_ver :: string
  node_guid :: u64
  sys_image_guid :: u64
  vendor_id :: u32
  vendor_part_id :: u32
  hw_ver :: u32
  phys_port_cnt :: u8
  max_mr_size :: u64
  page_size_cap :: u64
  limits :: "string \<Rightarrow> int"

definition zero_attr :: ibv_device_attr where
  "zero_attr = \<lparr>fw_ver = [], node_guid = 0, sys_image_guid = 0, vendor_id = 0, vendor_part_id = 0,
     hw_ver = 0, phys_port_cnt = 0, max_mr_size = 0, page_size_cap = 0, limits = (\<lambda>l. 0)\<rparr>"

section \<open>External calls and their trace\<close>

datatype mem_call =
    Mmap u64 | Munmap u64 u64 | Ibv_reg_mr u64 u64 u64 | Ibv_dereg_mr ibv_mr
  | Open_bgiomem | Read_region_size int | Mmap_fd int u64 | Close int

datatype cq_call =
    Ibv_alloc_pd u64 | Ibv_dealloc_pd u64
  | Ibv_create_cq u64 int u64 | Ibv_destroy_cq u64 | Ibv_req_notify_cq u64
  | Ibv_ack_cq_events u64 nat | Ibv_poll_cq u64 int

datatype channel_call =
    Ibv_create_comp_channel u64 | Ibv_destroy_comp_channel u64 | Ibv_get_cq_event u64
  | Fcntl_getfl int | Fcntl_setfl int u32 | Poll_fd int

datatype wr_call =
    Ibv_post_send u64 send_wr | Ibv_post_recv u64 recv_wr | Ibv_post_srq_recv u64 recv_wr

text \<open>The calls on the identifiers, queue pairs and event channels of librdmacm.\<close>

datatype cm_call =
    Rdma_create_event_channel | Rdma_destroy_event_channel u64
  | Rdma_create_id u64 | Rdma_destroy_id u64 | Rdma_migrate_id u64 u64
  | Rdma_create_qp u64 u64 qp_attr | Rdma_destroy_qp u64
  | Rdma_create_srq u64 u64 u32 u32 | Rdma_destroy_srq u64
  | Rdma_get_cm_event u64 | Rdma_ack_cm_event cm_event

datatype conn_call =
    Rdma_resolve_addr u64 "sockaddr_in option" sockaddr_in | Rdma_resolve_route u64
  | Rdma_connect u64 conn_param | Rdma_accept u64 conn_param | Rdma_reject u64
  | Rdma_disconnect u64 | Rdma_bind_addr u64 sockaddr_in | Rdma_listen u64 int
  | Rdma_get_src_port u64 | Getaddrinfo string string
  | Hpx_get_event u64 cm_event_type | Hpx_poll_event_channel int

datatype dev_call =
    Ibv_get_device_list | Ibv_free_device_list | Ibv_open_device u64 | Ibv_close_device u64
  | Ibv_query_device u64 | Getifaddrs | Freeifaddrs

text \<open>\<open>Semop\<close>: set, number, operation, flags.  \<open>Sem_undo\<close> is no call: it is what the kernel does to a
  semaphore at the end of a process that operated on it with \<open>SEM_UNDO\<close>.\<close>

datatype sem_call =
    Semget int | Semop int int int int | Semctl_getval int int | Semctl_setval int int int | Sem_undo int int int

datatype cnk_call =
    Kernel_RDMAOpen | Kernel_RDMAConnect int int | Kernel_RDMARegisterMem int u64 u64
  | Kernel_RDMASend int u64 u32 u32 | Kernel_RDMARecv int u64 u32 u32

text \<open>The calls on the host: the environment of the process and the port file of the servers.\<close>

datatype host_call =
    Getenv string | Sleep nat | Write_port_file u16 | Read_port_file | Print "string list"

datatype call =
    Mem mem_call | CQ cq_call | Chan channel_call | WR wr_call | CM cm_call | Conn conn_call
  | Dev dev_call | Sem sem_call | CNK cnk_call | Host host_call

datatype ret =
    R_int int | R_ptr u64 | R_mr "ibv_mr option" | R_wcs "int + ibv_wc list"
  | R_event "int \<times> cm_event option" | R_id "int \<times> u64" | R_addr "int + sockaddr_in"

type_synonym trace = "(call \<times> ret) list"

record env =
  logging :: bool    \<comment> \<open>\<open>RDMAHELPER_HAVE_LOGGING\<close>: the log macros evaluate their arguments\<close>
  ndebug :: bool     \<comment> \<open>\<open>NDEBUG\<close>\<close>
  rc_of :: "trace \<Rightarrow> call \<Rightarrow> int"
  ptr_of :: "trace \<Rightarrow> call \<Rightarrow> u64"
  errno_of :: "trace \<Rightarrow> int"
  mr_of :: "trace \<Rightarrow> call \<Rightarrow> ibv_mr option"
  wcs_of :: "trace \<Rightarrow> call \<Rightarrow> int + ibv_wc list"
  event_of :: "trace \<Rightarrow> call \<Rightarrow> int \<times> cm_event option"
  id_of :: "trace \<Rightarrow> call \<Rightarrow> int \<times> u64"
  addr_of :: "trace \<Rightarrow> call \<Rightarrow> int + sockaddr_in"
  handle_of :: "u64 \<Rightarrow> u32"             \<comment> \<open>\<open>cq->handle\<close>, \<open>pd->handle\<close>\<close>
  fd_of :: "u64 \<Rightarrow> int"                 \<comment> \<open>\<open>channel->fd\<close>\<close>
  qp_of :: "trace \<Rightarrow> u64 \<Rightarrow> u32 option"  \<comment> \<open>\<open>id->qp\<close>, with its \<open>qp_num\<close> when not null\<close>
  qp_srq_of :: "trace \<Rightarrow> u64 \<Rightarrow> u64"     \<comment> \<open>\<open>id->qp->srq\<close>\<close>
  verbs_of :: "trace \<Rightarrow> u64 \<Rightarrow> u64"      \<comment> \<open>\<open>id->verbs\<close>\<close>
  dst_addr_of :: "trace \<Rightarrow> u64 \<Rightarrow> sockaddr_in"  \<comment> \<open>\<open>id->route.addr.dst_addr\<close>\<close>
  devices_of :: "trace \<Rightarrow> (u64 \<times> string) list option"   \<comment> \<open>the device list with the names\<close>
  ifaddrs_of :: "trace \<Rightarrow> (string \<times> (u16 \<times> u32) option) list"
                \<comment> \<open>the interface list: \<open>ifa_name\<close> and, when not null, \<open>ifa_addr\<close>\<close>
  guid_of :: "u64 \<Rightarrow> u64"                \<comment> \<open>\<open>ibv_get_device_guid\<close>\<close>
  device_attr_of :: "trace \<Rightarrow> u64 \<Rightarrow> ibv_device_attr"  \<comment> \<open>what \<open>ibv_query_device\<close> writes\<close>
  getenv_of :: "string \<Rightarrow> string option"
  lexical_int_of :: "string \<Rightarrow> int option"  \<comment> \<open>\<open>boost::lexical_cast<int>\<close>; \<open>None\<close> when it throws\<close>
  cnk_lkey_of :: "trace \<Rightarrow> call \<Rightarrow> u32"      \<comment> \<open>the key \<open>Kernel_RDMARegisterMem\<close> writes\<close>

record world =
  trace :: trace
  bgvrnic_device :: bool

definition init_world :: world where
  "init_world = \<lparr>trace = [], bgvrnic_device = False\<rparr>"

definition external :: "call \<Rightarrow> (trace \<Rightarrow> 'r) \<Rightarrow> ('r \<Rightarrow> ret) \<Rightarrow> ('a world_scheme, 'r) M" where
  "external c res enc = (\<lambda>w. let r = res (trace w)
     in Some (Ok r, w\<lparr>trace := (c, enc r) # trace w\<rparr>))"

definition ext_int :: "env \<Rightarrow> call \<Rightarrow> ('a world_scheme, int) M" where
  "ext_int E c = external c (\<lambda>t. rc_of E t c) R_int"

definition ext_ptr :: "env \<Rightarrow> call \<Rightarrow> ('a world_scheme, u64) M" where
  "ext_ptr E c = external c (\<lambda>t. ptr_of E t c) R_ptr"

definition ext_mr :: "env \<Rightarrow> call \<Rightarrow> ('a world_scheme, ibv_mr option) M" where
  "ext_mr E c = external c (\<lambda>t. mr_of E t c) R_mr"

definition ext_wcs :: "env \<Rightarrow> call \<Rightarrow> ('a world_scheme, int + ibv_wc list) M" where
  "ext_wcs E c = external c (\<lambda>t. wcs_of E t c) R_wcs"

definition ext_event :: "env \<Rightarrow> call \<Rightarrow> ('a world_scheme, int \<times> cm_event option) M" where
  "ext_event E c = external c (\<lambda>t. event_of E t c) R_event"

definition ext_id :: "env \<Rightarrow> call \<Rightarrow> ('a world_scheme, int \<times> u64) M" where
  "ext_id E c = external c (\<lambda>t. id_of E t c) R_id"

definition ext_addr :: "env \<Rightarrow> call \<Rightarrow> ('a world_scheme, int + sockaddr_in) M" where
  "ext_addr E c = external c (\<lambda>t. addr_of E t c) R_addr"

definition errno :: "env \<Rightarrow> ('a world_scheme, int) M" where
  "errno E = (\<lambda>w. Some (Ok (errno_of E (trace w)), w))"

text \<open>Reads of structures the libraries own: no call is recorded.\<close>

definition read_ext :: "(trace \<Rightarrow> 'r) \<Rightarrow> ('a world_scheme, 'r) M" where
  "read_ext f = (\<lambda>w. Some (Ok (f (trace w)), w))"

lemmas ext_defs = external_def Let_def ext_int_def ext_ptr_def ext_mr_def ext_wcs_def ext_event_def
  ext_id_def ext_addr_def

lemma ext_int_run [simp, run_simps]:
  "ext_int E c w = Some (Ok (rc_of E (trace w) c),
     w\<lparr>trace := (c, R_int (rc_of E (trace w) c)) # trace w\<rparr>)"
  by (simp add: ext_defs)

lemma ext_ptr_run [simp, run_simps]:
  "ext_ptr E c w = Some (Ok (ptr_of E (trace w) c),
     w\<lparr>trace := (c, R_ptr (ptr_of E (trace w) c)) # trace w\<rparr>)"
  by (simp add: ext_defs)

lemma ext_mr_run [simp, run_simps]:
  "ext_mr E c w = Some (Ok (mr_of E (trace w) c),
     w\<lparr>trace := (c, R_mr (mr_of E (trace w) c)) # trace w\<rparr>)"
  by (simp add: ext_defs)

lemma ext_wcs_run [simp, run_simps]:
  "ext_wcs E c w = Some (Ok (wcs_of E (trace w) c),
     w\<lparr>trace := (c, R_wcs (wcs_of E (trace w) c)) # trace w\<rparr>)"
  by (simp add: ext_defs)

lemma ext_event_run [simp, run_simps]:
  "ext_event E c w = Some (Ok (event_of E (trace w) c),
     w\<lparr>trace := (c, R_event (event_of E (trace w) c)) # trace w\<rparr>)"
  by (simp add: ext_defs)

lemma ext_id_run [simp, run_simps]:
  "ext_id E c w = Some (Ok (id_of E (trace w) c),
     w\<lparr>trace := (c, R_id (id_of E (trace w) c)) # trace w\<rparr>)"
  by (simp add: ext_defs)

lemma ext_addr_run [simp, run_simps]:
  "ext_addr E c w = Some (Ok (addr_of E (trace w) c),
     w\<lparr>trace := (c, R_addr (addr_of E (trace w) c)) # trace w\<rparr>)"
  by (simp add: ext_defs)

lemma errno_run [simp, run_simps]: "errno E w = Some (Ok (errno_of E (trace w)), w)"
  by (simp add: errno_def)

lemma read_ext_run [simp, run_simps]: "read_ext f w = Some (Ok (f (trace w)), w)"
  by (simp add: read_ext_def)

section \<open>A concrete environment\<close>

text \<open>
  An environment where every call succeeds: the witnesses start from it and change the
  answers they need.  Integer calls return 0, pointers are the address 4096, a
  registration describes the memory it was asked for.
\<close>

definition env_ok :: env where
  "env_ok = \<lparr>logging = False, ndebug = False,
     rc_of = (\<lambda>t c. 0), ptr_of = (\<lambda>t c. 4096), errno_of = (\<lambda>t. 5),
     mr_of = (\<lambda>t c. case c of
         Mem (Ibv_reg_mr pd addr len) \<Rightarrow>
           Some \<lparr>mr_addr = addr, mr_length = len, mr_lkey = 7, mr_rkey = 8, mr_frags = 1\<rparr>
       | _ \<Rightarrow> None),
     wcs_of = (\<lambda>t c. Inr []), event_of = (\<lambda>t c. (0, None)), id_of = (\<lambda>t c. (0, 8192)),
     addr_of = (\<lambda>t c. Inr zero_sockaddr),
     handle_of = (\<lambda>p. 1), fd_of = (\<lambda>p. 3), qp_of = (\<lambda>t i. Some 17), qp_srq_of = (\<lambda>t i. 0),
     verbs_of = (\<lambda>t i. 64), dst_addr_of = (\<lambda>t i. zero_sockaddr),
     devices_of = (\<lambda>t. Some []), ifaddrs_of = (\<lambda>t. []), guid_of = (\<lambda>d. 99),
     device_attr_of = (\<lambda>t d. zero_attr), getenv_of = (\<lambda>s. None), lexical_int_of = (\<lambda>s. None),
     cnk_lkey_of = (\<lambda>t c. 5)\<rparr>"

lemma env_ok_simps [simp]:
  "logging env_ok = False" "ndebug env_ok = False" "rc_of env_ok t c = 0"
  "ptr_of env_ok t c = 4096" "errno_of env_ok t = 5"
  "mr_of env_ok t (Mem (Ibv_reg_mr pd addr len)) =
     Some \<lparr>mr_addr = addr, mr_length = len, mr_lkey = 7, mr_rkey = 8, mr_frags = 1\<rparr>"
  "wcs_of env_ok t c = Inr []" "event_of env_ok t c = (0, None)" "id_of env_ok t c = (0, 8192)"
  "addr_of env_ok t c = Inr zero_sockaddr" "handle_of env_ok p = 1" "fd_of env_ok p = 3"
  "qp_of env_ok t i = Some 17" "qp_srq_of env_ok t i = 0" "verbs_of env_ok t i = 64"
  "dst_addr_of env_ok t i = zero_sockaddr" "devices_of env_ok t = Some []"
  "ifaddrs_of env_ok t = []" "guid_of env_ok d = 99" "device_attr_of env_ok t d = zero_attr"
  "getenv_of env_ok s = None" "lexical_int_of env_ok s = None" "cnk_lkey_of env_ok t c = 5"
  by (simp_all add: env_ok_def)

lemma init_world_simps [simp]: "trace init_world = []" "bgvrnic_device init_world = False"
  by (simp_all add: init_world_def)

text \<open>A failed call sets \<open>errno\<close> to something.\<close>

definition errno_set :: "env \<Rightarrow> bool" where
  "errno_set E \<longleftrightarrow> (\<forall>t. errno_of E t \<noteq> 0)"

lemma errno_set_ok [simp]: "errno_set env_ok"
  by (simp add: errno_set_def)

lemma errno_set_ne: "errno_set E \<Longrightarrow> errno_of E t \<noteq> 0"
  by (simp add: errno_set_def)

end
