(* ===== verification/PoolContainer.thy ===== *)
theory PoolContainer
  imports Verbs
begin

text \<open>
  \<open>pool_container\<close> (\<open>include/RdmaMemoryPool.h\<close>): the free list and the block list of one
  chunk size, with the count of blocks in use.  The container only handles pointers to
  regions, so it is modelled over an arbitrary region type: the allocation function is an
  argument, as in the code, and so is the destruction of a region by its last
  \<open>shared_ptr\<close>.  The locale \<open>region_store\<close> states what the container needs of the two.

  A single thread's view is modelled here: \<open>pop\<close> on an empty free list waits for another
  thread and, if none comes, forever.  \<open>PoolThreads\<close> has the threads.
\<close>

section \<open>State and operations\<close>

text \<open>
  \<open>free_list\<close>: the deque (debug build) or stack (release build), last element on top.
  \<open>block_list\<close>: the keys of the map, each the pointer its \<open>shared_ptr\<close> owns.
  \<open>region_use_count\<close> is an atomic \<open>int\<close>, which wraps around.
\<close>

record pool_container =
  chunk_size :: u64
  max_chunks :: u64
  region_use_count :: u32
  free_list :: "ptr list"
  block_list :: "ptr list"

definition new_pool_container :: "u64 \<Rightarrow> u64 \<Rightarrow> pool_container" where
  "new_pool_container chunk items = \<lparr>chunk_size = chunk, max_chunks = items,
     region_use_count = 0, free_list = [], block_list = []\<rparr>"

text \<open>
  \<open>push\<close>: the debug build looks the region up in the free list first and ends the
  program when it is there.
\<close>

definition push :: "env \<Rightarrow> ptr \<Rightarrow> (pool_container \<times> 'w, unit) M" where
  "push E region = bindM this_get (\<lambda>pc.
     if \<not> ndebug E \<and> region \<in> set (free_list pc) then faultM Terminated
     else this_mod (\<lambda>pc. pc\<lparr>free_list := free_list pc @ [region],
                       region_use_count := region_use_count pc - 1\<rparr>))"

definition pop :: "(pool_container \<times> 'w, ptr) M" where
  "pop = bindM this_get (\<lambda>pc.
     if free_list pc = [] then blockM
     else thenM (this_mod (\<lambda>pc. pc\<lparr>free_list := butlast (free_list pc),
                        region_use_count := region_use_count pc + 1\<rparr>))
          (returnM (last (free_list pc))))"

text \<open>\<open>block_list_[region.get()] = region\<close>.\<close>

definition block_put :: "ptr \<Rightarrow> pool_container \<Rightarrow> pool_container" where
  "block_put region pc = pc\<lparr>block_list := (if region \<in> set (block_list pc)
     then block_list pc else block_list pc @ [region])\<rparr>"

text \<open>The loop of \<open>AllocatePool\<close>; the counter is the number of blocks still to make.\<close>

fun alloc_blocks ::
    "env \<Rightarrow> nat \<Rightarrow> (u64 \<Rightarrow> ('w, ptr) M) \<Rightarrow> (pool_container \<times> 'w, bool) M" where
  "alloc_blocks E 0 f = returnM True"
| "alloc_blocks E (Suc n) f = bindM this_get (\<lambda>pc.
     bindM (on_world (f (chunk_size pc))) (\<lambda>region.
     if region \<noteq> 0
     then thenM (this_mod (block_put region)) (thenM (push E region) (alloc_blocks E n f))
     else returnM False))"

definition AllocatePool ::
    "env \<Rightarrow> nat \<Rightarrow> (u64 \<Rightarrow> ('w, ptr) M) \<Rightarrow> (pool_container \<times> 'w, bool) M" where
  "AllocatePool E num_chunks f = bindM (alloc_blocks E num_chunks f) (\<lambda>ok.
     if ok then thenM (this_mod (\<lambda>pc. pc\<lparr>region_use_count := 0\<rparr>)) (returnM True)
     else returnM False)"

text \<open>\<open>while (!free_list_.empty()) pop();\<close>\<close>

partial_function (option) pop_all :: "pool_container \<times> 'w \<Rightarrow> (unit result \<times> pool_container \<times> 'w) option"
where
  "pop_all s = bindM this_get (\<lambda>pc t.
     if free_list pc = [] then returnM () t else thenM pop pop_all t) s"

text \<open>\<open>DeallocatePool\<close>: clearing the block list destroys the regions.\<close>

definition DeallocatePool :: "(ptr \<Rightarrow> ('w, unit) M) \<Rightarrow> (pool_container \<times> 'w, int) M" where
  "DeallocatePool del = bindM this_get (\<lambda>pc.
     if length (free_list pc) \<noteq> length (block_list pc) \<or> region_use_count pc \<noteq> 0
     then returnM 0
     else thenM pop_all
         (thenM (on_world (iterM del (block_list pc)))
         (thenM (this_mod (\<lambda>pc. pc\<lparr>block_list := []\<rparr>))
         (returnM 1))))"

section \<open>Running the operations\<close>

lemma push_run [run_simps]:
  "push E region (pc, w) =
     (if \<not> ndebug E \<and> region \<in> set (free_list pc) then Some (Fault Terminated, (pc, w))
      else Some (Ok (), (pc\<lparr>free_list := free_list pc @ [region],
                           region_use_count := region_use_count pc - 1\<rparr>, w)))"
  by (simp add: push_def run_simps)

lemma pop_run [run_simps]:
  "pop (pc, w) =
     (if free_list pc = [] then None
      else Some (Ok (last (free_list pc)), (pc\<lparr>free_list := butlast (free_list pc),
                           region_use_count := region_use_count pc + 1\<rparr>, w)))"
  by (simp add: pop_def run_simps)

lemma pop_all_run:
  "pop_all (pc, w) = Some (Ok (), (pc\<lparr>free_list := [],
     region_use_count := region_use_count pc + of_nat (length (free_list pc))\<rparr>, w))"
proof (induction "free_list pc" arbitrary: pc rule: rev_induct)
  case Nil
  then show ?case by (subst pop_all.simps) (simp add: run_simps flip: Nil)
next
  case (snoc r rs)
  let ?pc = "pc\<lparr>free_list := rs, region_use_count := region_use_count pc + 1\<rparr>"
  have "pop_all (pc, w) = pop_all (?pc, w)"
    by (subst pop_all.simps) (simp add: run_simps flip: snoc.hyps(2))
  also have "\<dots> = Some (Ok (), (?pc\<lparr>free_list := [],
      region_use_count := region_use_count ?pc + of_nat (length rs)\<rparr>, w))"
    using snoc.hyps(1) [of ?pc] by simp
  finally show ?case by (simp add: algebra_simps flip: snoc.hyps(2))
qed

section \<open>The invariant\<close>

text \<open>The blocks that are not in the free list are handed out; the use count counts them.\<close>

definition outstanding :: "pool_container \<Rightarrow> ptr set" where
  "outstanding pc = set (block_list pc) - set (free_list pc)"

definition lists_ok :: "pool_container \<Rightarrow> bool" where
  "lists_ok pc \<longleftrightarrow> distinct (free_list pc) \<and> distinct (block_list pc) \<and>
     set (free_list pc) \<subseteq> set (block_list pc)"

definition pool_inv :: "pool_container \<Rightarrow> bool" where
  "pool_inv pc \<longleftrightarrow> lists_ok pc \<and>
     region_use_count pc = of_nat (length (block_list pc) - length (free_list pc))"

lemma lists_ok_lengths: "lists_ok pc \<Longrightarrow> length (free_list pc) \<le> length (block_list pc)"
  unfolding lists_ok_def by (metis card_mono distinct_card List.finite_set)

lemma card_outstanding:
  "lists_ok pc \<Longrightarrow> card (outstanding pc) = length (block_list pc) - length (free_list pc)"
  unfolding lists_ok_def outstanding_def by (simp add: card_Diff_subset distinct_card)

lemma pool_inv_count: "pool_inv pc \<Longrightarrow> region_use_count pc = of_nat (card (outstanding pc))"
  by (simp add: pool_inv_def card_outstanding)

lemma pool_inv_new [simp]: "pool_inv (new_pool_container chunk items)"
  by (simp add: pool_inv_def lists_ok_def new_pool_container_def)

lemma snoc_split: "xs \<noteq> [] \<Longrightarrow> \<exists>ys y. xs = ys @ [y]"
  by (metis append_butlast_last_id)

lemma pop_inv:
  assumes "pool_inv pc" and "pop (pc, w) = Some (Ok r, (pc', w'))"
  shows "pool_inv pc' \<and> w' = w \<and> r \<in> set (free_list pc) \<and> free_list pc = free_list pc' @ [r] \<and>
    block_list pc' = block_list pc \<and> chunk_size pc' = chunk_size pc \<and>
    outstanding pc' = insert r (outstanding pc)"
proof -
  from assms(2) have ne: "free_list pc \<noteq> []" by (auto simp: pop_run split: if_splits)
  then obtain rs x where fl: "free_list pc = rs @ [x]" using snoc_split by blast
  from assms(2) ne fl have x: "x = r"
    and pc': "pc' = pc\<lparr>free_list := rs, region_use_count := region_use_count pc + 1\<rparr>" "w' = w"
    by (auto simp: pop_run)
  from assms(1) fl have le: "Suc (length rs) \<le> length (block_list pc)"
    using lists_ok_lengths by (fastforce simp: pool_inv_def)
  have "region_use_count pc + 1 = of_nat (length (block_list pc) - length rs)"
    using assms(1) fl le by (simp add: pool_inv_def of_nat_diff)
  then show ?thesis
    using assms(1) fl x pc' by (auto simp: pool_inv_def lists_ok_def outstanding_def)
qed

lemma push_inv:
  assumes "pool_inv pc" and "r \<in> outstanding pc"
  shows "\<exists>pc'. push E r (pc, w) = Some (Ok (), (pc', w)) \<and> pool_inv pc' \<and>
    free_list pc' = free_list pc @ [r] \<and> block_list pc' = block_list pc \<and>
    chunk_size pc' = chunk_size pc \<and> outstanding pc' = outstanding pc - {r}"
proof -
  have "0 < card (outstanding pc)"
    using assms(2) by (auto simp: outstanding_def card_gt_0_iff)
  with assms(1) have lt: "length (free_list pc) < length (block_list pc)"
    by (simp add: pool_inv_def card_outstanding)
  then have "region_use_count pc - 1 = of_nat (length (block_list pc) - Suc (length (free_list pc)))"
    using assms(1) by (simp add: pool_inv_def of_nat_diff)
  with assms show ?thesis
    by (auto simp: push_run pool_inv_def lists_ok_def outstanding_def)
qed

section \<open>The allocator the container relies on\<close>

text \<open>
  \<open>live w\<close> are the region objects that exist in the world \<open>w\<close>.  The allocation function
  makes a new one and touches no other; destroying one removes it.
\<close>

locale region_store =
  fixes live :: "'w \<Rightarrow> ptr set"
    and alloc :: "u64 \<Rightarrow> ('w, ptr) M"
    and del :: "ptr \<Rightarrow> ('w, unit) M"
  assumes alloc_new: "alloc n w = Some (Ok p, w') \<Longrightarrow> p \<noteq> 0 \<and> p \<notin> live w \<and> live w' = insert p (live w)"
    and del_gone: "del p w = Some (Ok (), w') \<Longrightarrow> live w' = live w - {p}"
begin

lemma iter_del_gone:
  "iterM del ps w = Some (Ok (), w') \<Longrightarrow> live w' = live w - set ps"
proof (induction ps arbitrary: w)
  case Nil
  then show ?case by simp
next
  case (Cons p ps)
  then obtain w1 where "del p w = Some (Ok (), w1)" "iterM del ps w1 = Some (Ok (), w')"
    by (auto elim!: bindM_OkE)
  with Cons.IH [of w1] del_gone [of p w w1] show ?case by auto
qed

text \<open>One block: it enters both lists.\<close>

lemma alloc_block_step:
  assumes "lists_ok pc" and "set (block_list pc) \<subseteq> live w"
    and "alloc (chunk_size pc) w = Some (Ok p, w1)"
  defines "pc1 \<equiv> (block_put p pc)\<lparr>free_list := free_list pc @ [p],
             region_use_count := region_use_count pc - 1\<rparr>"
  shows "push E p (block_put p pc, w1) = Some (Ok (), (pc1, w1)) \<and> lists_ok pc1 \<and>
    block_list pc1 = block_list pc @ [p] \<and> set (block_list pc1) \<subseteq> live w1 \<and>
    outstanding pc1 = outstanding pc"
proof -
  from alloc_new [OF assms(3)] assms(2) have "p \<notin> set (block_list pc)" "live w1 = insert p (live w)"
    by auto
  with assms(1,2) show ?thesis
    by (auto simp: pc1_def push_run block_put_def lists_ok_def outstanding_def)
qed

lemma alloc_blocks_fresh:
  assumes "lists_ok pc" and "set (block_list pc) \<subseteq> live w"
    and "alloc_blocks E n alloc (pc, w) = Some (Ok ok, (pc', w'))"
  shows "ok \<and> lists_ok pc' \<and> set (block_list pc') \<subseteq> live w' \<and>
    length (free_list pc') = length (free_list pc) + n \<and>
    length (block_list pc') = length (block_list pc) + n \<and>
    outstanding pc' = outstanding pc \<and> chunk_size pc' = chunk_size pc \<and>
    live w' - set (block_list pc') = live w - set (block_list pc)"
  using assms
proof (induction n arbitrary: pc w)
  case 0
  then show ?case by simp
next
  case (Suc n)
  from Suc.prems(3) obtain p w1 where a: "alloc (chunk_size pc) w = Some (Ok p, w1)"
    by (auto simp: run_simps split: option.splits result.splits)
  let ?pc1 = "(block_put p pc)\<lparr>free_list := free_list pc @ [p],
                 region_use_count := region_use_count pc - 1\<rparr>"
  from alloc_block_step [OF Suc.prems(1,2) a]
  have step: "push E p (block_put p pc, w1) = Some (Ok (), (?pc1, w1))" "lists_ok ?pc1"
    "block_list ?pc1 = block_list pc @ [p]" "set (block_list ?pc1) \<subseteq> live w1"
    "outstanding ?pc1 = outstanding pc" by blast+
  from alloc_new [OF a] have p: "p \<noteq> 0" "p \<notin> live w" "live w1 = insert p (live w)" by auto
  with Suc.prems(3) a step(1) have "alloc_blocks E n alloc (?pc1, w1) = Some (Ok ok, (pc', w'))"
    by (simp add: run_simps)
  from Suc.IH [OF step(2,4) this] step(3,5) p Suc.prems(2) show ?case
    by (auto simp: block_put_def)
qed

lemma AllocatePool_fresh:
  assumes "lists_ok pc" and "set (block_list pc) \<subseteq> live w"
    and "AllocatePool E n alloc (pc, w) = Some (Ok ok, (pc', w'))"
  shows "ok \<and> lists_ok pc' \<and> set (block_list pc') \<subseteq> live w' \<and> region_use_count pc' = 0 \<and>
    length (free_list pc') = length (free_list pc) + n \<and>
    length (block_list pc') = length (block_list pc) + n \<and>
    outstanding pc' = outstanding pc \<and> chunk_size pc' = chunk_size pc \<and>
    live w' - set (block_list pc') = live w - set (block_list pc)"
proof -
  from assms(3) obtain ok1 pc1 where
    run: "alloc_blocks E n alloc (pc, w) = Some (Ok ok1, (pc1, w'))"
    by (auto simp: AllocatePool_def run_simps split: option.splits result.splits if_splits)
  from alloc_blocks_fresh [OF assms(1,2) run] run assms(3) show ?thesis
    by (auto simp: AllocatePool_def run_simps lists_ok_def outstanding_def)
qed

text \<open>A pool whose blocks are all back: every region of it is destroyed.\<close>

lemma DeallocatePool_returned:
  assumes "pool_inv pc" and "outstanding pc = {}"
    and "iterM del (block_list pc) w = Some (Ok (), w')"
  shows "DeallocatePool del (pc, w) = Some (Ok 1, (pc\<lparr>free_list := [], block_list := [],
      region_use_count := of_nat (length (block_list pc))\<rparr>, w')) \<and>
    live w' = live w - set (block_list pc)"
proof -
  from assms(1,2) have "length (free_list pc) = length (block_list pc)" "region_use_count pc = 0"
    using card_outstanding lists_ok_lengths
    by (fastforce simp: pool_inv_def)+
  with assms(3) iter_del_gone [OF assms(3)] show ?thesis
    by (simp add: DeallocatePool_def run_simps pop_all_run)
qed

end

lemma DeallocatePool_refuses:
  "length (free_list pc) \<noteq> length (block_list pc) \<or> region_use_count pc \<noteq> 0 \<Longrightarrow>
   DeallocatePool del (pc, w) = Some (Ok 0, (pc, w))"
  by (auto simp: DeallocatePool_def run_simps)

section \<open>Sequences of operations\<close>

datatype pool_op = Pop | Push ptr

text \<open>A thread's calls in order; the result lists the regions popped.\<close>

fun run_pool :: "env \<Rightarrow> pool_op list \<Rightarrow> (pool_container \<times> 'w, ptr list) M" where
  "run_pool E [] = returnM []"
| "run_pool E (Pop # ops) = bindM pop (\<lambda>r. bindM (run_pool E ops) (\<lambda>rs. returnM (r # rs)))"
| "run_pool E (Push r # ops) = thenM (push E r) (run_pool E ops)"

text \<open>The debug build and the release build of the pool do the same, on every sequence
  of calls that the check of the debug build does not end.\<close>

theorem builds_agree:
  assumes "\<not> ndebug E" and "ndebug E'"
    and "\<forall>t. run_pool E ops s \<noteq> Some (Fault Terminated, t)"
  shows "run_pool E' ops s = run_pool E ops s"
  using assms(3)
proof (induction ops arbitrary: s)
  case Nil
  then show ?case by simp
next
  case (Cons a ops)
  obtain pc w where s: "s = (pc, w)" by fastforce
  show ?case
  proof (cases a)
    case Pop
    show ?thesis
    proof (cases "free_list pc = []")
      case False
      let ?s = "(pc\<lparr>free_list := butlast (free_list pc),
                   region_use_count := region_use_count pc + 1\<rparr>, w)"
      from Cons.prems s Pop False have "\<forall>t. run_pool E ops ?s \<noteq> Some (Fault Terminated, t)"
        by (auto simp: run_simps)
      from Cons.IH [OF this] s Pop False show ?thesis by (simp add: run_simps)
    qed (simp add: s Pop run_simps)
  next
    case (Push r)
    with Cons.prems assms(1) s have notin: "r \<notin> set (free_list pc)" by (auto simp: run_simps)
    let ?s = "(pc\<lparr>free_list := free_list pc @ [r],
                 region_use_count := region_use_count pc - 1\<rparr>, w)"
    from Cons.prems s Push notin have "\<forall>t. run_pool E ops ?s \<noteq> Some (Fault Terminated, t)"
      by (auto simp: run_simps)
    from Cons.IH [OF this] s Push notin assms(2) show ?thesis by (simp add: run_simps)
  qed
qed

definition pool_12 :: pool_container where
  "pool_12 = \<lparr>chunk_size = 4096, max_chunks = 64, region_use_count = 0,
     free_list = [1, 2], block_list = [1, 2]\<rparr>"

definition env_ndebug :: env where
  "env_ndebug = env_ok\<lparr>ndebug := True\<rparr>"

lemma env_ndebug_simps [simp]: "ndebug env_ndebug" "logging env_ndebug = False"
  by (simp_all add: env_ndebug_def)

theorem builds_agree_witness:
  "run_pool env_ndebug [Pop, Pop, Push 1] (pool_12, ()) = run_pool env_ok [Pop, Pop, Push 1] (pool_12, ())"
  by (rule builds_agree) (simp_all add: run_simps pool_12_def)

text \<open>A region that is returned twice ends the program in the debug build.  In the
  release build it is handed out twice: two pops in a row give the same region.\<close>

theorem double_push:
  assumes "free_list pc = rs @ [r]" and "\<not> ndebug E" and "ndebug E'"
  shows "push E r (pc, w) = Some (Fault Terminated, (pc, w)) \<and>
    (\<exists>t. run_pool E' [Push r, Pop, Pop] (pc, w) = Some (Ok [r, r], t))"
  using assms by (simp add: run_simps butlast_append)

theorem double_push_witness:
  "\<exists>t. run_pool env_ndebug [Push 2, Pop, Pop] (pool_12, ()) = Some (Ok [2, 2], t)"
  using double_push [of pool_12 "[1]" 2 env_ok env_ndebug "()"] by (simp add: pool_12_def)

text \<open>The pool is last in, first out: returning the region just taken restores the
  container, and a region just returned is the next one handed out.\<close>

theorem pool_lifo:
  assumes "pool_inv pc"
  shows "(free_list pc \<noteq> [] \<longrightarrow>
      (\<exists>r pc1. pop (pc, w) = Some (Ok r, (pc1, w)) \<and> push E r (pc1, w) = Some (Ok (), (pc, w)))) \<and>
    (\<forall>r \<in> outstanding pc. \<exists>pc1. push E r (pc, w) = Some (Ok (), (pc1, w)) \<and>
      pop (pc1, w) = Some (Ok r, (pc, w)))"
proof (intro conjI impI ballI)
  assume ne: "free_list pc \<noteq> []"
  then obtain rs x where fl: "free_list pc = rs @ [x]" using snoc_split by blast
  with assms have "x \<notin> set rs" by (simp add: pool_inv_def lists_ok_def)
  with fl show "\<exists>r pc1. pop (pc, w) = Some (Ok r, (pc1, w)) \<and> push E r (pc1, w) = Some (Ok (), (pc, w))"
    by (auto simp: run_simps intro!: pool_container.equality)
next
  fix r assume "r \<in> outstanding pc"
  then have "r \<notin> set (free_list pc)" by (simp add: outstanding_def)
  then show "\<exists>pc1. push E r (pc, w) = Some (Ok (), (pc1, w)) \<and> pop (pc1, w) = Some (Ok r, (pc, w))"
    by (auto simp: run_simps intro!: pool_container.equality)
qed

theorem pool_lifo_witness:
  "\<exists>r pc1. pop (pool_12, ()) = Some (Ok r, (pc1, ())) \<and> push env_ok r (pc1, ()) = Some (Ok (), (pool_12, ()))"
proof -
  have "pool_inv pool_12" "free_list pool_12 \<noteq> []"
    by (simp_all add: pool_12_def pool_inv_def lists_ok_def)
  then show ?thesis using pool_lifo [of pool_12 "()" env_ok] by blast
qed

text \<open>\<open>DeallocatePool\<close> leaves the use count at the number of blocks it popped, so a
  second call on the emptied container is refused.\<close>

theorem deallocated_pool_refuses:
  assumes "pool_inv pc" and "outstanding pc = {}"
    and "0 < length (block_list pc)" and "length (block_list pc) < 2 ^ 32"
    and "iterM del (block_list pc) w = Some (Ok (), w1)"
  shows "\<exists>pc1. DeallocatePool del (pc, w) = Some (Ok 1, (pc1, w1)) \<and> block_list pc1 = [] \<and>
    DeallocatePool del (pc1, w1) = Some (Ok 0, (pc1, w1))"
proof -
  from assms(1,2) have l: "length (free_list pc) = length (block_list pc)" "region_use_count pc = 0"
    using card_outstanding lists_ok_lengths by (fastforce simp: pool_inv_def)+
  let ?n = "length (block_list pc)"
  let ?pc = "pc\<lparr>free_list := [], block_list := [], region_use_count := of_nat ?n\<rparr>"
  have "(of_nat ?n :: u32) \<noteq> 0"
    using assms(3,4) by (auto simp: word_of_nat_eq_0_iff dest!: dvd_imp_le)
  then have "DeallocatePool del (?pc, w1) = Some (Ok 0, (?pc, w1))"
    by (intro DeallocatePool_refuses) simp
  moreover have "DeallocatePool del (pc, w) = Some (Ok 1, (?pc, w1))"
    using l assms(5) by (simp add: DeallocatePool_def run_simps pop_all_run)
  ultimately show ?thesis by auto
qed

theorem deallocated_pool_refuses_witness:
  "\<exists>pc1. DeallocatePool (\<lambda>p. returnM ()) (pool_12, ()) = Some (Ok 1, (pc1, ())) \<and>
     DeallocatePool (\<lambda>p. returnM ()) (pc1, ()) = Some (Ok 0, (pc1, ()))"
proof -
  have "pool_inv pool_12" "outstanding pool_12 = {}" "0 < length (block_list pool_12)"
      "length (block_list pool_12) < 2 ^ 32"
      "iterM (\<lambda>p. returnM ()) (block_list pool_12) () = Some (Ok (), ())"
    by (simp_all add: pool_12_def pool_inv_def lists_ok_def outstanding_def)
  from deallocated_pool_refuses [OF this] show ?thesis by blast
qed

end
