(* ===== verification/PoolThreads.thy ===== *)
theory PoolThreads
  imports PoolContainer
begin

text \<open>
  The threads of \<open>pool_container\<close>: \<open>push\<close> and \<open>pop\<close> under the mutex \<open>memBuffer_mutex_\<close>
  and the condition variable \<open>memBuffer_cond_\<close>.  A section under the mutex is one step,
  made by the \<open>push\<close> and \<open>pop\<close> of \<open>PoolContainer\<close>.  A thread that finds the free list
  empty sleeps in \<open>wait\<close>; \<open>notify_one\<close> wakes one sleeper, who looks again; \<open>push\<close>
  notifies after it has unlocked, so other threads run in between.  Waking up without a
  notification is allowed, as the standard allows it.
\<close>

section \<open>States and steps\<close>

text \<open>\<open>Running\<close>: outside the pool; \<open>Sleeping\<close>: in \<open>wait\<close>; \<open>Woken\<close>: woken, about to take
  the mutex again; \<open>Notifying\<close>: after \<open>unlock\<close> in \<open>push\<close>, before \<open>notify_one\<close>.\<close>

datatype thread = Running | Sleeping | Woken | Notifying

record pool_sys =
  cont :: pool_container
  st :: "nat \<Rightarrow> thread"
  held :: "nat \<Rightarrow> ptr set"

inductive pool_step :: "env \<Rightarrow> pool_sys \<Rightarrow> pool_sys \<Rightarrow> bool" for E where
  pop_now: "st s t = Running \<Longrightarrow> pop (cont s, ()) = Some (Ok r, (pc, ())) \<Longrightarrow>
    pool_step E s (s\<lparr>cont := pc, held := (held s)(t := insert r (held s t))\<rparr>)"
| pop_wait: "st s t = Running \<Longrightarrow> pop (cont s, ()) = None \<Longrightarrow>
    pool_step E s (s\<lparr>st := (st s)(t := Sleeping)\<rparr>)"
| spurious: "st s t = Sleeping \<Longrightarrow> pool_step E s (s\<lparr>st := (st s)(t := Woken)\<rparr>)"
| wake_pop: "st s t = Woken \<Longrightarrow> pop (cont s, ()) = Some (Ok r, (pc, ())) \<Longrightarrow>
    pool_step E s (s\<lparr>cont := pc, st := (st s)(t := Running),
      held := (held s)(t := insert r (held s t))\<rparr>)"
| wake_wait: "st s t = Woken \<Longrightarrow> pop (cont s, ()) = None \<Longrightarrow>
    pool_step E s (s\<lparr>st := (st s)(t := Sleeping)\<rparr>)"
| give_back: "st s t = Running \<Longrightarrow> r \<in> held s t \<Longrightarrow> push E r (cont s, ()) = Some (Ok (), (pc, ())) \<Longrightarrow>
    pool_step E s (s\<lparr>cont := pc, st := (st s)(t := Notifying),
      held := (held s)(t := held s t - {r})\<rparr>)"
| notify_one: "st s t = Notifying \<Longrightarrow> st s u = Sleeping \<Longrightarrow>
    pool_step E s (s\<lparr>st := (st s)(t := Running, u := Woken)\<rparr>)"
| notify_none: "st s t = Notifying \<Longrightarrow> \<forall>u. st s u \<noteq> Sleeping \<Longrightarrow>
    pool_step E s (s\<lparr>st := (st s)(t := Running)\<rparr>)"

text \<open>At the start no thread is in the pool and every block is in the free list.\<close>

definition pool_start :: "pool_sys \<Rightarrow> bool" where
  "pool_start s \<longleftrightarrow> pool_inv (cont s) \<and> outstanding (cont s) = {} \<and>
     (\<forall>t. st s t = Running) \<and> (\<forall>t. held s t = {})"

inductive pool_reach :: "env \<Rightarrow> pool_sys \<Rightarrow> bool" for E where
  start: "pool_start s \<Longrightarrow> pool_reach E s"
| step: "pool_reach E s \<Longrightarrow> pool_step E s s' \<Longrightarrow> pool_reach E s'"

section \<open>The invariant\<close>

text \<open>The threads on whose account a sleeper will be looked after.\<close>

definition stirring :: "(nat \<Rightarrow> thread) \<Rightarrow> nat set" where
  "stirring f = {t. f t = Woken \<or> f t = Notifying}"

definition wake_inv :: "pool_sys \<Rightarrow> bool" where
  "wake_inv s \<longleftrightarrow> finite (stirring (st s)) \<and>
     ((\<exists>t. st s t = Sleeping) \<longrightarrow> length (free_list (cont s)) \<le> card (stirring (st s)))"

definition held_inv :: "pool_sys \<Rightarrow> bool" where
  "held_inv s \<longleftrightarrow> pool_inv (cont s) \<and> (\<Union>t. held s t) = outstanding (cont s) \<and>
     (\<forall>t u. t \<noteq> u \<longrightarrow> held s t \<inter> held s u = {})"

lemma stirring_upd:
  "stirring (f(t := x)) =
     (if x = Woken \<or> x = Notifying then insert t (stirring f) else stirring f - {t})"
  by (auto simp: stirring_def)

lemma pop_None [simp]: "pop (pc, w) = None \<longleftrightarrow> free_list pc = []"
  by (simp add: pop_run)

lemma held_take:
  assumes "held_inv s" and "pop (cont s, ()) = Some (Ok r, (pc, ()))"
  shows "held_inv (s\<lparr>cont := pc, held := (held s)(t := insert r (held s t))\<rparr>)"
proof -
  from assms(1) have inv: "pool_inv (cont s)" and un: "(\<Union>t. held s t) = outstanding (cont s)"
    and dis: "\<And>t u. t \<noteq> u \<Longrightarrow> held s t \<inter> held s u = {}"
    by (auto simp: held_inv_def)
  from pop_inv [OF inv assms(2)] have p: "pool_inv pc" "outstanding pc = insert r (outstanding (cont s))"
    and "r \<in> set (free_list (cont s))" by blast+
  then have "r \<notin> outstanding (cont s)" by (simp add: outstanding_def)
  with un have notheld: "r \<notin> held s u" for u by blast
  let ?h = "(held s)(t := insert r (held s t))"
  have "(\<Union>u. ?h u) = insert r (\<Union>u. held s u)" by (auto split: if_splits)
  moreover have "?h u \<inter> ?h v = {}" if "u \<noteq> v" for u v
    using dis [OF that] notheld that by auto
  ultimately show ?thesis using p un by (simp add: held_inv_def)
qed

lemma held_give:
  assumes "held_inv s" and "r \<in> held s t" and "push E r (cont s, ()) = Some (Ok (), (pc, ()))"
  shows "held_inv (s\<lparr>cont := pc, held := (held s)(t := held s t - {r})\<rparr>)"
proof -
  from assms(1) have inv: "pool_inv (cont s)" and un: "(\<Union>t. held s t) = outstanding (cont s)"
    and dis: "\<And>t u. t \<noteq> u \<Longrightarrow> held s t \<inter> held s u = {}"
    by (auto simp: held_inv_def)
  from un assms(2) have r: "r \<in> outstanding (cont s)" by blast
  from push_inv [OF inv r, of E "()"] assms(3)
  have p: "pool_inv pc" "outstanding pc = outstanding (cont s) - {r}" by simp_all
  let ?h = "(held s)(t := held s t - {r})"
  have "r \<notin> held s u" if "u \<noteq> t" for u using dis [OF that] assms(2) by blast
  then have "(\<Union>u. ?h u) = (\<Union>u. held s u) - {r}"
    by (intro equalityI subsetI) (auto split: if_splits, metis)
  moreover have "?h u \<inter> ?h v = {}" if "u \<noteq> v" for u v
    using dis [OF that] by auto
  ultimately show ?thesis using p un by (simp add: held_inv_def)
qed

lemma held_inv_st [simp]: "held_inv (s\<lparr>st := f\<rparr>) = held_inv s"
  by (simp add: held_inv_def)

lemma pool_step_held: "pool_step E s s' \<Longrightarrow> held_inv s \<Longrightarrow> held_inv s'"
proof (induction rule: pool_step.induct)
  case (pop_now s t r pc)
  then show ?case by (simp add: held_take)
next
  case (wake_pop s t r pc)
  then show ?case using held_take [of s r pc t] by (simp add: held_inv_def)
next
  case (give_back s t r pc)
  then show ?case using held_give [of s r t E pc] by (simp add: held_inv_def)
qed simp_all

lemma pop_shrinks:
  "pop (pc, ()) = Some (Ok r, (pc', ())) \<Longrightarrow> Suc (length (free_list pc')) = length (free_list pc)"
  by (auto simp: pop_run split: if_splits)

lemma push_grows:
  "push E r (pc, ()) = Some (Ok (), (pc', ())) \<Longrightarrow> length (free_list pc') = Suc (length (free_list pc))"
  by (auto simp: push_run split: if_splits)

lemma not_stirring: "f t = Running \<or> f t = Sleeping \<Longrightarrow> t \<notin> stirring f"
  by (auto simp: stirring_def)

lemma is_stirring: "f t = Woken \<or> f t = Notifying \<Longrightarrow> t \<in> stirring f"
  by (auto simp: stirring_def)

lemma pool_step_wake: "pool_step E s s' \<Longrightarrow> wake_inv s \<Longrightarrow> wake_inv s'"
proof (induction rule: pool_step.induct)
  case (pop_now s t r pc)
  then show ?case using pop_shrinks [OF pop_now(2)] by (auto simp: wake_inv_def)
next
  case (pop_wait s t)
  then show ?case by (simp add: wake_inv_def stirring_upd)
next
  case (spurious s t)
  then have "t \<notin> stirring (st s)" by (simp add: not_stirring)
  with spurious show ?case by (auto simp: wake_inv_def stirring_upd)
next
  case (wake_pop s t r pc)
  then have "t \<in> stirring (st s)" by (simp add: is_stirring)
  with wake_pop pop_shrinks [OF wake_pop(2)] show ?case
    by (auto simp: wake_inv_def stirring_upd card_Diff_singleton split: if_splits)
next
  case (wake_wait s t)
  then show ?case by (simp add: wake_inv_def stirring_upd)
next
  case (give_back s t r pc)
  then have "t \<notin> stirring (st s)" by (simp add: not_stirring)
  with give_back push_grows [OF give_back(3)] show ?case
    by (auto simp: wake_inv_def stirring_upd split: if_splits)
next
  case (notify_one s t u)
  then have "t \<in> stirring (st s)" "u \<notin> stirring (st s)" "t \<noteq> u"
    by (auto simp: is_stirring not_stirring)
  with notify_one show ?case
    by (auto simp: wake_inv_def stirring_upd card_insert_if card_Diff_singleton)
next
  case (notify_none s t)
  then show ?case by (auto simp: wake_inv_def stirring_upd)
qed

lemma pool_reach_inv: "pool_reach E s \<Longrightarrow> held_inv s \<and> wake_inv s"
proof (induction rule: pool_reach.induct)
  case (start s)
  then show ?case by (auto simp: pool_start_def held_inv_def wake_inv_def stirring_def)
next
  case (step s s')
  then show ?case using pool_step_held pool_step_wake by blast
qed

section \<open>What the threads can rely on\<close>

text \<open>C15: in every interleaving a block is held by at most one thread, never while it is in
  the free list, and none is lost: the blocks of the pool are the free ones and the held
  ones, and the use count is the number of held ones.\<close>

theorem pool_exclusive:
  assumes "pool_reach E s"
  shows "(\<forall>t u. t \<noteq> u \<longrightarrow> held s t \<inter> held s u = {}) \<and>
    (\<forall>t. held s t \<inter> set (free_list (cont s)) = {}) \<and>
    set (block_list (cont s)) = set (free_list (cont s)) \<union> (\<Union>t. held s t) \<and>
    region_use_count (cont s) = of_nat (card (\<Union>t. held s t))"
proof -
  from pool_reach_inv [OF assms] have inv: "pool_inv (cont s)"
    and un: "(\<Union>t. held s t) = outstanding (cont s)"
    and dis: "\<forall>t u. t \<noteq> u \<longrightarrow> held s t \<inter> held s u = {}" by (auto simp: held_inv_def)
  from un have "\<forall>t. held s t \<subseteq> outstanding (cont s)" by blast
  then have "\<forall>t. held s t \<inter> set (free_list (cont s)) = {}" by (auto simp: outstanding_def)
  moreover have "set (block_list (cont s)) = set (free_list (cont s)) \<union> outstanding (cont s)"
    using inv by (auto simp: outstanding_def pool_inv_def lists_ok_def)
  ultimately show ?thesis using dis un pool_inv_count [OF inv] by simp
qed

definition sys_12 :: pool_sys where
  "sys_12 = \<lparr>cont = pool_12, st = (\<lambda>_. Running), held = (\<lambda>_. {})\<rparr>"

lemma sys_12_reach: "pool_reach env_ok sys_12"
  by (rule pool_reach.start)
     (simp add: pool_start_def sys_12_def pool_12_def pool_inv_def lists_ok_def outstanding_def)

definition sys_taken :: pool_sys where
  "sys_taken = sys_12\<lparr>cont := pool_12\<lparr>free_list := [1], region_use_count := 1\<rparr>,
     held := (held sys_12)(5 := {2})\<rparr>"

lemma sys_taken_reach: "pool_reach env_ok sys_taken"
proof -
  have "pool_step env_ok sys_12 (sys_12\<lparr>cont := pool_12\<lparr>free_list := [1], region_use_count := 1\<rparr>,
      held := (held sys_12)(5 := insert 2 (held sys_12 5))\<rparr>)"
    by (rule pop_now) (simp_all add: sys_12_def pool_12_def pop_run)
  moreover have "insert 2 (held sys_12 5) = {2}" by (simp add: sys_12_def)
  ultimately show ?thesis
    using pool_reach.step [OF sys_12_reach] by (simp add: sys_taken_def)
qed

theorem pool_exclusive_witness:
  "pool_reach env_ok sys_taken \<and> held sys_taken 5 \<inter> set (free_list (cont sys_taken)) = {}"
  using pool_exclusive [OF sys_taken_reach] sys_taken_reach by simp

text \<open>A thread that holds a block can always return it, in the debug build too: the
  check for a block that is already back never ends a program whose threads return only
  what they took.\<close>

theorem return_never_ends_program:
  assumes "pool_reach E s" and "r \<in> held s t"
  shows "\<exists>pc. push E r (cont s, ()) = Some (Ok (), (pc, ())) \<and> r \<in> set (free_list pc)"
proof -
  from pool_reach_inv [OF assms(1)] assms(2)
  have "pool_inv (cont s)" "r \<in> outstanding (cont s)" by (auto simp: held_inv_def)
  from push_inv [OF this, of E "()"] show ?thesis by auto
qed

theorem return_never_ends_program_witness:
  "\<exists>pc. push env_ok 2 (cont sys_taken, ()) = Some (Ok (), (pc, ())) \<and> 2 \<in> set (free_list pc)"
proof -
  have "2 \<in> held sys_taken 5" by (simp add: sys_taken_def)
  from return_never_ends_program [OF sys_taken_reach this] show ?thesis .
qed

text \<open>The thread that will serve a sleeper when a block is free.\<close>

lemma sleeper_served:
  assumes "pool_reach E s" and "st s t = Sleeping" and "free_list (cont s) \<noteq> []"
  obtains u where "st s u = Woken \<or> st s u = Notifying"
proof -
  from pool_reach_inv [OF assms(1)] assms(2)
  have "length (free_list (cont s)) \<le> card (stirring (st s))" by (auto simp: wake_inv_def)
  with assms(3) have "0 < card (stirring (st s))" by (metis length_greater_0_conv order_less_le_trans)
  then have "stirring (st s) \<noteq> {}" by (metis card.empty less_irrefl)
  with that show thesis by (auto simp: stirring_def)
qed

text \<open>A step in which a sleeper wakes up and nobody has notified it.\<close>

definition unprompted :: "pool_sys \<Rightarrow> pool_sys \<Rightarrow> bool" where
  "unprompted s s' \<longleftrightarrow> (\<exists>t. st s t = Sleeping \<and> s' = s\<lparr>st := (st s)(t := Woken)\<rparr>)"

lemma prompted:
  assumes "st s t = Woken \<or> st s t = Notifying" and "st s' t = Running"
  shows "\<not> unprompted s s'"
  using assms by (auto simp: unprompted_def split: if_splits)

text \<open>C19: No wakeup is lost.  Whenever a thread sleeps while blocks are free, each free block has a
  thread of its own that is woken or about to notify; and the pool needs no luck to go on: in at
  most two steps, none of them a wakeup that nobody has asked for, a thread that was waiting takes
  a block.\<close>

theorem no_lost_wakeup:
  assumes "pool_reach E s" and "st s t = Sleeping" and "free_list (cont s) \<noteq> []"
  shows "length (free_list (cont s)) \<le> card {u. st s u = Woken \<or> st s u = Notifying} \<and>
    (\<exists>s1 s2 u r. (s1 = s \<or> pool_step E s s1 \<and> \<not> unprompted s s1) \<and> pool_step E s1 s2 \<and> \<not> unprompted s1 s2 \<and>
      (st s u = Sleeping \<or> st s u = Woken) \<and> r \<in> set (free_list (cont s)) \<and> r \<in> held s2 u \<and> st s2 u = Running)"
proof
  from pool_reach_inv [OF assms(1)] have inv: "pool_inv (cont s)" and "wake_inv s" by (simp_all add: held_inv_def)
  with assms(2) show "length (free_list (cont s)) \<le> card {u. st s u = Woken \<or> st s u = Notifying}"
    by (auto simp: wake_inv_def stirring_def)
  obtain r pc where pop: "pop (cont s, ()) = Some (Ok r, (pc, ()))"
    using assms(3) by (auto simp: pop_run)
  with pop_inv [OF inv pop] have r: "r \<in> set (free_list (cont s))" by blast
  obtain u where "st s u = Woken \<or> st s u = Notifying"
    using sleeper_served [OF assms] .
  then show "\<exists>s1 s2 u r. (s1 = s \<or> pool_step E s s1 \<and> \<not> unprompted s s1) \<and> pool_step E s1 s2 \<and> \<not> unprompted s1 s2 \<and>
      (st s u = Sleeping \<or> st s u = Woken) \<and> r \<in> set (free_list (cont s)) \<and> r \<in> held s2 u \<and> st s2 u = Running"
  proof
    assume w: "st s u = Woken"
    let ?s2 = "s\<lparr>cont := pc, st := (st s)(u := Running), held := (held s)(u := insert r (held s u))\<rparr>"
    have "\<not> unprompted s ?s2" by (rule prompted [of _ u]) (simp_all add: w)
    with wake_pop [OF w pop] w r show ?thesis by (intro exI [of _ s] exI [of _ ?s2] exI [of _ u] exI [of _ r]) simp
  next
    assume n: "st s u = Notifying"
    let ?s1 = "s\<lparr>st := (st s)(u := Running, t := Woken)\<rparr>"
    let ?s2 = "?s1\<lparr>cont := pc, st := (st ?s1)(t := Running), held := (held ?s1)(t := insert r (held ?s1 t))\<rparr>"
    from n assms(2) have "t \<noteq> u" by auto
    then have "st ?s1 u = Running" by simp
    with n have "\<not> unprompted s ?s1" by (intro prompted [of _ u]) simp_all
    moreover have "pool_step E s ?s1" using n assms(2) by (rule notify_one)
    moreover have w: "st ?s1 t = Woken" "pop (cont ?s1, ()) = Some (Ok r, (pc, ()))" using pop by simp_all
    have "\<not> unprompted ?s1 ?s2" by (rule prompted [of _ t]) simp_all
    moreover have "pool_step E ?s1 ?s2" using w by (rule wake_pop)
    ultimately show ?thesis
      using assms(2) r by (intro exI [of _ ?s1] exI [of _ ?s2] exI [of _ t] exI [of _ r]) simp
  qed
qed

text \<open>A run: thread 0 takes the only block, thread 1 goes to sleep, thread 0 returns it.\<close>

definition pool_1 :: pool_container where
  "pool_1 = \<lparr>chunk_size = 4096, max_chunks = 64, region_use_count = 0,
     free_list = [7], block_list = [7]\<rparr>"

definition sys_1 :: pool_sys where
  "sys_1 = \<lparr>cont = pool_1, st = (\<lambda>_. Running), held = (\<lambda>_. {})\<rparr>"

definition sys_1a :: pool_sys where
  "sys_1a = sys_1\<lparr>cont := pool_1\<lparr>free_list := [], region_use_count := 1\<rparr>,
     held := (held sys_1)(0 := insert 7 (held sys_1 0))\<rparr>"

definition sys_1b :: pool_sys where
  "sys_1b = sys_1a\<lparr>st := (st sys_1a)(1 := Sleeping)\<rparr>"

definition sys_1c :: pool_sys where
  "sys_1c = sys_1b\<lparr>cont := pool_1, st := (st sys_1b)(0 := Notifying),
     held := (held sys_1b)(0 := held sys_1b 0 - {7})\<rparr>"

lemma sys_1c_reach: "pool_reach env_ok sys_1c"
proof -
  have "pool_reach env_ok sys_1"
    by (rule pool_reach.start)
       (simp add: pool_start_def sys_1_def pool_1_def pool_inv_def lists_ok_def outstanding_def)
  moreover have "pool_step env_ok sys_1 sys_1a" unfolding sys_1a_def
    by (rule pop_now) (simp_all add: sys_1_def pool_1_def pop_run)
  moreover have "pool_step env_ok sys_1a sys_1b" unfolding sys_1b_def
    by (rule pop_wait) (simp_all add: sys_1a_def sys_1_def)
  moreover have "pool_step env_ok sys_1b sys_1c" unfolding sys_1c_def
    by (rule give_back) (simp_all add: sys_1b_def sys_1a_def sys_1_def pool_1_def push_run)
  ultimately show ?thesis by (blast intro: pool_reach.step)
qed

theorem no_lost_wakeup_witness:
  "pool_reach env_ok sys_1c \<and> (\<exists>s1 s2 u. pool_step env_ok s1 s2 \<and> \<not> unprompted s1 s2 \<and> st sys_1c u \<noteq> Running \<and> 7 \<in> held s2 u)"
proof -
  have s: "st sys_1c 1 = Sleeping" "free_list (cont sys_1c) = [7]"
    by (simp_all add: sys_1c_def sys_1b_def sys_1a_def sys_1_def pool_1_def)
  with no_lost_wakeup [OF sys_1c_reach s(1)] obtain s1 s2 u where
    "pool_step env_ok s1 s2" "\<not> unprompted s1 s2" "st sys_1c u = Sleeping \<or> st sys_1c u = Woken" "7 \<in> held s2 u"
    by auto
  moreover from this(3) have "st sys_1c u \<noteq> Running" by auto
  ultimately show ?thesis using sys_1c_reach by blast
qed

end
