(* ===== verification/PoolSpec.thy ===== *)
theory PoolSpec
  imports PoolThreads
begin

text \<open>
  What the threaded container promises, without lists, mutex, sleeping and notification: an
  abstract pool is a set of free blocks and a relation that says which thread owns which
  block.  The states of \<open>PoolThreads\<close> are mapped to it by \<open>abs_pool\<close>; every step of the threads
  is a step of the abstract pool or changes nothing there, and so the history of a run is one
  in which every block is taken and given back in turn, always by the thread that took it.
\<close>

section \<open>The abstract pool\<close>

record pool_spec =
  avail :: "ptr set"
  owns :: "(nat \<times> ptr) set"

datatype pool_event = Take nat ptr | Give nat ptr

inductive spec_step :: "pool_event list \<Rightarrow> pool_spec \<Rightarrow> pool_spec \<Rightarrow> bool" where
  spec_take: "r \<in> avail a \<Longrightarrow>
    spec_step [Take t r] a (a\<lparr>avail := avail a - {r}, owns := insert (t, r) (owns a)\<rparr>)"
| spec_give: "(t, r) \<in> owns a \<Longrightarrow>
    spec_step [Give t r] a (a\<lparr>avail := insert r (avail a), owns := owns a - {(t, r)}\<rparr>)"
| spec_skip: "spec_step [] a a"

inductive spec_run :: "pool_spec \<Rightarrow> pool_event list \<Rightarrow> pool_spec \<Rightarrow> bool" where
  run_start: "owns a = {} \<Longrightarrow> spec_run a [] a"
| run_step: "spec_run a evs b \<Longrightarrow> spec_step ev b c \<Longrightarrow> spec_run a (evs @ ev) c"

inductive_cases spec_skipE: "spec_step [] a b"

definition abs_pool :: "pool_sys \<Rightarrow> pool_spec" where
  "abs_pool s = \<lparr>avail = set (free_list (cont s)), owns = {(t, r). r \<in> held s t}\<rparr>"

lemma abs_pool_simps [simp]: "avail (abs_pool s) = set (free_list (cont s))"
    "(t, r) \<in> owns (abs_pool s) \<longleftrightarrow> r \<in> held s t" "abs_pool (s\<lparr>st := f\<rparr>) = abs_pool s"
  by (simp_all add: abs_pool_def)

section \<open>The threads refine it\<close>

lemma abs_take:
  assumes "held_inv s" and "pop (cont s, ()) = Some (Ok r, (pc, ()))"
  shows "spec_step [Take t r] (abs_pool s) (abs_pool (s\<lparr>cont := pc, held := (held s)(t := insert r (held s t))\<rparr>))"
proof -
  from assms(1) have inv: "pool_inv (cont s)" by (simp add: held_inv_def)
  from pop_inv [OF inv assms(2)] have fl: "free_list (cont s) = free_list pc @ [r]" by blast
  moreover have "distinct (free_list (cont s))" using inv by (simp add: pool_inv_def lists_ok_def)
  ultimately have r: "r \<in> avail (abs_pool s)" "set (free_list pc) = avail (abs_pool s) - {r}" by simp_all
  have "abs_pool (s\<lparr>cont := pc, held := (held s)(t := insert r (held s t))\<rparr>) =
      (abs_pool s)\<lparr>avail := avail (abs_pool s) - {r}, owns := insert (t, r) (owns (abs_pool s))\<rparr>"
    unfolding r(2) [symmetric] by (auto simp: abs_pool_def split: if_splits)
  with spec_take [OF r(1)] show ?thesis by simp
qed

lemma abs_give:
  assumes "r \<in> held s t" and "push E r (cont s, ()) = Some (Ok (), (pc, ()))"
  shows "spec_step [Give t r] (abs_pool s) (abs_pool (s\<lparr>cont := pc, held := (held s)(t := held s t - {r})\<rparr>))"
proof -
  from assms(2) have "set (free_list pc) = insert r (set (free_list (cont s)))"
    by (auto simp: push_run split: if_splits)
  then have "abs_pool (s\<lparr>cont := pc, held := (held s)(t := held s t - {r})\<rparr>) =
      (abs_pool s)\<lparr>avail := insert r (avail (abs_pool s)), owns := owns (abs_pool s) - {(t, r)}\<rparr>"
    by (auto simp: abs_pool_def split: if_splits)
  with spec_give [of t r "abs_pool s"] assms(1) show ?thesis by simp
qed

lemma abs_pool_cong: "cont s' = cont s \<Longrightarrow> held s' = held s \<Longrightarrow> abs_pool s' = abs_pool s"
  by (simp add: abs_pool_def)

lemma abs_step:
  assumes "pool_step E s s'" and "held_inv s"
  shows "\<exists>ev. spec_step ev (abs_pool s) (abs_pool s')"
  using assms
proof (induction rule: pool_step.induct)
  case (pop_now s t r pc)
  then show ?case using abs_take by blast
next
  case (wake_pop s t r pc)
  then have "spec_step [Take t r] (abs_pool s) (abs_pool (s\<lparr>cont := pc, held := (held s)(t := insert r (held s t))\<rparr>))"
    using abs_take by blast
  then show ?case by (simp add: abs_pool_def) blast
next
  case (give_back s t r pc)
  then have "spec_step [Give t r] (abs_pool s) (abs_pool (s\<lparr>cont := pc, held := (held s)(t := held s t - {r})\<rparr>))"
    using abs_give by blast
  then show ?case by (simp add: abs_pool_def) blast
qed (use spec_skip in fastforce)+

text \<open>C14: The threaded container refines the abstract pool: every step of every interleaving is
  a take of a free block, a return by its owner, or invisible; and a thread that asks can take
  a block at once exactly when the abstract pool has one.\<close>

theorem pool_refines:
  assumes "pool_reach E s" and "pool_step E s s'"
  shows "(\<exists>ev. spec_step ev (abs_pool s) (abs_pool s')) \<and>
    (\<forall>t. st s t = Running \<longrightarrow> ((\<exists>r s2. pool_step E s s2 \<and> spec_step [Take t r] (abs_pool s) (abs_pool s2)) \<longleftrightarrow>
       avail (abs_pool s) \<noteq> {}))"
proof -
  from pool_reach_inv [OF assms(1)] have inv: "held_inv s" by blast
  have "\<exists>r s2. pool_step E s s2 \<and> spec_step [Take t r] (abs_pool s) (abs_pool s2)"
    if "st s t = Running" "avail (abs_pool s) \<noteq> {}" for t
  proof -
    from that(2) obtain r pc where pop: "pop (cont s, ()) = Some (Ok r, (pc, ()))" by (auto simp: pop_run)
    from pop_now [OF that(1) this] abs_take [OF inv pop] show ?thesis by blast
  qed
  moreover have "avail (abs_pool s) \<noteq> {}" if "spec_step [Take t r] (abs_pool s) a" for t r a
    using that by (cases rule: spec_step.cases) auto
  ultimately show ?thesis using abs_step [OF assms(2) inv] by blast
qed

theorem pool_refines_witness:
  "\<exists>ev s'. pool_step env_ok sys_12 s' \<and> spec_step ev (abs_pool sys_12) (abs_pool s') \<and> avail (abs_pool sys_12) \<noteq> {}"
proof -
  have "st sys_12 0 = Running" "pop (cont sys_12, ()) \<noteq> None" "free_list (cont sys_12) \<noteq> []"
    by (simp_all add: sys_12_def pool_12_def)
  then obtain r pc where "pop (cont sys_12, ()) = Some (Ok r, (pc, ()))" by (auto simp: pop_run)
  with \<open>st sys_12 0 = Running\<close> have "\<exists>s'. pool_step env_ok sys_12 s'" using pop_now by blast
  then show ?thesis using pool_refines [OF sys_12_reach] \<open>free_list (cont sys_12) \<noteq> []\<close> by fastforce
qed

section \<open>Histories\<close>

text \<open>The owner of a block after a history, and the histories in which every block is taken
  when it is free and given back by its owner.\<close>

fun owner_after :: "pool_event list \<Rightarrow> ptr \<Rightarrow> nat option" where
  "owner_after [] r = None"
| "owner_after (Take t q # evs) r = (if q = r then Some t else owner_after evs r)"
| "owner_after (Give t q # evs) r = (if q = r then None else owner_after evs r)"

text \<open>Histories here have the newest event first.\<close>

fun fair_history :: "pool_event list \<Rightarrow> bool" where
  "fair_history [] \<longleftrightarrow> True"
| "fair_history (Take t r # evs) \<longleftrightarrow> owner_after evs r = None \<and> fair_history evs"
| "fair_history (Give t r # evs) \<longleftrightarrow> owner_after evs r = Some t \<and> fair_history evs"

lemma spec_run_history:
  "spec_run a evs b \<Longrightarrow> fair_history (rev evs) \<and> (\<forall>t r. (t, r) \<in> owns b \<longleftrightarrow> owner_after (rev evs) r = Some t) \<and>
     avail b = avail a - {r. owner_after (rev evs) r \<noteq> None} \<and> (\<forall>r. owner_after (rev evs) r \<noteq> None \<longrightarrow> r \<in> avail a)"
proof (induction rule: spec_run.induct)
  case (run_start a)
  then show ?case by simp
next
  case (run_step a evs b ev c)
  from run_step(2,3) show ?case by (cases rule: spec_step.cases) auto
qed

lemma pool_reach_run:
  assumes "pool_reach E s"
  shows "\<exists>a evs. spec_run a evs (abs_pool s) \<and> avail a = set (block_list (cont s))"
  using assms
proof (induction rule: pool_reach.induct)
  case (start s)
  then have "owns (abs_pool s) = {}" "avail (abs_pool s) = set (block_list (cont s))"
    by (auto simp: pool_start_def abs_pool_def outstanding_def pool_inv_def lists_ok_def)
  with run_start show ?case by blast
next
  case (step s s')
  from pool_reach_inv [OF step(1)] have inv: "held_inv s" by blast
  from step(2) have "block_list (cont s') = block_list (cont s)"
    by (cases rule: pool_step.cases) (auto simp: pop_run push_run split: if_splits)
  with step.IH abs_step [OF step(2) inv] run_step show ?case by metis
qed

text \<open>Every run has a history in which a block is taken only while nobody owns it and given
  back only by its owner, and which determines the state: a thread holds a block exactly when
  it was the last to take it, and the free blocks are the others.\<close>

theorem pool_histories:
  assumes "pool_reach E s"
  shows "\<exists>evs. fair_history evs \<and> (\<forall>t r. r \<in> held s t \<longleftrightarrow> owner_after evs r = Some t) \<and>
    set (free_list (cont s)) = {r \<in> set (block_list (cont s)). owner_after evs r = None}"
proof -
  from pool_reach_run [OF assms] obtain a evs where
    "spec_run a evs (abs_pool s)" "avail a = set (block_list (cont s))" by blast
  with spec_run_history [OF this(1)] show ?thesis by (intro exI [of _ "rev evs"]) auto
qed

theorem pool_histories_witness:
  "\<exists>evs. fair_history evs \<and> owner_after evs 2 = Some 5 \<and> owner_after evs 1 = None"
proof -
  have "2 \<in> held sys_taken 5" "1 \<in> set (free_list (cont sys_taken))"
    by (simp_all add: sys_taken_def)
  with pool_histories [OF sys_taken_reach] show ?thesis by blast
qed

end
