(* ===== verification/Messages.thy ===== *)
theory Messages
  imports Prelude
begin

text \<open>
  The message format of \<open>include/rdma_messages.h\<close>: a header of two words and data that fill a
  message of the default size.  The file only declares it; the lemmas say how such a message
  lies in memory.
\<close>

definition DEFAULT_MESSAGE_SIZE :: nat where "DEFAULT_MESSAGE_SIZE = 256"

record User_RDMA_Header =
  msg_tag :: u32
  msg_expected :: u32

text \<open>\<open>sizeof\<close> of two words of four bytes.\<close>

definition CSCS_UserMessageHeaderSize :: nat where "CSCS_UserMessageHeaderSize = 4 + 4"

definition CSCS_UserMessageDataSize :: nat where
  "CSCS_UserMessageDataSize = DEFAULT_MESSAGE_SIZE - CSCS_UserMessageHeaderSize"

record UserRDMA_message =
  msg_header :: User_RDMA_Header
  MessageData :: "u8 list"

definition ExpectedMessage :: u8 where "ExpectedMessage = 110"

definition UnexpectedMessage :: u8 where "UnexpectedMessage = 111"

definition TextMessage :: u8 where "TextMessage = 2"

text \<open>A message of the declared type has an array of exactly the data size.\<close>

definition message_ok :: "UserRDMA_message \<Rightarrow> bool" where
  "message_ok m \<longleftrightarrow> length (MessageData m) = CSCS_UserMessageDataSize"

section \<open>A message in memory\<close>

text \<open>The members one after the other, without padding, words with the low byte first.\<close>

definition word_bytes :: "u32 \<Rightarrow> u8 list" where
  "word_bytes x = map (\<lambda>i. ucast (drop_bit (8 * i) x)) [0..<4]"

definition bytes_word :: "u8 list \<Rightarrow> u32" where
  "bytes_word bs = of_nat (foldr (\<lambda>b n. unat b + 256 * n) bs 0)"

definition message_bytes :: "UserRDMA_message \<Rightarrow> u8 list" where
  "message_bytes m = word_bytes (msg_tag (msg_header m)) @ word_bytes (msg_expected (msg_header m)) @ MessageData m"

definition read_message :: "u8 list \<Rightarrow> UserRDMA_message" where
  "read_message bs = \<lparr>msg_header = \<lparr>msg_tag = bytes_word (take 4 bs), msg_expected = bytes_word (take 4 (drop 4 bs))\<rparr>,
     MessageData = drop 8 bs\<rparr>"

lemma word_bytes_length [simp]: "length (word_bytes x) = 4"
  by (simp add: word_bytes_def)

lemma bytes_word_bytes [simp]: "bytes_word (word_bytes x) = x"
proof -
  define n where "n = unat x"
  have "take_bit 32 (unat x) = unat x" using unsigned_less [of x, where 'a = nat] by (simp add: take_bit_nat_eq_self)
  then have "unat (ucast (drop_bit (8 * i) x) :: u8) = take_bit 8 (drop_bit (8 * i) n)" for i
    by (simp add: n_def unsigned_ucast_eq unsigned_drop_bit_eq)
  then have b: "unat (ucast (drop_bit (8 * i) x) :: u8) = n div 256 ^ i mod 256" for i
    by (simp add: drop_bit_eq_div take_bit_eq_mod power_mult)
  have l: "n < 256 ^ 4" using unsigned_less [of x] by (simp add: n_def)
  define a where "a = n div 256"
  define b' where "b' = a div 256"
  define c where "c = b' div 256"
  have d: "n div 256 ^ 2 = b'" "n div 256 ^ 3 = c"
    by (simp_all add: a_def b'_def c_def power2_eq_square power3_eq_cube flip: div_mult2_eq)
  have "c < 256" using l d by (simp add: less_mult_imp_div_less flip: d(2))
  then have "foldr (\<lambda>b n. unat b + 256 * n) (word_bytes x) 0 = n"
    using b [of 0] b [of 1] b [of 2] b [of 3] d
    by (simp add: word_bytes_def upt_rec a_def b'_def c_def)
  then show ?thesis by (simp add: bytes_word_def n_def)
qed

text \<open>A message fills the default size exactly, and what is written is what is read.\<close>

theorem message_roundtrip:
  "read_message (message_bytes m) = m \<and>
   (length (message_bytes m) = DEFAULT_MESSAGE_SIZE \<longleftrightarrow> message_ok m)"
  by (auto simp: read_message_def message_bytes_def message_ok_def CSCS_UserMessageDataSize_def
      CSCS_UserMessageHeaderSize_def DEFAULT_MESSAGE_SIZE_def)

end
