(* ===== verification/MemoryRegion.thy ===== *)
theory MemoryRegion
  imports Verbs "HOL-Library.Multiset"
begin

unbundle bit_operations_syntax

text \<open>
  \<open>RdmaMemoryRegion\<close> (\<open>include/RdmaMemoryRegion.h\<close>, \<open>src/RdmaMemoryRegion.cpp\<close>): a buffer
  registered with the RDMA device.  The record is the object, the operations run on it
  and the world.  The lemmas follow the ownership of registrations and mappings through
  the trace: what \<open>allocate\<close> acquires, \<open>release\<close> gives back.
\<close>

section \<open>The object\<close>

text \<open>The fields \<open>_region\<close>, \<open>_frags\<close>, \<open>_fd\<close>, \<open>_flags\<close>, \<open>_messageLength\<close>.\<close>

record mregion =
  region :: "ibv_mr option"
  frags :: int
  fd :: int
  flags :: u32
  messageLength :: u32

definition BLOCK_USER :: u32 where "BLOCK_USER = 1"
definition BLOCK_TEMP :: u32 where "BLOCK_TEMP = 2"

definition MaxAllocateAttempts :: nat where "MaxAllocateAttempts = 16"

text \<open>\<open>RdmaMemoryRegion()\<close> and \<open>RdmaMemoryRegion(region, messageLength)\<close>.\<close>

definition empty_region :: mregion where
  "empty_region = \<lparr>region = None, frags = 0, fd = -1, flags = 0, messageLength = 0\<rparr>"

definition wrap_region :: "ibv_mr option \<Rightarrow> u32 \<Rightarrow> mregion" where
  "wrap_region mr len = \<lparr>region = mr, frags = 0, fd = -1, flags = 0, messageLength = len\<rparr>"

definition isAllocated :: "mregion \<Rightarrow> bool" where
  "isAllocated r = (region r \<noteq> None)"

text \<open>\<open>operator->\<close> and \<open>operator*\<close>: the address, or the null pointer without a region.\<close>

definition region_deref :: "mregion \<Rightarrow> u64" where
  "region_deref r = (case region r of None \<Rightarrow> 0 | Some mr \<Rightarrow> mr_addr mr)"

text \<open>The getters read through \<open>_region\<close> unchecked.\<close>

definition through_region :: "(ibv_mr \<Rightarrow> 'v) \<Rightarrow> (mregion \<times> 'w, 'v) M" where
  "through_region f = bindM this_get (\<lambda>r. case region r of
       None \<Rightarrow> faultM NullDeref
     | Some mr \<Rightarrow> returnM (f mr))"

definition getAddress :: "(mregion \<times> 'w, u64) M" where
  "getAddress = through_region mr_addr"

definition mr_length32 :: "ibv_mr \<Rightarrow> u32" where
  "mr_length32 mr = ucast (mr_length mr)"

definition getLength :: "(mregion \<times> 'w, u32) M" where
  "getLength = through_region mr_length32"

definition getLocalKey :: "(mregion \<times> 'w, u32) M" where
  "getLocalKey = through_region mr_lkey"

definition getRemoteKey :: "(mregion \<times> 'w, u32) M" where
  "getRemoteKey = through_region mr_rkey"

definition setMessageLength :: "u32 \<Rightarrow> mregion \<Rightarrow> mregion" where
  "setMessageLength n r = r\<lparr>messageLength := n\<rparr>"

definition isMessageReady :: "mregion \<Rightarrow> bool" where
  "isMessageReady r = (messageLength r > 0)"

definition isUserRegion :: "mregion \<Rightarrow> bool" where
  "isUserRegion r = (flags r AND BLOCK_USER = BLOCK_USER)"

definition isTempRegion :: "mregion \<Rightarrow> bool" where
  "isTempRegion r = (flags r AND BLOCK_TEMP = BLOCK_TEMP)"

definition setTempRegion :: "mregion \<Rightarrow> mregion" where
  "setTempRegion r = r\<lparr>flags := flags r OR BLOCK_TEMP\<rparr>"

section \<open>Allocation\<close>

definition MAP_FAILED :: u64 where "MAP_FAILED = - 1"

text \<open>
  The \<open>do ... while\<close> loop of \<open>allocate\<close>.  The counter is the number of attempts that
  remain, \<open>MaxAllocateAttempts - attempt\<close>; \<open>Inl\<close> is the early \<open>return err\<close>.  The flag
  and the fragment count decide on another attempt.
\<close>

fun alloc_attempts ::
    "env \<Rightarrow> u64 \<Rightarrow> u64 \<Rightarrow> nat \<Rightarrow> ibv_mr list \<Rightarrow> ('a world_scheme, int + ibv_mr list) M" where
  "alloc_attempts E pd len 0 regionList = returnM (Inr regionList)"
| "alloc_attempts E pd len (Suc n) regionList =
     bindM (ext_ptr E (Mem (Mmap len))) (\<lambda>buffer.
     if buffer = MAP_FAILED then bindM (errno E) (\<lambda>err. returnM (Inl err))
     else bindM (ext_mr E (Mem (Ibv_reg_mr pd buffer len))) (\<lambda>mr. case mr of
         None \<Rightarrow> returnM (Inl ENOMEM)
       | Some memoryRegion \<Rightarrow> bindM getM (\<lambda>w.
           if bgvrnic_device w \<and> 1 < mr_frags memoryRegion \<and> 0 < n
           then alloc_attempts E pd len n (regionList @ [memoryRegion])
           else returnM (Inr (regionList @ [memoryRegion])))))"

text \<open>The first round of the loop.\<close>

lemma alloc_attempts_first:
  "alloc_attempts E pd len MaxAllocateAttempts regionList =
     bindM (ext_ptr E (Mem (Mmap len))) (\<lambda>buffer.
     if buffer = MAP_FAILED then bindM (errno E) (\<lambda>err. returnM (Inl err))
     else bindM (ext_mr E (Mem (Ibv_reg_mr pd buffer len))) (\<lambda>mr. case mr of
         None \<Rightarrow> returnM (Inl ENOMEM)
       | Some memoryRegion \<Rightarrow> bindM getM (\<lambda>w.
           if bgvrnic_device w \<and> 1 < mr_frags memoryRegion
           then alloc_attempts E pd len 15 (regionList @ [memoryRegion])
           else returnM (Inr (regionList @ [memoryRegion])))))"
proof -
  have Suc15: "MaxAllocateAttempts = Suc 15" by (simp add: MaxAllocateAttempts_def)
  show ?thesis unfolding Suc15 alloc_attempts.simps by (simp cong: if_cong)
qed

text \<open>The scan for the region with the fewest fragments: \<open>(bestRegion, minFragments)\<close>.\<close>

fun best_region :: "ibv_mr list \<Rightarrow> nat \<Rightarrow> nat \<times> u32 \<Rightarrow> nat \<times> u32" where
  "best_region [] index best = best"
| "best_region (mr # mrs) index (bestRegion, minFragments) =
     best_region mrs (Suc index)
       (if mr_frags mr < minFragments then (index, mr_frags mr) else (bestRegion, minFragments))"

definition bestRegion :: "ibv_mr list \<Rightarrow> nat" where
  "bestRegion regionList = fst (best_region regionList 0 (0, 100))"

text \<open>All regions but the best one are deregistered and unmapped.\<close>

definition drop_region :: "env \<Rightarrow> ibv_mr \<Rightarrow> ('a world_scheme, unit) M" where
  "drop_region E mr =
     bindM (ext_int E (Mem (Ibv_dereg_mr mr))) (\<lambda>_.
     bindM (ext_int E (Mem (Munmap (mr_addr mr) (mr_length mr)))) (\<lambda>_. returnM ()))"

fun release_others :: "env \<Rightarrow> nat \<Rightarrow> nat \<Rightarrow> ibv_mr list \<Rightarrow> ('a world_scheme, unit) M" where
  "release_others E best index [] = returnM ()"
| "release_others E best index (mr # mrs) =
     thenM (whenM (index \<noteq> best) (drop_region E mr)) (release_others E best (Suc index) mrs)"

definition allocate :: "env \<Rightarrow> u64 \<Rightarrow> u64 \<Rightarrow> (mregion \<times> 'a world_scheme, int) M" where
  "allocate E pd len =
     bindM (on_world (alloc_attempts E pd len MaxAllocateAttempts [])) (\<lambda>res. case res of
       Inl err \<Rightarrow> returnM err
     | Inr regionList \<Rightarrow> bindM (on_world getM) (\<lambda>w.
         if bgvrnic_device w then
           (if 1 < length regionList then
              (let best = bestRegion regionList in
               thenM (on_world (release_others E best 0 regionList))
              (thenM (this_mod (\<lambda>r. r\<lparr>region := Some (regionList ! best),
                         frags := sint (mr_frags (regionList ! best))\<rparr>))
               (returnM 0)))
            else
              thenM (this_mod (\<lambda>r. r\<lparr>region := Some (regionList ! 0),
                        frags := sint (mr_frags (regionList ! 0))\<rparr>))
              (returnM 0))
         else
           thenM (this_mod (\<lambda>r. r\<lparr>region := Some (regionList ! 0), frags := 1\<rparr>))
           (returnM 0)))"

text \<open>The access flags are the constant local write, remote write, remote read.\<close>

definition allocate64kB :: "env \<Rightarrow> u64 \<Rightarrow> (mregion \<times> 'a world_scheme, int) M" where
  "allocate64kB E pd =
     (let len = 65536 in
     bindM (on_world (ext_ptr E (Mem (Mmap len)))) (\<lambda>buffer.
     if buffer = MAP_FAILED then on_world (errno E)
     else bindM (on_world (ext_mr E (Mem (Ibv_reg_mr pd buffer len)))) (\<lambda>mr.
       thenM (this_mod (\<lambda>r. r\<lparr>region := mr\<rparr>))
       (case mr of
         None \<Rightarrow>
           bindM (on_world (ext_int E (Mem (Munmap buffer len)))) (\<lambda>_. returnM ENOMEM)
       | Some bgv_region \<Rightarrow>
           thenM (this_mod (\<lambda>r. r\<lparr>frags := sint (mr_frags bgv_region)\<rparr>)) (returnM 0)))))"

definition allocateFromBgvrnicDevice ::
    "env \<Rightarrow> u64 \<Rightarrow> u64 \<Rightarrow> (mregion \<times> 'a world_scheme, int) M" where
  "allocateFromBgvrnicDevice E pd len =
     bindM (on_world (ext_int E (Mem Open_bgiomem))) (\<lambda>f.
     thenM (this_mod (\<lambda>r. r\<lparr>fd := f\<rparr>))
     (if f = -1 then on_world (errno E)
      else bindM (on_world (ext_id E (Mem (Read_region_size f)))) (\<lambda>(count, region_size).
        if count = 8 \<and> region_size < len
        then bindM (on_world (ext_int E (Mem (Close f)))) (\<lambda>_. returnM EINVAL)
        else bindM (on_world (ext_ptr E (Mem (Mmap_fd f len)))) (\<lambda>buffer.
          if buffer = MAP_FAILED
          then bindM (on_world (errno E)) (\<lambda>err.
               bindM (on_world (ext_int E (Mem (Close f)))) (\<lambda>_. returnM err))
          else bindM (on_world (ext_mr E (Mem (Ibv_reg_mr pd buffer len)))) (\<lambda>mr.
            thenM (this_mod (\<lambda>r. r\<lparr>region := mr\<rparr>))
            (case mr of
              None \<Rightarrow>
                bindM (on_world (ext_int E (Mem (Munmap buffer len)))) (\<lambda>_.
                bindM (on_world (ext_int E (Mem (Close f)))) (\<lambda>_. returnM ENOMEM))
            | Some bgv_region \<Rightarrow>
                thenM (this_mod (\<lambda>r. r\<lparr>frags := sint (mr_frags bgv_region)\<rparr>))
                (bindM (on_world (ext_int E (Mem (Close f)))) (\<lambda>_. returnM 0))))))))"

text \<open>
  The constructor that registers a buffer of the user.  The 64-bit length is stored
  into the 32-bit \<open>_messageLength\<close>, and that is what is registered.
\<close>

definition user_region :: "env \<Rightarrow> u64 \<Rightarrow> u64 \<Rightarrow> u64 \<Rightarrow> ('a world_scheme, mregion) M" where
  "user_region E pd buffer len =
     (let msglen = ucast len :: u32 in
     bindM (ext_mr E (Mem (Ibv_reg_mr pd buffer (ucast msglen)))) (\<lambda>mr.
     returnM \<lparr>region = mr, frags = -1, fd = -1, flags = BLOCK_USER, messageLength = msglen\<rparr>))"

text \<open>
  \<open>release\<close>.  The debug messages read the local key through \<open>_region\<close>: before the null
  check, and once more after the region was deregistered.  They are there in builds
  with logging only.
\<close>

definition release :: "env \<Rightarrow> (mregion \<times> 'a world_scheme, int) M" where
  "release E =
     thenM (whenM (logging E) (bindM getLocalKey (\<lambda>_. returnM ())))
    (bindM this_get (\<lambda>r. case region r of
       None \<Rightarrow> returnM 0
     | Some mr \<Rightarrow>
         bindM getAddress (\<lambda>buffer.
         bindM getLength (\<lambda>len.
         bindM (on_world (ext_int E (Mem (Ibv_dereg_mr mr)))) (\<lambda>rc.
         if rc \<noteq> 0 then returnM (-1)
         else thenM (whenM (logging E) (faultM UseAfterFree))
             (thenM (whenM (\<not> isUserRegion r)
                (bindM (on_world (ext_int E (Mem (Munmap buffer (ucast len))))) (\<lambda>_. returnM ())))
             (thenM (this_mod (\<lambda>r. r\<lparr>region := None\<rparr>))
             (returnM 0))))))))"

section \<open>What the operations leave alone\<close>

text \<open>Only the trace of the world changes.\<close>

lemma alloc_attempts_frame:
  "alloc_attempts E pd len n rs w = Some (res, w') \<Longrightarrow>
     world.more w' = world.more w \<and> bgvrnic_device w' = bgvrnic_device w"
  by (induction n arbitrary: rs w)
     (auto simp: run_simps split: if_splits option.splits dest!: meta_spec)

lemma drop_region_frame:
  "drop_region E mr w = Some (res, w') \<Longrightarrow>
     world.more w' = world.more w \<and> bgvrnic_device w' = bgvrnic_device w \<and> res = Ok ()"
  by (auto simp: drop_region_def run_simps)

lemma release_others_frame:
  "release_others E best index mrs w = Some (res, w') \<Longrightarrow>
     world.more w' = world.more w \<and> bgvrnic_device w' = bgvrnic_device w"
  by (induction mrs arbitrary: index w)
     (fastforce simp: run_simps drop_region_def split: if_splits option.splits)+

lemma allocate_frame:
  "allocate E pd len (r, w) = Some (res, (r', w')) \<Longrightarrow>
     world.more w' = world.more w \<and> bgvrnic_device w' = bgvrnic_device w"
  by (auto simp: allocate_def run_simps Let_def split: option.splits result.splits sum.splits if_splits
      dest!: alloc_attempts_frame release_others_frame)

lemma release_frame:
  "release E (r, w) = Some (res, (r', w')) \<Longrightarrow>
     world.more w' = world.more w \<and> bgvrnic_device w' = bgvrnic_device w"
  by (auto simp: release_def run_simps getAddress_def getLength_def getLocalKey_def through_region_def
      split: option.splits if_splits)

section \<open>Ownership read off the trace\<close>

text \<open>
  \<open>live_mrs\<close>: the registrations made and not taken back; \<open>live_maps\<close>: the mapped buffers
  with their lengths that were not unmapped (an unmapping gives back a buffer only under
  the length it was mapped with).
\<close>

fun live_mrs :: "trace \<Rightarrow> ibv_mr multiset" where
  "live_mrs [] = {#}"
| "live_mrs ((Mem (Ibv_reg_mr pd a l), R_mr (Some mr)) # t) = add_mset mr (live_mrs t)"
| "live_mrs ((Mem (Ibv_dereg_mr mr), R_int rc) # t) =
     (if rc = 0 then live_mrs t - {#mr#} else live_mrs t)"
| "live_mrs (_ # t) = live_mrs t"

fun live_maps :: "trace \<Rightarrow> (u64 \<times> u64) multiset" where
  "live_maps [] = {#}"
| "live_maps ((Mem (Mmap l), R_ptr b) # t) =
     (if b = MAP_FAILED then live_maps t else add_mset (b, l) (live_maps t))"
| "live_maps ((Mem (Munmap b l), R_int rc) # t) = live_maps t - {#(b, l)#}"
| "live_maps (_ # t) = live_maps t"

text \<open>
  The documented behaviour of registration the code relies on: a registration describes
  the memory it was asked for, and deregistering succeeds.
\<close>

definition honest_reg :: "env \<Rightarrow> bool" where
  "honest_reg E \<longleftrightarrow> (\<forall>t pd a l mr. mr_of E t (Mem (Ibv_reg_mr pd a l)) = Some mr \<longrightarrow>
     mr_addr mr = a \<and> mr_length mr = l)"

definition dereg_ok :: "env \<Rightarrow> bool" where
  "dereg_ok E \<longleftrightarrow> (\<forall>t mr. rc_of E t (Mem (Ibv_dereg_mr mr)) = 0)"

lemma honest_reg_ok [simp]: "honest_reg env_ok"
  by (simp add: honest_reg_def)

lemma dereg_ok_ok [simp]: "dereg_ok env_ok"
  by (simp add: dereg_ok_def)

abbreviation footprint :: "ibv_mr \<Rightarrow> u64 \<times> u64" where
  "footprint mr \<equiv> (mr_addr mr, mr_length mr)"

text \<open>One attempt after the other: every region of the list is registered and mapped.\<close>

lemma alloc_attempts_owns:
  assumes "honest_reg E"
    and "alloc_attempts E pd len n rs w = Some (Ok (Inr rs'), w')"
  shows "\<exists>new. rs' = rs @ new \<and> length new \<le> n \<and> (0 < n \<longrightarrow> new \<noteq> []) \<and>
     live_mrs (trace w') = live_mrs (trace w) + mset new \<and>
     live_maps (trace w') = live_maps (trace w) + image_mset footprint (mset new) \<and>
     bgvrnic_device w' = bgvrnic_device w \<and> (\<forall>mr \<in> set new. mr_length mr = len) \<and>
     (\<not> bgvrnic_device w \<longrightarrow> length new \<le> 1)"
  using assms(2)
proof (induction n arbitrary: rs w)
  case 0
  then show ?case by simp
next
  case (Suc n)
  let ?w1 = "w\<lparr>trace := (Mem (Mmap len), R_ptr (ptr_of E (trace w) (Mem (Mmap len)))) # trace w\<rparr>"
  from Suc.prems obtain b mr where b: "b = ptr_of E (trace w) (Mem (Mmap len))" "b \<noteq> MAP_FAILED"
    and mr: "mr_of E (trace ?w1) (Mem (Ibv_reg_mr pd b len)) = Some mr"
    by (auto simp: run_simps split: if_splits option.splits)
  let ?w2 = "?w1\<lparr>trace := (Mem (Ibv_reg_mr pd b len), R_mr (Some mr)) # trace ?w1\<rparr>"
  from assms(1) mr have fp: "footprint mr = (b, len)" by (auto simp: honest_reg_def)
  show ?case
  proof (cases "bgvrnic_device w \<and> 1 < mr_frags mr \<and> 0 < n")
    case True
    with Suc.prems b mr
    have "alloc_attempts E pd len n (rs @ [mr]) ?w2 = Some (Ok (Inr rs'), w')"
      by (simp add: run_simps)
    from Suc.IH [OF this] obtain new where new: "rs' = (rs @ [mr]) @ new" "length new \<le> n"
      "live_mrs (trace w') = live_mrs (trace ?w2) + mset new"
      "live_maps (trace w') = live_maps (trace ?w2) + image_mset footprint (mset new)"
      "bgvrnic_device w' = bgvrnic_device ?w2" "\<forall>mr \<in> set new. mr_length mr = len" by blast
    with b fp True show ?thesis by (intro exI [of _ "mr # new"]) auto
  next
    case False
    with Suc.prems b mr have "rs' = rs @ [mr]" and "w' = ?w2"
      by (auto simp: run_simps)
    with b fp show ?thesis by (intro exI [of _ "[mr]"]) auto
  qed
qed

text \<open>The regions \<open>release_others\<close> visits, and what it gives back.\<close>

fun others :: "nat \<Rightarrow> nat \<Rightarrow> ibv_mr list \<Rightarrow> ibv_mr list" where
  "others best index [] = []"
| "others best index (mr # mrs) =
     (if index \<noteq> best then mr # others best (Suc index) mrs else others best (Suc index) mrs)"

lemma others_all: "best < index \<Longrightarrow> others best index mrs = mrs"
  by (induction mrs arbitrary: index) auto

lemma mset_others:
  "index \<le> best \<Longrightarrow> best < index + length mrs \<Longrightarrow>
   mset mrs = add_mset (mrs ! (best - index)) (mset (others best index mrs))"
proof (induction mrs arbitrary: index)
  case Nil
  then show ?case by simp
next
  case (Cons mr mrs)
  show ?case
  proof (cases "index = best")
    case True
    then show ?thesis by (simp add: others_all)
  next
    case False
    with Cons.prems Cons.IH [of "Suc index"] show ?thesis
      by (auto simp: nth_Cons' )
  qed
qed

lemma release_others_owns:
  assumes "dereg_ok E"
  shows "\<exists>w'. release_others E best index mrs w = Some (Ok (), w') \<and>
     live_mrs (trace w') = live_mrs (trace w) - mset (others best index mrs) \<and>
     live_maps (trace w') = live_maps (trace w) - image_mset footprint (mset (others best index mrs)) \<and>
     bgvrnic_device w' = bgvrnic_device w"
proof (induction mrs arbitrary: index w)
  case Nil
  then show ?case by simp
next
  case (Cons mr mrs)
  show ?case
  proof (cases "index = best")
    case True
    with Cons show ?thesis by (simp add: run_simps)
  next
    case False
    define w1 where "w1 = snd (the (drop_region E mr w))"
    have run: "drop_region E mr w = Some (Ok (), w1)"
      by (simp add: w1_def drop_region_def run_simps)
    have own: "live_mrs (trace w1) = live_mrs (trace w) - {#mr#}"
        "live_maps (trace w1) = live_maps (trace w) - {#footprint mr#}"
        "bgvrnic_device w1 = bgvrnic_device w"
      using assms by (simp_all add: w1_def drop_region_def run_simps dereg_ok_def)
    obtain w' where "release_others E best (Suc index) mrs w1 = Some (Ok (), w')"
      "live_mrs (trace w') = live_mrs (trace w1) - mset (others best (Suc index) mrs)"
      "live_maps (trace w') =
         live_maps (trace w1) - image_mset footprint (mset (others best (Suc index) mrs))"
      "bgvrnic_device w' = bgvrnic_device w1"
      using Cons.IH [of "Suc index" w1] by blast
    with False run own show ?thesis by simp
  qed
qed

section \<open>The best region\<close>

lemma best_region_scan:
  "best_region mrs index (b, m) = (b', m') \<Longrightarrow>
   (\<forall>mr \<in> set mrs. m' \<le> mr_frags mr) \<and> m' \<le> m \<and>
   ((b', m') = (b, m) \<or>
    (index \<le> b' \<and> b' < index + length mrs \<and> mr_frags (mrs ! (b' - index)) = m' \<and> m' < m))"
proof (induction mrs arbitrary: index b m)
  case Nil
  then show ?case by simp
next
  case (Cons mr mrs)
  show ?case
  proof (cases "mr_frags mr < m")
    case True
    with Cons.prems Cons.IH [of "Suc index" index "mr_frags mr"] show ?thesis
      by (auto simp: nth_Cons')
  next
    case False
    with Cons.prems Cons.IH [of "Suc index" b m] show ?thesis
      by (auto simp: nth_Cons')
  qed
qed

lemma bestRegion_less: "mrs \<noteq> [] \<Longrightarrow> bestRegion mrs < length mrs"
proof -
  assume "mrs \<noteq> []"
  obtain b m where "best_region mrs 0 (0, 100) = (b, m)" by fastforce
  from best_region_scan [OF this] \<open>mrs \<noteq> []\<close> show ?thesis
    by (auto simp: bestRegion_def \<open>best_region mrs 0 (0, 100) = (b, m)\<close>)
qed

section \<open>What the operations guarantee\<close>

lemma ENOMEM_nonzero [simp]: "ENOMEM \<noteq> 0" "EINVAL \<noteq> 0"
  by (simp_all add: errno_defs)

lemma alloc_attempts_err:
  "errno_set E \<Longrightarrow> alloc_attempts E pd len n rs w = Some (Ok (Inl err), w') \<Longrightarrow> err \<noteq> 0"
  by (induction n arbitrary: rs w)
     (auto simp: run_simps errno_set_def split: if_splits option.splits)

fun mmap_count :: "trace \<Rightarrow> nat" where
  "mmap_count [] = 0"
| "mmap_count ((Mem (Mmap l), r) # t) = Suc (mmap_count t)"
| "mmap_count (_ # t) = mmap_count t"

lemma alloc_attempts_total:
  "\<exists>res w'. alloc_attempts E pd len n rs w = Some (Ok res, w') \<and>
     mmap_count (trace w') \<le> mmap_count (trace w) + n"
proof (induction n arbitrary: rs w)
  case 0
  then show ?case by simp
next
  case (Suc n)
  let ?b = "ptr_of E (trace w) (Mem (Mmap len))"
  let ?w1 = "w\<lparr>trace := (Mem (Mmap len), R_ptr ?b) # trace w\<rparr>"
  let ?m = "mr_of E (trace ?w1) (Mem (Ibv_reg_mr pd ?b len))"
  let ?w2 = "?w1\<lparr>trace := (Mem (Ibv_reg_mr pd ?b len), R_mr ?m) # trace ?w1\<rparr>"
  show ?case
  proof (cases "?b = MAP_FAILED \<or> ?m = None \<or>
      \<not> (bgvrnic_device w \<and> 1 < mr_frags (the ?m) \<and> 0 < n)")
    case True
    then show ?thesis by (auto simp: run_simps split: option.splits)
  next
    case False
    then obtain mr where mr: "?m = Some mr" by auto
    from Suc.IH [of "rs @ [mr]" ?w2] obtain res w' where
      "alloc_attempts E pd len n (rs @ [mr]) ?w2 = Some (Ok res, w')"
      "mmap_count (trace w') \<le> mmap_count (trace ?w2) + n" by blast
    with False mr show ?thesis by (auto simp: run_simps)
  qed
qed

lemma release_others_mmaps:
  "\<exists>w'. release_others E best index mrs w = Some (Ok (), w') \<and>
     mmap_count (trace w') = mmap_count (trace w)"
proof (induction mrs arbitrary: index w)
  case Nil
  then show ?case by simp
next
  case (Cons mr mrs)
  show ?case
  proof (cases "index = best")
    case True
    with Cons show ?thesis by (simp add: run_simps)
  next
    case False
    define w1 where "w1 = snd (the (drop_region E mr w))"
    have run: "drop_region E mr w = Some (Ok (), w1)"
        "mmap_count (trace w1) = mmap_count (trace w)"
      by (simp_all add: w1_def drop_region_def run_simps)
    with Cons.IH [of "Suc index" w1] False show ?thesis by auto
  qed
qed

lemma allocate_total: "\<exists>res r' w'. allocate E pd len (r, w) = Some (Ok res, (r', w'))"
proof -
  obtain res w1 where run: "alloc_attempts E pd len MaxAllocateAttempts [] w = Some (Ok res, w1)"
    using alloc_attempts_total by blast
  show ?thesis
  proof (cases res)
    case (Inl err)
    with run show ?thesis by (simp add: allocate_def run_simps)
  next
    case (Inr rs)
    obtain w2 where "release_others E (bestRegion rs) 0 rs w1 = Some (Ok (), w2)"
      using release_others_mmaps by blast
    with run Inr show ?thesis by (simp add: allocate_def run_simps Let_def)
  qed
qed

text \<open>\<open>allocate\<close> always returns: it throws nothing, does not fault, and maps at most
  \<open>MaxAllocateAttempts\<close> buffers, whatever the device and the kernel answer.\<close>

theorem allocate_returns:
  "\<exists>res r' w'. allocate E pd len (r, w) = Some (Ok res, (r', w')) \<and>
     mmap_count (trace w') \<le> mmap_count (trace w) + 16"
proof -
  obtain res w1 where run: "alloc_attempts E pd len MaxAllocateAttempts [] w = Some (Ok res, w1)"
    and cnt: "mmap_count (trace w1) \<le> mmap_count (trace w) + 16"
    using alloc_attempts_total [of E pd len MaxAllocateAttempts "[]" w]
    by (auto simp: MaxAllocateAttempts_def)
  show ?thesis
  proof (cases res)
    case (Inl err)
    with run cnt show ?thesis by (simp add: allocate_def run_simps)
  next
    case (Inr rs)
    obtain w2 where "release_others E (bestRegion rs) 0 rs w1 = Some (Ok (), w2)"
        "mmap_count (trace w2) = mmap_count (trace w1)"
      using release_others_mmaps by blast
    with run cnt Inr show ?thesis by (simp add: allocate_def run_simps Let_def)
  qed
qed

text \<open>What a successful \<open>allocate\<close> leaves, before the trace is looked at.\<close>

lemma allocate_Ok0:
  assumes "errno_set E" and "allocate E pd len (r, w) = Some (Ok 0, (r', w'))"
  obtains rs w1 where "alloc_attempts E pd len MaxAllocateAttempts [] w = Some (Ok (Inr rs), w1)"
    and "\<not> (bgvrnic_device w1 \<and> 1 < length rs) \<Longrightarrow> w' = w1 \<and> region r' = Some (rs ! 0)"
    and "bgvrnic_device w1 \<and> 1 < length rs \<Longrightarrow>
      release_others E (bestRegion rs) 0 rs w1 = Some (Ok (), w') \<and>
      region r' = Some (rs ! bestRegion rs)"
    and "flags r' = flags r" and "messageLength r' = messageLength r"
proof -
  obtain res w1 where run: "alloc_attempts E pd len MaxAllocateAttempts [] w = Some (Ok res, w1)"
    using alloc_attempts_total by blast
  with assms have "\<exists>rs. res = Inr rs"
    by (cases res) (auto simp: allocate_def run_simps dest: alloc_attempts_err)
  then obtain rs where rs: "res = Inr rs" ..
  obtain w2 where "release_others E (bestRegion rs) 0 rs w1 = Some (Ok (), w2)"
    using release_others_mmaps by blast
  with assms(2) run rs that [of rs w1] show thesis
    by (auto simp: allocate_def run_simps Let_def split: if_splits)
qed

lemma allocate_owns_one':
  assumes "honest_reg E" and "dereg_ok E" and "errno_set E"
    and "allocate E pd len (r, w) = Some (Ok 0, (r', w'))"
  shows "\<exists>mr. region r' = Some mr \<and> mr_length mr = len \<and>
     live_mrs (trace w') = add_mset mr (live_mrs (trace w)) \<and>
     live_maps (trace w') = add_mset (mr_addr mr, len) (live_maps (trace w))"
proof -
  obtain rs w1 where
    att: "alloc_attempts E pd len MaxAllocateAttempts [] w = Some (Ok (Inr rs), w1)"
    and one: "\<not> (bgvrnic_device w1 \<and> 1 < length rs) \<Longrightarrow> w' = w1 \<and> region r' = Some (rs ! 0)"
    and many: "bgvrnic_device w1 \<and> 1 < length rs \<Longrightarrow>
      release_others E (bestRegion rs) 0 rs w1 = Some (Ok (), w') \<and>
      region r' = Some (rs ! bestRegion rs)"
    by (rule allocate_Ok0 [OF assms(3,4)]) iprover
  from alloc_attempts_owns [OF assms(1) att]
  have rs: "rs \<noteq> []" "live_mrs (trace w1) = live_mrs (trace w) + mset rs"
    "live_maps (trace w1) = live_maps (trace w) + image_mset footprint (mset rs)"
    and lens: "\<forall>mr \<in> set rs. mr_length mr = len"
    and single: "\<not> bgvrnic_device w1 \<Longrightarrow> length rs \<le> 1"
    by (auto simp: MaxAllocateAttempts_def)
  show ?thesis
  proof (cases "bgvrnic_device w1 \<and> 1 < length rs")
    case True
    let ?b = "bestRegion rs"
    have b: "?b < length rs" using rs(1) by (rule bestRegion_less)
    have m: "mset rs = add_mset (rs ! ?b) (mset (others ?b 0 rs))"
      using mset_others [of 0 ?b rs] b by simp
    obtain w2 where "release_others E ?b 0 rs w1 = Some (Ok (), w2)"
      "live_mrs (trace w2) = live_mrs (trace w1) - mset (others ?b 0 rs)"
      "live_maps (trace w2) = live_maps (trace w1) - image_mset footprint (mset (others ?b 0 rs))"
      using release_others_owns [OF assms(2)] by blast
    with many [OF True] rs m b lens show ?thesis by simp
  next
    case False
    with single have "length rs \<le> 1" by auto
    with rs(1) obtain mr where "rs = [mr]" by (cases rs) auto
    with one [OF False] rs lens show ?thesis by simp
  qed
qed

text \<open>
  The environment in which memory does not run out: registration succeeds, and \<open>mmap\<close>
  succeeds as long as fewer than \<open>k\<close> buffers are mapped.  It never returns a buffer that
  is still mapped.
\<close>

definition fresh_mmap :: "env \<Rightarrow> nat \<Rightarrow> bool" where
  "fresh_mmap E k \<longleftrightarrow> (\<forall>t l. size (live_maps t) < k \<longrightarrow>
     ptr_of E t (Mem (Mmap l)) \<notin> fst ` set_mset (live_maps t))"

definition ample_mem :: "env \<Rightarrow> nat \<Rightarrow> bool" where
  "ample_mem E k \<longleftrightarrow> (\<forall>t l. size (live_maps t) < k \<longrightarrow> ptr_of E t (Mem (Mmap l)) \<noteq> MAP_FAILED)"

definition reg_ok :: "env \<Rightarrow> bool" where
  "reg_ok E \<longleftrightarrow> (\<forall>t pd a l. mr_of E t (Mem (Ibv_reg_mr pd a l)) \<noteq> None)"

definition good_env :: "env \<Rightarrow> nat \<Rightarrow> bool" where
  "good_env E k \<longleftrightarrow> honest_reg E \<and> dereg_ok E \<and> errno_set E \<and> fresh_mmap E k \<and> ample_mem E k \<and>
     reg_ok E \<and> \<not> logging E"

text \<open>A device that takes registrations back, and no debug messages.\<close>

definition giving_env :: "env \<Rightarrow> bool" where
  "giving_env E \<longleftrightarrow> dereg_ok E \<and> \<not> logging E"

lemma good_giving: "good_env E k \<Longrightarrow> giving_env E"
  by (simp add: good_env_def giving_env_def)

lemma alloc_attempts_good:
  assumes "good_env E k" and "0 < n" and "size (live_maps (trace w)) + n \<le> k"
  shows "\<exists>new w'. alloc_attempts E pd len n rs w = Some (Ok (Inr (rs @ new)), w') \<and> new \<noteq> [] \<and>
    (\<forall>mr \<in> set new. mr_addr mr \<notin> fst ` set_mset (live_maps (trace w)))"
  using assms(2,3)
proof (induction n arbitrary: rs w)
  case 0
  then show ?case by simp
next
  case (Suc n)
  let ?b = "ptr_of E (trace w) (Mem (Mmap len))"
  let ?w1 = "w\<lparr>trace := (Mem (Mmap len), R_ptr ?b) # trace w\<rparr>"
  from Suc.prems(2) have "size (live_maps (trace w)) < k" by linarith
  with assms(1) have b: "?b \<noteq> MAP_FAILED" "?b \<notin> fst ` set_mset (live_maps (trace w))"
    by (simp_all add: good_env_def ample_mem_def fresh_mmap_def)
  from assms(1) obtain mr where mr: "mr_of E (trace ?w1) (Mem (Ibv_reg_mr pd ?b len)) = Some mr"
    unfolding good_env_def reg_ok_def by blast
  from assms(1) mr have a: "mr_addr mr = ?b" by (auto simp: good_env_def honest_reg_def)
  let ?w2 = "?w1\<lparr>trace := (Mem (Ibv_reg_mr pd ?b len), R_mr (Some mr)) # trace ?w1\<rparr>"
  show ?case
  proof (cases "bgvrnic_device w \<and> 1 < mr_frags mr \<and> 0 < n")
    case True
    with Suc.prems b(1) have "size (live_maps (trace ?w2)) + n \<le> k" by simp
    from Suc.IH [OF _ this, of "rs @ [mr]"] True obtain new w' where
      new: "alloc_attempts E pd len n (rs @ [mr]) ?w2 = Some (Ok (Inr ((rs @ [mr]) @ new)), w')"
      "\<forall>mr \<in> set new. mr_addr mr \<notin> fst ` set_mset (live_maps (trace ?w2))" by blast
    with True b mr a show ?thesis by (intro exI [of _ "mr # new"] exI [of _ w']) (auto simp: run_simps)
  next
    case False
    with b mr a show ?thesis by (intro exI [of _ "[mr]"] exI [of _ ?w2]) (auto simp: run_simps)
  qed
qed

lemma allocate_good:
  assumes "good_env E k" and "size (live_maps (trace w)) + 16 \<le> k"
  shows "\<exists>r' w' mr. allocate E pd len (r, w) = Some (Ok 0, (r', w')) \<and> region r' = Some mr \<and>
    mr_length mr = len \<and> flags r' = flags r \<and>
    live_mrs (trace w') = add_mset mr (live_mrs (trace w)) \<and>
    live_maps (trace w') = add_mset (mr_addr mr, len) (live_maps (trace w)) \<and>
    mr_addr mr \<notin> fst ` set_mset (live_maps (trace w))"
proof -
  from assms obtain rs w1 where
    att: "alloc_attempts E pd len MaxAllocateAttempts [] w = Some (Ok (Inr rs), w1)"
    and ne: "rs \<noteq> []" and fr: "\<forall>mr \<in> set rs. mr_addr mr \<notin> fst ` set_mset (live_maps (trace w))"
    using alloc_attempts_good [of E k MaxAllocateAttempts w pd len "[]"]
    by (auto simp: MaxAllocateAttempts_def)
  obtain w2 where "release_others E (bestRegion rs) 0 rs w1 = Some (Ok (), w2)"
    using release_others_mmaps by blast
  with att have "\<exists>r' w'. allocate E pd len (r, w) = Some (Ok 0, (r', w'))"
    by (simp add: allocate_def run_simps Let_def)
  then obtain r' w' where al: "allocate E pd len (r, w) = Some (Ok 0, (r', w'))" by blast
  from assms(1) have hyps: "honest_reg E" "dereg_ok E" "errno_set E" by (auto simp: good_env_def)
  obtain rs' w1' where
    att': "alloc_attempts E pd len MaxAllocateAttempts [] w = Some (Ok (Inr rs'), w1')"
    and one: "\<not> (bgvrnic_device w1' \<and> 1 < length rs') \<Longrightarrow> w' = w1' \<and> region r' = Some (rs' ! 0)"
    and many: "bgvrnic_device w1' \<and> 1 < length rs' \<Longrightarrow>
      release_others E (bestRegion rs') 0 rs' w1' = Some (Ok (), w') \<and>
      region r' = Some (rs' ! bestRegion rs')"
    and fl: "flags r' = flags r"
    by (rule allocate_Ok0 [OF hyps(3) al]) iprover
  from att att' have "rs' = rs" by simp
  with one many ne bestRegion_less [OF ne] have "\<exists>mr \<in> set rs. region r' = Some mr"
    by (metis length_greater_0_conv nth_mem)
  with allocate_owns_one' [OF hyps al] fr al fl show ?thesis by fastforce
qed

text \<open>A concrete environment of this kind: 200 addresses, the first free one is mapped.\<close>

definition first_free :: "trace \<Rightarrow> u64" where
  "first_free t = (case find (\<lambda>a. a \<notin> fst ` set_mset (live_maps t)) (map of_nat [1..<201]) of
     None \<Rightarrow> MAP_FAILED | Some a \<Rightarrow> a)"

definition env_fresh :: env where
  "env_fresh = env_ok\<lparr>ptr_of := (\<lambda>t c. first_free t)\<rparr>"

lemma env_fresh_simps [simp]:
  "logging env_fresh = False" "ndebug env_fresh = False" "rc_of env_fresh t c = 0"
  "ptr_of env_fresh t c = first_free t" "errno_of env_fresh t = 5"
  "mr_of env_fresh t c = mr_of env_ok t c"
  by (simp_all add: env_fresh_def)

lemma find_None_set: "find P xs = None \<longleftrightarrow> (\<forall>x \<in> set xs. \<not> P x)"
  by (induction xs) auto

lemma find_Some_prop: "find P xs = Some x \<Longrightarrow> P x \<and> x \<in> set xs"
  by (induction xs) (auto split: if_splits)

lemma first_free_fresh: "first_free t = MAP_FAILED \<or> first_free t \<notin> fst ` set_mset (live_maps t)"
  by (auto simp: first_free_def dest: find_Some_prop split: option.splits)

lemma card_set_mset_le: "card (set_mset M) \<le> size M"
  by (induction M) (auto simp: card_insert_if)

lemma first_free_ample: "size (live_maps t) < 200 \<Longrightarrow> first_free t \<noteq> MAP_FAILED"
proof -
  assume lt: "size (live_maps t) < 200"
  let ?A = "map of_nat [1..<201] :: u64 list"
  have inj: "inj_on (of_nat :: nat \<Rightarrow> u64) {1..<201}"
    by (rule inj_onI) (simp add: word_of_nat_eq_iff take_bit_nat_eq_self)
  have card: "card (set ?A) = 200"
    by (simp only: set_map set_upt card_image [OF inj] card_atLeastLessThan)
  have "card (fst ` set_mset (live_maps t)) \<le> size (live_maps t)"
    by (rule le_trans [OF card_image_le [OF finite_set_mset] card_set_mset_le])
  then have "card (fst ` set_mset (live_maps t)) < card (set ?A)"
    unfolding card using lt by (rule le_less_trans)
  then have "\<not> set ?A \<subseteq> fst ` set_mset (live_maps t)"
    by (meson card_mono finite_imageI finite_set_mset not_le)
  then have "find (\<lambda>a. a \<notin> fst ` set_mset (live_maps t)) ?A \<noteq> None"
    unfolding find_None_set by blast
  then obtain a where a: "find (\<lambda>a. a \<notin> fst ` set_mset (live_maps t)) ?A = Some a"
    by blast
  from find_Some_prop [OF a] obtain i where "a = of_nat i" "i < 201"
    by (simp only: set_map set_upt) auto
  then have "unat a < 201" by (simp add: unsigned_of_nat take_bit_nat_eq_self)
  moreover have "unat MAP_FAILED = 18446744073709551615"
    by (simp add: MAP_FAILED_def unsigned_minus_1_eq_mask mask_eq_exp_minus_1)
  ultimately have "a \<noteq> MAP_FAILED" by auto
  then show ?thesis unfolding first_free_def a option.case .
qed

lemma env_fresh_good: "good_env env_fresh 200"
proof -
  have "first_free t \<notin> fst ` set_mset (live_maps t)" if "size (live_maps t) < 200" for t
    using first_free_fresh [of t] first_free_ample [OF that] by blast
  then show ?thesis using first_free_ample
    by (simp add: good_env_def honest_reg_def dereg_ok_def errno_set_def fresh_mmap_def ample_mem_def reg_ok_def)
qed

text \<open>C18: a successful \<open>allocate\<close> owns exactly one more registration and one more mapping
  than before, those of the region it returns: however many attempts the Blue Gene
  device took, every other one was deregistered and unmapped.\<close>

theorem allocate_owns_one:
  assumes "honest_reg E" and "dereg_ok E" and "errno_set E"
    and "allocate E pd len (r, w) = Some (Ok 0, (r', w'))"
  shows "\<exists>mr. region r' = Some mr \<and> mr_length mr = len \<and>
     live_mrs (trace w') = add_mset mr (live_mrs (trace w)) \<and>
     live_maps (trace w') = add_mset (mr_addr mr, len) (live_maps (trace w))"
  using assms by (rule allocate_owns_one')

theorem allocate_owns_one_witness:
  "\<exists>r' w' mr. allocate env_ok 1 4096 (empty_region, init_world) = Some (Ok 0, (r', w')) \<and>
     region r' = Some mr \<and> live_mrs (trace w') = {#mr#}"
proof -
  define out where "out = allocate env_ok 1 4096 (empty_region, init_world)"
  have "\<exists>r' w'. out = Some (Ok 0, (r', w'))"
    by (simp add: out_def allocate_def alloc_attempts_first run_simps MAP_FAILED_def)
  then obtain r' w' where out: "out = Some (Ok 0, (r', w'))" by blast
  from allocate_owns_one [OF honest_reg_ok dereg_ok_ok errno_set_ok out [unfolded out_def]] out
  show ?thesis by (auto simp: out_def init_world_def)
qed

text \<open>Among the attempts of the Blue Gene device the scan picks one with the fewest
  fragments, provided some attempt had fewer than 100.\<close>

theorem bestRegion_fewest:
  assumes "mr \<in> set mrs" and "mr_frags mr < 100"
  shows "bestRegion mrs < length mrs \<and>
    (\<forall>m \<in> set mrs. mr_frags (mrs ! bestRegion mrs) \<le> mr_frags m)"
proof -
  obtain b m where bm: "best_region mrs 0 (0, 100) = (b, m)" by fastforce
  from best_region_scan [OF bm] assms show ?thesis
    by (auto simp: bestRegion_def bm)
qed

definition frag_mr :: "u32 \<Rightarrow> ibv_mr" where
  "frag_mr n = \<lparr>mr_addr = 0, mr_length = 0, mr_lkey = 0, mr_rkey = 0, mr_frags = n\<rparr>"

theorem bestRegion_fewest_witness:
  "bestRegion [frag_mr 9, frag_mr 3, frag_mr 5] < 3 \<and>
   mr_frags ([frag_mr 9, frag_mr 3, frag_mr 5] ! bestRegion [frag_mr 9, frag_mr 3, frag_mr 5]) \<le> 3"
  using bestRegion_fewest [of "frag_mr 3" "[frag_mr 9, frag_mr 3, frag_mr 5]"]
  by (simp add: frag_mr_def)

text \<open>From 100 fragments on the scan sees no difference and keeps the first region.\<close>

lemma bestRegion_cap: "bestRegion [frag_mr 150, frag_mr 120] = 0"
  by (simp add: bestRegion_def frag_mr_def)

text \<open>\<open>allocate64kB\<close> balances its resources on every path: it returns 0 and owns one
  registration and one mapping of 64 kB more, or it returns an error and owns what it
  owned before.\<close>

theorem allocate64kB_balanced:
  assumes "honest_reg E" and "errno_set E"
  shows "\<exists>res r' w'. allocate64kB E pd (r, w) = Some (Ok res, (r', w')) \<and>
    (if res = 0
     then \<exists>mr. region r' = Some mr \<and>
       live_mrs (trace w') = add_mset mr (live_mrs (trace w)) \<and>
       live_maps (trace w') = add_mset (mr_addr mr, 65536) (live_maps (trace w))
     else live_mrs (trace w') = live_mrs (trace w) \<and>
       live_maps (trace w') = live_maps (trace w))"
proof -
  let ?b = "ptr_of E (trace w) (Mem (Mmap 65536))"
  let ?m = "mr_of E ((Mem (Mmap 65536), R_ptr ?b) # trace w) (Mem (Ibv_reg_mr pd ?b 65536))"
  show ?thesis
  proof (cases "?m")
    case None
    with assms(2) show ?thesis
      by (simp add: allocate64kB_def run_simps Let_def errno_set_def)
  next
    case (Some mr)
    with assms(1) have "mr_addr mr = ?b" by (auto simp: honest_reg_def)
    with Some assms(2) show ?thesis
      by (simp add: allocate64kB_def run_simps Let_def errno_set_def)
  qed
qed

theorem allocate64kB_balanced_witness:
  "honest_reg env_ok \<and> errno_set env_ok \<and>
   (\<exists>res r' w'. allocate64kB env_ok 1 (empty_region, init_world) = Some (Ok res, (r', w')))"
  using allocate64kB_balanced [OF honest_reg_ok errno_set_ok, of 1 empty_region init_world]
  by auto

text \<open>When the registration fails, \<open>allocate\<close> returns \<open>ENOMEM\<close> with the buffer it has
  just mapped still mapped, and no field of the object refers to it: the buffer leaks.
  (\<open>allocate64kB\<close> unmaps it.)\<close>

theorem allocate_reg_failure_leaks:
  assumes "\<And>t c. mr_of E t c = None" and "\<And>t c. ptr_of E t c \<noteq> MAP_FAILED"
  shows "\<exists>w' b. allocate E pd len (r, w) = Some (Ok ENOMEM, (r, w')) \<and>
    live_maps (trace w') = add_mset (b, len) (live_maps (trace w))"
  using assms by (simp add: allocate_def alloc_attempts_first run_simps)

definition env_noreg :: env where
  "env_noreg = env_ok\<lparr>mr_of := (\<lambda>t c. None)\<rparr>"

theorem allocate_reg_failure_leaks_witness:
  "\<exists>w' b. allocate env_noreg 1 4096 (empty_region, init_world) = Some (Ok ENOMEM, (empty_region, w')) \<and>
    live_maps (trace w') = {#(b, 4096)#}"
  using allocate_reg_failure_leaks [of env_noreg 1 4096 empty_region init_world]
  by (simp add: env_noreg_def MAP_FAILED_def)

subsection \<open>Release\<close>

lemma release_empty [simp]:
  "region r = None \<Longrightarrow> \<not> logging E \<Longrightarrow> release E (r, w) = Some (Ok 0, (r, w))"
  by (simp add: release_def run_simps)

lemma release_gives_back':
  assumes "\<not> logging E" and "dereg_ok E" and "region r = Some mr"
  shows "\<exists>w'. release E (r, w) = Some (Ok 0, (r\<lparr>region := None\<rparr>, w')) \<and>
    live_mrs (trace w') = live_mrs (trace w) - {#mr#} \<and>
    live_maps (trace w') = live_maps (trace w) -
      (if isUserRegion r then {#} else {#(mr_addr mr, ucast (mr_length32 mr))#})"
  using assms
  by (simp add: release_def run_simps getAddress_def getLength_def through_region_def dereg_ok_def)

text \<open>Without logging, \<open>release\<close> deregisters the region, unmaps the buffer unless it is
  the user's, and forgets the region.  The buffer is unmapped under its length modulo
  2^32, because \<open>getLength\<close> returns 32 bits.\<close>

theorem release_gives_back:
  assumes "\<not> logging E" and "dereg_ok E" and "region r = Some mr"
  shows "\<exists>w'. release E (r, w) = Some (Ok 0, (r\<lparr>region := None\<rparr>, w')) \<and>
    live_mrs (trace w') = live_mrs (trace w) - {#mr#} \<and>
    live_maps (trace w') = live_maps (trace w) -
      (if isUserRegion r then {#} else {#(mr_addr mr, ucast (mr_length32 mr))#})"
  using assms by (rule release_gives_back')

definition mr_4k :: ibv_mr where
  "mr_4k = \<lparr>mr_addr = 4096, mr_length = 4096, mr_lkey = 7, mr_rkey = 8, mr_frags = 1\<rparr>"

theorem release_gives_back_witness:
  "\<exists>w'. release env_ok (empty_region\<lparr>region := Some mr_4k\<rparr>, init_world) =
     Some (Ok 0, (empty_region, w'))"
  using release_gives_back [of env_ok "empty_region\<lparr>region := Some mr_4k\<rparr>" mr_4k init_world]
  by (auto simp: empty_region_def)

text \<open>\<open>allocate\<close> followed by \<open>release\<close> gives every registration and mapping back, for
  buffers below 4 GiB.\<close>

theorem allocate_release_roundtrip:
  assumes "honest_reg E" and "dereg_ok E" and "errno_set E" and "\<not> logging E"
    and "\<not> isUserRegion r" and "unat len < 2 ^ 32"
    and "allocate E pd len (r, w) = Some (Ok 0, (r1, w1))"
  shows "\<exists>r2 w2. release E (r1, w1) = Some (Ok 0, (r2, w2)) \<and> \<not> isAllocated r2 \<and>
    live_mrs (trace w2) = live_mrs (trace w) \<and> live_maps (trace w2) = live_maps (trace w)"
proof -
  obtain mr where mr: "region r1 = Some mr" "mr_length mr = len"
      "live_mrs (trace w1) = add_mset mr (live_mrs (trace w))"
      "live_maps (trace w1) = add_mset (mr_addr mr, len) (live_maps (trace w))"
    using allocate_owns_one' [OF assms(1-3,7)] by blast
  have "\<not> isUserRegion r1"
    using allocate_Ok0 [OF assms(3,7)] assms(5) by (metis isUserRegion_def)
  moreover have "ucast (mr_length32 mr) = len"
    using mr(2) assms(6) by (simp add: mr_length32_def ucast_ucast_small)
  ultimately show ?thesis
    using release_gives_back' [OF assms(4,2) mr(1), of w1] mr by (auto simp: isAllocated_def)
qed

theorem allocate_release_roundtrip_witness:
  "\<exists>r1 w1 r2 w2. allocate env_ok 1 4096 (empty_region, init_world) = Some (Ok 0, (r1, w1)) \<and>
     release env_ok (r1, w1) = Some (Ok 0, (r2, w2)) \<and> live_maps (trace w2) = {#}"
proof -
  define out where "out = allocate env_ok 1 4096 (empty_region, init_world)"
  have "\<exists>r' w'. out = Some (Ok 0, (r', w'))"
    by (simp add: out_def allocate_def alloc_attempts_first run_simps MAP_FAILED_def)
  then obtain r' w' where out: "out = Some (Ok 0, (r', w'))" by blast
  have "\<not> logging env_ok" "\<not> isUserRegion empty_region" "unat (4096 :: u64) < 2 ^ 32"
    by (simp_all add: isUserRegion_def empty_region_def BLOCK_USER_def)
  from allocate_release_roundtrip [OF honest_reg_ok dereg_ok_ok errno_set_ok this
      out [unfolded out_def]] out
  show ?thesis by (auto simp: out_def)
qed

text \<open>In a build with logging \<open>release\<close> never gets past its messages: it reads the local
  key through a null pointer when there is no region, and from the registration it has
  just freed when there is one.\<close>

theorem release_logging_faults:
  assumes "logging E" and "dereg_ok E"
  shows "\<exists>w'. release E (r, w) =
    Some (Fault (if isAllocated r then UseAfterFree else NullDeref), (r, w'))"
  using assms
  by (cases "region r")
     (simp_all add: release_def run_simps getLocalKey_def getAddress_def getLength_def
       through_region_def dereg_ok_def isAllocated_def)

definition env_log :: env where
  "env_log = env_ok\<lparr>logging := True\<rparr>"

lemma env_log_simps [simp]:
  "logging env_log" "ndebug env_log = False" "rc_of env_log t c = 0" "ptr_of env_log t c = 4096"
  by (simp_all add: env_log_def)

theorem release_logging_faults_witness:
  "\<exists>w'. release env_log (empty_region, init_world) = Some (Fault NullDeref, (empty_region, w'))"
  using release_logging_faults [of env_log empty_region init_world]
  by (simp add: dereg_ok_def isAllocated_def empty_region_def)

text \<open>A region made from a buffer of the user registers the length modulo 2^32: a buffer
  of 4 GiB or more is registered short, and its message length is short as well.\<close>

theorem user_region_truncates:
  assumes "honest_reg E" and "user_region E pd buffer len w = Some (Ok r, w')"
    and "region r = Some mr"
  shows "isUserRegion r \<and> mr_addr mr = buffer \<and>
    unat (mr_length mr) = unat len mod 2 ^ 32 \<and> unat (messageLength r) = unat len mod 2 ^ 32"
proof -
  from assms(2,3) have r: "flags r = BLOCK_USER" "messageLength r = ucast len"
    and m: "mr_of E (trace w) (Mem (Ibv_reg_mr pd buffer (ucast (ucast len :: u32)))) = Some mr"
    by (auto simp: user_region_def run_simps Let_def)
  from assms(1) m have "mr_addr mr = buffer" "mr_length mr = ucast (ucast len :: u32)"
    by (auto simp: honest_reg_def)
  with r show ?thesis
    by (simp add: isUserRegion_def unsigned_ucast_eq unsigned_take_bit_eq take_bit_eq_mod unat_mod_distrib)
qed

theorem user_region_truncates_witness:
  "\<exists>r w' mr. user_region env_ok 1 4096 (2 ^ 32 + 5) init_world = Some (Ok r, w') \<and>
     region r = Some mr \<and> unat (mr_length mr) = 5"
proof -
  let ?u = "user_region env_ok 1 4096 (2 ^ 32 + 5) init_world"
  have "\<exists>r w' mr. ?u = Some (Ok r, w') \<and> region r = Some mr"
    by (simp add: user_region_def run_simps Let_def)
  then obtain r w' mr where u: "?u = Some (Ok r, w')" "region r = Some mr" by blast
  from user_region_truncates [OF honest_reg_ok u] u show ?thesis by auto
qed

end
