(* ===== verification/MemoryPool.thy ===== *)
theory MemoryPool
  imports MemoryRegion PoolContainer
begin

text \<open>
  \<open>RdmaMemoryPool\<close> (\<open>include/RdmaMemoryPool.h\<close>, \<open>src/RdmaMemoryPool.cpp\<close>): three
  containers of registered blocks of 4 kB, 16 kB and 1 MB, and temporary regions for
  longer requests.  The region objects live in a heap of their own; a pool refers to them
  by pointer.  The lemmas follow the pool through its life: the constructor, allocation
  and return, the change of the protection domain and the destructor.
\<close>

section \<open>The heap of region objects\<close>

record mworld = world +
  regions :: "mregion heap"

definition init_mworld :: mworld where
  "init_mworld = \<lparr>trace = [], bgvrnic_device = False, regions = []\<rparr>"

lemma init_mworld_simps [simp]: "trace init_mworld = []" "regions init_mworld = []"
    "bgvrnic_device init_mworld = False"
  by (simp_all add: init_mworld_def)

text \<open>\<open>new RdmaMemoryRegion()\<close> or \<open>std::make_shared<RdmaMemoryRegion>()\<close>.\<close>

definition new_region :: "mregion \<Rightarrow> ('a mworld_scheme, ptr) M" where
  "new_region ob = bindM getM (\<lambda>w.
     thenM (modifyM (\<lambda>w. w\<lparr>regions := heap_new ob (regions w)\<rparr>)) (returnM (Suc (length (regions w)))))"

abbreviation on_region :: "ptr \<Rightarrow> (mregion \<times> 'a mworld_scheme, 'b) M \<Rightarrow> ('a mworld_scheme, 'b) M" where
  "on_region \<equiv> on_heap regions regions_update"

text \<open>\<open>delete\<close>: the destructor calls \<open>release\<close>, whose result it ignores.\<close>

definition delete_region :: "env \<Rightarrow> ptr \<Rightarrow> ('a mworld_scheme, unit) M" where
  "delete_region E p =
     bindM (on_region p (release E)) (\<lambda>_. modifyM (\<lambda>w. w\<lparr>regions := heap_free p (regions w)\<rparr>))"

section \<open>The pool\<close>

datatype chunk = Small | Medium | Large

instantiation chunk :: linorder
begin

definition less_eq_chunk :: "chunk \<Rightarrow> chunk \<Rightarrow> bool" where
  "less_eq_chunk c d = (c = Small \<or> d = Large \<or> c = d)"

definition less_chunk :: "chunk \<Rightarrow> chunk \<Rightarrow> bool" where
  "less_chunk c d = (c \<le> d \<and> c \<noteq> d)"

instance
proof
  fix x y z :: chunk
  show "x < y \<longleftrightarrow> x \<le> y \<and> \<not> y \<le> x" "x \<le> x" "x \<le> y \<Longrightarrow> y \<le> z \<Longrightarrow> x \<le> z"
      "x \<le> y \<Longrightarrow> y \<le> x \<Longrightarrow> x = y" "x \<le> y \<or> y \<le> x"
    by (cases x; cases y; cases z; simp add: less_eq_chunk_def less_chunk_def)+
qed

end

text \<open>The chunk sizes and numbers of the default configuration.\<close>

fun size_of :: "chunk \<Rightarrow> u64" where
  "size_of Small = 0x1000"
| "size_of Medium = 0x4000"
| "size_of Large = 0x100000"

fun count_of :: "chunk \<Rightarrow> nat" where
  "count_of Small = 64"
| "count_of Medium = 16"
| "count_of Large = 4"

record memory_pool =
  pointer_map :: "u64 \<rightharpoonup> ptr"
  protection_domain :: u64
  isServer :: bool
  small :: pool_container
  medium :: pool_container
  large :: pool_container
  temp_regions :: u32

fun container :: "chunk \<Rightarrow> memory_pool \<Rightarrow> pool_container" where
  "container Small mp = small mp"
| "container Medium mp = medium mp"
| "container Large mp = large mp"

fun set_container :: "chunk \<Rightarrow> pool_container \<Rightarrow> memory_pool \<Rightarrow> memory_pool" where
  "set_container Small pc mp = mp\<lparr>small := pc\<rparr>"
| "set_container Medium pc mp = mp\<lparr>medium := pc\<rparr>"
| "set_container Large pc mp = mp\<lparr>large := pc\<rparr>"

definition on_chunk :: "chunk \<Rightarrow> (pool_container \<times> memory_pool \<times> 'w, 'a) M \<Rightarrow> (memory_pool \<times> 'w, 'a) M" where
  "on_chunk c = on_member (\<lambda>(mp, w). container c mp) (\<lambda>pc (mp, w). (set_container c pc mp, w))"

text \<open>
  The result of \<open>region->allocate\<close> is not looked at.  When the registration failed, the
  next statement reads the address through a null pointer.
\<close>

definition AllocateRegisteredBlock :: "env \<Rightarrow> u64 \<Rightarrow> (memory_pool \<times> 'a mworld_scheme, ptr) M" where
  "AllocateRegisteredBlock E len = bindM this_get (\<lambda>mp.
     bindM (on_world (new_region empty_region)) (\<lambda>region.
     bindM (on_world (on_region region (allocate E (protection_domain mp) len))) (\<lambda>_.
     bindM (on_world (on_region region getAddress)) (\<lambda>addr.
     thenM (this_mod (\<lambda>mp. mp\<lparr>pointer_map := (pointer_map mp)(addr \<mapsto> region)\<rparr>))
     (returnM region)))))"

text \<open>The message at the end reads the address of the region.\<close>

definition AllocateTemporaryBlock :: "env \<Rightarrow> u64 \<Rightarrow> (memory_pool \<times> 'a mworld_scheme, ptr) M" where
  "AllocateTemporaryBlock E len = bindM this_get (\<lambda>mp.
     bindM (on_world (new_region empty_region)) (\<lambda>region.
     thenM (on_world (on_region region (this_mod setTempRegion)))
    (bindM (on_world (on_region region (allocate E (protection_domain mp) len))) (\<lambda>_.
     thenM (this_mod (\<lambda>mp. mp\<lparr>temp_regions := temp_regions mp + 1\<rparr>))
    (thenM (whenM (logging E) (bindM (on_world (on_region region getAddress)) (\<lambda>_. returnM ())))
    (returnM region))))))"

text \<open>The arguments for the chunk size and the numbers of chunks are not used.\<close>

definition new_pool :: "u64 \<Rightarrow> memory_pool" where
  "new_pool pd = \<lparr>pointer_map = (\<lambda>_. None), protection_domain = pd, isServer = True,
     small = new_pool_container (size_of Small) (of_nat (count_of Small)),
     medium = new_pool_container (size_of Medium) (of_nat (count_of Medium)),
     large = new_pool_container (size_of Large) (of_nat (count_of Large)),
     temp_regions = 0\<rparr>"

definition allocate_pools :: "env \<Rightarrow> (memory_pool \<times> 'a mworld_scheme, unit) M" where
  "allocate_pools E =
     bindM (on_chunk Small (AllocatePool E (count_of Small) (AllocateRegisteredBlock E))) (\<lambda>_.
     bindM (on_chunk Medium (AllocatePool E (count_of Medium) (AllocateRegisteredBlock E))) (\<lambda>_.
     bindM (on_chunk Large (AllocatePool E (count_of Large) (AllocateRegisteredBlock E))) (\<lambda>_.
     returnM ())))"

definition RdmaMemoryPool ::
    "env \<Rightarrow> u64 \<Rightarrow> u64 \<Rightarrow> u64 \<Rightarrow> u64 \<Rightarrow> ('a mworld_scheme, memory_pool) M" where
  "RdmaMemoryPool E pd chunk_sz init_chunks maxchunks = construct (new_pool pd) (allocate_pools E)"

text \<open>\<open>ok && ...\<close> skips the calls after the first refusal.\<close>

definition DeallocateList :: "env \<Rightarrow> (memory_pool \<times> 'a mworld_scheme, int) M" where
  "DeallocateList E =
     (let dealloc = (\<lambda>c. on_chunk c (DeallocatePool (\<lambda>p. on_world (delete_region E p)))) in
     bindM (dealloc Small) (\<lambda>s. if s = 0 then returnM 0
     else bindM (dealloc Medium) (\<lambda>m. if m = 0 then returnM 0
     else bindM (dealloc Large) (\<lambda>l. returnM (if l = 0 then 0 else 1)))))"

definition setProtectionDomain :: "env \<Rightarrow> u64 \<Rightarrow> (memory_pool \<times> 'a mworld_scheme, unit) M" where
  "setProtectionDomain E pd =
     bindM (DeallocateList E) (\<lambda>_.
     thenM (this_mod (\<lambda>mp. mp\<lparr>protection_domain := pd\<rparr>)) (allocate_pools E))"

text \<open>
  \<open>~RdmaMemoryPool\<close>: after \<open>DeallocateList\<close> the containers are destroyed in reverse
  order, and with them the shared pointers to the regions in their block lists.
\<close>

definition destroy_pool :: "env \<Rightarrow> (memory_pool \<times> 'a mworld_scheme, unit) M" where
  "destroy_pool E =
     bindM (DeallocateList E) (\<lambda>_.
     bindM this_get (\<lambda>mp.
     thenM (iterM (\<lambda>p. on_world (delete_region E p)) (block_list (large mp)))
    (thenM (iterM (\<lambda>p. on_world (delete_region E p)) (block_list (medium mp)))
           (iterM (\<lambda>p. on_world (delete_region E p)) (block_list (small mp))))))"

definition canAllocateRegionUnsafe :: "u64 \<Rightarrow> memory_pool \<Rightarrow> bool" where
  "canAllocateRegionUnsafe len mp =
     (if len \<le> chunk_size (small mp) then free_list (small mp) \<noteq> []
      else if len \<le> chunk_size (medium mp) then free_list (medium mp) \<noteq> []
      else if len \<le> chunk_size (large mp) then free_list (large mp) \<noteq> []
      else True)"

definition allocateRegion :: "env \<Rightarrow> u64 \<Rightarrow> (memory_pool \<times> 'a mworld_scheme, ptr) M" where
  "allocateRegion E len = bindM this_get (\<lambda>mp.
     if len \<le> chunk_size (small mp) then on_chunk Small pop
     else if len \<le> chunk_size (medium mp) then on_chunk Medium pop
     else if len \<le> chunk_size (large mp) then on_chunk Large pop
     else AllocateTemporaryBlock E len)"

text \<open>\<open>char *allocate(size_t)\<close>.\<close>

definition allocate_address :: "env \<Rightarrow> u64 \<Rightarrow> (memory_pool \<times> 'a mworld_scheme, u64) M" where
  "allocate_address E len = bindM this_get (\<lambda>mp.
     if len > chunk_size (large mp) then faultM Terminated
     else bindM (allocateRegion E len) (\<lambda>region. on_world (on_region region getAddress)))"

text \<open>A region longer than every chunk that is neither temporary nor the user's is dropped.\<close>

definition deallocate :: "env \<Rightarrow> ptr \<Rightarrow> (memory_pool \<times> 'a mworld_scheme, unit) M" where
  "deallocate E p =
     bindM (on_world (on_region p this_get)) (\<lambda>r.
     if isTempRegion r \<or> isUserRegion r then
       thenM (whenM (isTempRegion r) (this_mod (\<lambda>mp. mp\<lparr>temp_regions := temp_regions mp - 1\<rparr>)))
             (on_world (delete_region E p))
     else bindM (on_world (on_region p getLength)) (\<lambda>len. bindM this_get (\<lambda>mp.
       if ucast len \<le> chunk_size (small mp) then on_chunk Small (push E p)
       else if ucast len \<le> chunk_size (medium mp) then on_chunk Medium (push E p)
       else if ucast len \<le> chunk_size (large mp) then on_chunk Large (push E p)
       else returnM ())))"

text \<open>\<open>pointer_map_[address]\<close> makes a null entry for an address it does not know.\<close>

definition RegionFromAddress :: "u64 \<Rightarrow> (memory_pool \<times> 'w, ptr) M" where
  "RegionFromAddress addr = bindM this_get (\<lambda>mp. case pointer_map mp addr of
       Some p \<Rightarrow> returnM p
     | None \<Rightarrow> thenM (this_mod (\<lambda>mp. mp\<lparr>pointer_map := (pointer_map mp)(addr \<mapsto> 0)\<rparr>)) (returnM 0))"

definition deallocate_address :: "env \<Rightarrow> u64 \<Rightarrow> (memory_pool \<times> 'a mworld_scheme, unit) M" where
  "deallocate_address E addr = bindM (RegionFromAddress addr) (deallocate E)"

section \<open>Basic facts\<close>

lemma size_of_less [simp]: "size_of c < size_of d \<longleftrightarrow> c < d"
  by (cases c; cases d) (simp_all add: less_chunk_def less_eq_chunk_def)

lemma size_of_eq [simp]: "size_of c = size_of d \<longleftrightarrow> c = d"
  by (cases c; cases d) simp_all

lemma container_set [simp]:
  "container c (set_container d pc mp) = (if c = d then pc else container c mp)"
  by (cases c; cases d) simp_all

lemma set_container_id [simp]: "set_container c (container c mp) mp = mp"
  by (cases c) simp_all

lemma set_container_twice [simp]: "set_container c pc (set_container c pc' mp) = set_container c pc mp"
  by (cases c) simp_all

lemma set_container_other [simp]:
  "pointer_map (set_container c pc mp) = pointer_map mp"
  "protection_domain (set_container c pc mp) = protection_domain mp"
  "temp_regions (set_container c pc mp) = temp_regions mp"
  by (cases c; simp)+

lemma container_pointer_map [simp]:
  "container c (mp\<lparr>pointer_map := f\<rparr>) = container c mp"
  "container c (mp\<lparr>protection_domain := pd\<rparr>) = container c mp"
  "container c (mp\<lparr>temp_regions := n\<rparr>) = container c mp"
  by (cases c; simp)+

lemma on_chunk_run [run_simps]:
  "on_chunk c m (mp, w) = (case m (container c mp, (mp, w)) of
       None \<Rightarrow> None
     | Some (r, (pc, (mp', w'))) \<Rightarrow> Some (r, (set_container c pc mp', w')))"
  by (simp add: on_chunk_def on_member_run split: option.split prod.split)

lemma new_region_run [simp, run_simps]:
  "new_region ob w = Some (Ok (Suc (length (regions w))), w\<lparr>regions := heap_new ob (regions w)\<rparr>)"
  by (simp add: new_region_def run_simps)

text \<open>The operations of a region keep the heap of regions.\<close>

lemma more_regions: "world.more w' = world.more w \<Longrightarrow> regions w' = regions (w :: 'a mworld_scheme)"
  by (cases w; cases w') simp

lemma allocate_regions:
  "allocate E pd len (r, w) = Some (res, (r', w')) \<Longrightarrow> regions w' = regions (w :: 'a mworld_scheme)"
  using allocate_frame more_regions by blast

lemma release_regions:
  "release E (r, w) = Some (res, (r', w')) \<Longrightarrow> regions w' = regions (w :: 'a mworld_scheme)"
  using release_frame more_regions by blast

section \<open>The invariant\<close>

text \<open>
  \<open>block_at n p\<close>: the pointer leads to a registered region of \<open>n\<close> bytes that is neither
  temporary nor the user's, and the pointer map finds it under its address.
\<close>

definition block_at :: "u64 \<Rightarrow> ptr \<Rightarrow> memory_pool \<Rightarrow> 'a mworld_scheme \<Rightarrow> bool" where
  "block_at n p mp w \<longleftrightarrow> (\<exists>ob mr. heap_get (regions w) p = Some ob \<and> region ob = Some mr \<and>
     flags ob = 0 \<and> mr_length mr = n \<and> pointer_map mp (mr_addr mr) = Some p)"

definition mp_inv :: "memory_pool \<times> 'a mworld_scheme \<Rightarrow> bool" where
  "mp_inv = (\<lambda>(mp, w). \<forall>c. pool_inv (container c mp) \<and> chunk_size (container c mp) = size_of c \<and>
     (\<forall>p \<in> set (block_list (container c mp)). block_at (size_of c) p mp w))"

lemma mp_invD:
  assumes "mp_inv (mp, w)"
  shows "pool_inv (container c mp)" "chunk_size (container c mp) = size_of c"
    "p \<in> set (block_list (container c mp)) \<Longrightarrow> block_at (size_of c) p mp w"
  using assms by (auto simp: mp_inv_def)

lemma free_in_blocks: "mp_inv (mp, w) \<Longrightarrow> p \<in> set (free_list (container c mp)) \<Longrightarrow> block_at (size_of c) p mp w"
  using mp_invD by (fastforce simp: pool_inv_def lists_ok_def)

text \<open>The containers by name.\<close>

lemma mp_inv_sizes:
  assumes "mp_inv (mp, w)"
  shows "chunk_size (small mp) = 0x1000" "chunk_size (medium mp) = 0x4000"
    "chunk_size (large mp) = 0x100000"
  using mp_invD(2) [OF assms, of Small] mp_invD(2) [OF assms, of Medium] mp_invD(2) [OF assms, of Large]
  by simp_all

text \<open>The chunk a request goes to: the smallest that is large enough.\<close>

definition chunk_for :: "u64 \<Rightarrow> chunk option" where
  "chunk_for n = (if n \<le> size_of Small then Some Small else if n \<le> size_of Medium then Some Medium
     else if n \<le> size_of Large then Some Large else None)"

lemma chunk_for_least:
  "chunk_for n = Some c \<longleftrightarrow> n \<le> size_of c \<and> (\<forall>d. n \<le> size_of d \<longrightarrow> c \<le> d)"
proof -
  have s: "size_of Small < size_of Medium" "size_of Medium < size_of Large"
    by (simp_all add: less_chunk_def less_eq_chunk_def)
  show ?thesis
    unfolding chunk_for_def less_eq_chunk_def
    using s by (cases c) (auto simp del: size_of.simps size_of_less intro: order_trans less_imp_le
      split: if_splits; metis chunk.distinct chunk.exhaust less_imp_le order_trans)+
qed

lemma chunk_for_None: "chunk_for n = None \<longleftrightarrow> size_of Large < n"
proof -
  have "size_of Small < size_of Large" "size_of Medium < size_of Large"
    by (simp_all add: less_chunk_def less_eq_chunk_def)
  then show ?thesis unfolding chunk_for_def
    by (auto simp del: size_of.simps size_of_less)
qed

lemma chunk_for_size [simp]: "chunk_for (size_of c) = Some c"
  by (cases c) (simp_all add: chunk_for_def)

lemma allocateRegion_chunk:
  assumes "mp_inv (mp, w)"
  shows "allocateRegion E n (mp, w) = (case chunk_for n of
      Some c \<Rightarrow> on_chunk c pop (mp, w) | None \<Rightarrow> AllocateTemporaryBlock E n (mp, w))"
  using mp_inv_sizes [OF assms] by (simp add: allocateRegion_def chunk_for_def run_simps)

lemma canAllocate_chunk:
  assumes "mp_inv (mp, w)"
  shows "canAllocateRegionUnsafe n mp = (case chunk_for n of
      Some c \<Rightarrow> free_list (container c mp) \<noteq> [] | None \<Rightarrow> True)"
  using mp_inv_sizes [OF assms] by (simp add: canAllocateRegionUnsafe_def chunk_for_def)

lemma not_temp_user [simp]: "flags r = 0 \<Longrightarrow> \<not> isTempRegion r" "flags r = 0 \<Longrightarrow> \<not> isUserRegion r"
  by (simp_all add: isTempRegion_def isUserRegion_def BLOCK_TEMP_def BLOCK_USER_def)

lemma deallocate_chunk:
  assumes "mp_inv (mp, w)" and "block_at (size_of c) p mp w"
  shows "deallocate E p (mp, w) = on_chunk c (push E p) (mp, w)"
proof -
  from assms(2) obtain ob mr where ob: "heap_get (regions w) p = Some ob" "region ob = Some mr"
    "flags ob = 0" "mr_length mr = size_of c" by (auto simp: block_at_def)
  then have "heap_put p ob (regions w) = regions w" by simp
  with ob have get: "on_region p this_get w = Some (Ok ob, w)"
      "on_region p getLength w = Some (Ok (mr_length32 mr), w)"
    by (simp_all add: on_heap_run getLength_def through_region_def run_simps)
  have "ucast (mr_length32 mr) = size_of c"
    unfolding mr_length32_def ob(4) by (rule ucast_ucast_small) (cases c; simp)
  with ob get mp_inv_sizes [OF assms(1)] show ?thesis
    by (cases c) (simp_all add: deallocate_def run_simps)
qed

section \<open>Making blocks\<close>

text \<open>
  \<open>tracked S\<close>: the blocks with their sizes in \<open>S\<close> are as \<open>block_at\<close> says, and their
  addresses are mapped; a buffer mapped later has another address.
\<close>

definition tracked :: "(ptr \<times> u64) set \<Rightarrow> memory_pool \<times> 'a mworld_scheme \<Rightarrow> bool" where
  "tracked S = (\<lambda>(mp, w). \<forall>(p, n) \<in> S. \<exists>ob mr. heap_get (regions w) p = Some ob \<and>
     region ob = Some mr \<and> flags ob = 0 \<and> mr_length mr = n \<and>
     pointer_map mp (mr_addr mr) = Some p \<and> mr_addr mr \<in> fst ` set_mset (live_maps (trace w)))"

lemma tracked_block_at: "tracked S (mp, w) \<Longrightarrow> (p, n) \<in> S \<Longrightarrow> block_at n p mp w"
  unfolding tracked_def block_at_def by fastforce

lemma tracked_empty [simp]: "tracked {} s"
  by (simp add: tracked_def split_def)

lemma tracked_pool [simp]:
  "tracked S (set_container c pc mp, w) = tracked S (mp, w)"
  "tracked S (mp\<lparr>protection_domain := pd\<rparr>, w) = tracked S (mp, w)"
  by (simp_all add: tracked_def)

text \<open>The mappings behind a list of blocks.\<close>

definition fp :: "'a mworld_scheme \<Rightarrow> ptr \<Rightarrow> (u64 \<times> u64) multiset" where
  "fp w p = (case heap_get (regions w) p of None \<Rightarrow> {#} | Some ob \<Rightarrow> (case region ob of
     None \<Rightarrow> {#} | Some mr \<Rightarrow> {#footprint mr#}))"

definition fps :: "'a mworld_scheme \<Rightarrow> ptr list \<Rightarrow> (u64 \<times> u64) multiset" where
  "fps w ps = sum_list (map (fp w) ps)"

text \<open>The registrations behind them.\<close>

definition mrp :: "'a mworld_scheme \<Rightarrow> ptr \<Rightarrow> ibv_mr multiset" where
  "mrp w p = (case heap_get (regions w) p of None \<Rightarrow> {#} | Some ob \<Rightarrow> (case region ob of
     None \<Rightarrow> {#} | Some mr \<Rightarrow> {#mr#}))"

definition mrps :: "'a mworld_scheme \<Rightarrow> ptr list \<Rightarrow> ibv_mr multiset" where
  "mrps w ps = sum_list (map (mrp w) ps)"

lemma mrps_simps [simp]: "mrps w [] = {#}" "mrps w (p # ps) = mrp w p + mrps w ps"
    "mrps w (ps @ qs) = mrps w ps + mrps w qs"
  by (simp_all add: mrps_def)

lemma mrp_cong: "heap_get (regions w) p = heap_get (regions w') p \<Longrightarrow> mrp w p = mrp w' p"
  by (simp add: mrp_def)

lemma mrps_cong:
  "(\<And>p. p \<in> set ps \<Longrightarrow> heap_get (regions w) p = heap_get (regions w') p) \<Longrightarrow> mrps w ps = mrps w' ps"
  unfolding mrps_def by (rule arg_cong [where f = sum_list], rule map_cong) (auto intro: mrp_cong)

lemma fps_simps [simp]: "fps w [] = {#}" "fps w (p # ps) = fp w p + fps w ps"
    "fps w (ps @ qs) = fps w ps + fps w qs"
  by (simp_all add: fps_def)

lemma fp_cong: "heap_get (regions w) p = heap_get (regions w') p \<Longrightarrow> fp w p = fp w' p"
  by (simp add: fp_def)

lemma fps_cong:
  "(\<And>p. p \<in> set ps \<Longrightarrow> heap_get (regions w) p = heap_get (regions w') p) \<Longrightarrow> fps w ps = fps w' ps"
  unfolding fps_def by (rule arg_cong [where f = sum_list], rule map_cong) (auto intro: fp_cong)

text \<open>One more registered block, at an address that was not mapped.\<close>

lemma tracked_insert:
  assumes "tracked S (mp, w)" and "heap_get (regions w) p = None"
    and "\<forall>q. heap_get (regions w') q = (if q = p then Some r else heap_get (regions w) q)"
    and "region r = Some mr" and "flags r = 0" and "mr_length mr = n"
    and "mr_addr mr \<notin> fst ` set_mset (live_maps (trace w))"
    and "live_maps (trace w') = add_mset (mr_addr mr, n) (live_maps (trace w))"
  shows "tracked (insert (p, n) S) (mp\<lparr>pointer_map := (pointer_map mp)(mr_addr mr \<mapsto> p)\<rparr>, w')"
  unfolding tracked_def prod.case
proof (intro ballI, clarify)
  fix q m assume q: "(q, m) \<in> insert (p, n) S"
  show "\<exists>ob mr'. heap_get (regions w') q = Some ob \<and> region ob = Some mr' \<and> flags ob = 0 \<and> mr_length mr' = m \<and>
      pointer_map (mp\<lparr>pointer_map := (pointer_map mp)(mr_addr mr \<mapsto> p)\<rparr>) (mr_addr mr') = Some q \<and>
      mr_addr mr' \<in> fst ` set_mset (live_maps (trace w'))"
  proof (cases "(q, m) = (p, n)")
    case True
    with assms(3-6,8) show ?thesis by simp
  next
    case False
    with q assms(1) obtain ob mr' where o: "heap_get (regions w) q = Some ob" "region ob = Some mr'"
      "flags ob = 0" "mr_length mr' = m" "pointer_map mp (mr_addr mr') = Some q"
      "mr_addr mr' \<in> fst ` set_mset (live_maps (trace w))"
      unfolding tracked_def by fastforce
    with assms(7) have "mr_addr mr' \<noteq> mr_addr mr" by metis
    moreover from o(1) assms(2) have "q \<noteq> p" by auto
    ultimately show ?thesis using o assms(3,8) by simp
  qed
qed

lemma AllocateRegisteredBlock_good:
  assumes "good_env E k" and "size (live_maps (trace w)) + 16 \<le> k" and "tracked S (mp, w)"
  defines "p \<equiv> Suc (length (regions w))"
  shows "\<exists>f w'. AllocateRegisteredBlock E n (mp, w) = Some (Ok p, (mp\<lparr>pointer_map := f\<rparr>, w')) \<and>
    tracked (insert (p, n) S) (mp\<lparr>pointer_map := f\<rparr>, w') \<and>
    heap_live (regions w') = insert p (heap_live (regions w)) \<and>
    (\<forall>q. q \<noteq> p \<longrightarrow> heap_get (regions w') q = heap_get (regions w) q) \<and>
    live_maps (trace w') = live_maps (trace w) + fp w' p \<and> live_mrs (trace w') = live_mrs (trace w) + mrp w' p \<and>
    size (live_maps (trace w')) = Suc (size (live_maps (trace w))) \<and> length (regions w') = p"
proof -
  let ?w1 = "w\<lparr>regions := heap_new empty_region (regions w)\<rparr>"
  have "size (live_maps (trace ?w1)) + 16 \<le> k" using assms(2) by simp
  from allocate_good [OF assms(1) this] obtain r' w2 mr where
    al: "allocate E (protection_domain mp) n (empty_region, ?w1) = Some (Ok 0, (r', w2))"
    and r': "region r' = Some mr" "mr_length mr = n" "flags r' = flags empty_region"
    and maps: "live_maps (trace w2) = add_mset (mr_addr mr, n) (live_maps (trace w))"
      "live_mrs (trace w2) = add_mset mr (live_mrs (trace w))"
    and fr: "mr_addr mr \<notin> fst ` set_mset (live_maps (trace w))"
    by fastforce
  from allocate_regions [OF al] have rg: "regions w2 = heap_new empty_region (regions w)" by simp
  have gp: "heap_get (regions ?w1) p = Some empty_region" by (simp add: p_def heap_get_new)
  let ?w3 = "w2\<lparr>regions := heap_put p r' (regions w2)\<rparr>"
  have gp3: "heap_get (regions ?w3) q = (if q = p then Some r' else heap_get (regions w) q)" for q
    using rg by (simp add: p_def heap_get_put heap_get_new)
  have run: "AllocateRegisteredBlock E n (mp, w) =
      Some (Ok p, (mp\<lparr>pointer_map := (pointer_map mp)(mr_addr mr \<mapsto> p)\<rparr>, ?w3))"
    using al gp rg r'(1) gp3 [of p]
    by (simp add: AllocateRegisteredBlock_def run_simps on_heap_run getAddress_def through_region_def
        flip: p_def)
  have fl: "flags r' = 0" using r'(3) by (simp add: empty_region_def)
  have "heap_get (regions w) p = None" by (simp add: p_def)
  then have "tracked (insert (p, n) S) (mp\<lparr>pointer_map := (pointer_map mp)(mr_addr mr \<mapsto> p)\<rparr>, ?w3)"
    by (rule tracked_insert [OF assms(3) _ _ r'(1) fl r'(2) fr]) (use gp3 maps in simp_all)
  moreover have "heap_live (regions ?w3) = insert p (heap_live (regions w))"
    using gp3 unfolding heap_live_def by auto
  moreover have "\<forall>q. q \<noteq> p \<longrightarrow> heap_get (regions ?w3) q = heap_get (regions w) q" using gp3 by simp
  moreover have "live_maps (trace ?w3) = live_maps (trace w) + fp ?w3 p \<and> live_mrs (trace ?w3) = live_mrs (trace w) + mrp ?w3 p"
    using maps gp3 [of p] r' by (simp add: fp_def mrp_def)
  moreover have "size (live_maps (trace ?w3)) = Suc (size (live_maps (trace w)))" using maps by simp
  moreover have "length (regions ?w3) = p" using rg by (simp add: p_def)
  ultimately show ?thesis using run by blast
qed

text \<open>The loop, with the container taken out of the pool.\<close>

lemma alloc_blocks_good:
  assumes "good_env E k" and "size (live_maps (trace w)) + n + 16 \<le> k" and "tracked S (mp, w)"
    and "set (block_list pc) \<union> set (free_list pc) \<subseteq> heap_live (regions w)"
  shows "\<exists>news f w'. alloc_blocks E n (AllocateRegisteredBlock E) (pc, (mp, w)) =
      Some (Ok True, (pc\<lparr>block_list := block_list pc @ news, free_list := free_list pc @ news,
        region_use_count := region_use_count pc - of_nat n\<rparr>, (mp\<lparr>pointer_map := f\<rparr>, w'))) \<and>
    length news = n \<and> distinct news \<and> set news \<inter> heap_live (regions w) = {} \<and>
    (\<forall>q \<in> set news. length (regions w) < q) \<and>
    heap_live (regions w') = heap_live (regions w) \<union> set news \<and>
    tracked (S \<union> set news \<times> {chunk_size pc}) (mp\<lparr>pointer_map := f\<rparr>, w') \<and>
    (\<forall>q. q \<notin> set news \<longrightarrow> heap_get (regions w') q = heap_get (regions w) q) \<and>
    live_maps (trace w') = live_maps (trace w) + fps w' news \<and> live_mrs (trace w') = live_mrs (trace w) + mrps w' news \<and>
    size (live_maps (trace w')) = size (live_maps (trace w)) + n \<and> length (regions w') = length (regions w) + n"
  using assms(2-)
proof (induction n arbitrary: pc mp w S)
  case 0
  then show ?case by (intro exI [of _ "[]"] exI [of _ "pointer_map mp"] exI [of _ w]) simp
next
  case (Suc n)
  define p where "p = Suc (length (regions w))"
  from Suc.prems(1) have "size (live_maps (trace w)) + 16 \<le> k" by simp
  from AllocateRegisteredBlock_good [OF assms(1) this Suc.prems(2), of "chunk_size pc"]
  obtain f w1 where
    run: "AllocateRegisteredBlock E (chunk_size pc) (mp, w) = Some (Ok p, (mp\<lparr>pointer_map := f\<rparr>, w1))"
    and tr: "tracked (insert (p, chunk_size pc) S) (mp\<lparr>pointer_map := f\<rparr>, w1)"
    and live: "heap_live (regions w1) = insert p (heap_live (regions w))"
    and frame: "\<forall>q. q \<noteq> p \<longrightarrow> heap_get (regions w1) q = heap_get (regions w) q"
    and maps: "live_maps (trace w1) = live_maps (trace w) + fp w1 p \<and> live_mrs (trace w1) = live_mrs (trace w) + mrp w1 p"
    and sz: "size (live_maps (trace w1)) = Suc (size (live_maps (trace w)))" and len: "length (regions w1) = p"
    unfolding p_def by blast
  have p: "p \<noteq> 0" "p \<notin> heap_live (regions w)" by (simp_all add: p_def)
  with Suc.prems(3) have notin: "p \<notin> set (block_list pc)" "p \<notin> set (free_list pc)" by auto
  let ?pc = "pc\<lparr>block_list := block_list pc @ [p], free_list := free_list pc @ [p],
        region_use_count := region_use_count pc - 1\<rparr>"
  have "alloc_blocks E (Suc n) (AllocateRegisteredBlock E) (pc, (mp, w)) =
      alloc_blocks E n (AllocateRegisteredBlock E) (?pc, (mp\<lparr>pointer_map := f\<rparr>, w1))"
    using run p notin by (simp add: run_simps block_put_def)
  moreover
  have "size (live_maps (trace w1)) + n + 16 \<le> k" using sz Suc.prems(1) by simp
  moreover have "set (block_list ?pc) \<union> set (free_list ?pc) \<subseteq> heap_live (regions w1)"
    using Suc.prems(3) live by auto
  ultimately obtain news f' w' where
    "alloc_blocks E (Suc n) (AllocateRegisteredBlock E) (pc, (mp, w)) =
      Some (Ok True, (?pc\<lparr>block_list := block_list ?pc @ news, free_list := free_list ?pc @ news,
        region_use_count := region_use_count ?pc - of_nat n\<rparr>, (mp\<lparr>pointer_map := f'\<rparr>, w')))"
    "length news = n" "distinct news" "set news \<inter> heap_live (regions w1) = {}"
    "\<forall>q \<in> set news. length (regions w1) < q"
    "heap_live (regions w') = heap_live (regions w1) \<union> set news"
    "tracked (insert (p, chunk_size pc) S \<union> set news \<times> {chunk_size pc}) (mp\<lparr>pointer_map := f'\<rparr>, w')"
    "\<forall>q. q \<notin> set news \<longrightarrow> heap_get (regions w') q = heap_get (regions w1) q"
    "live_maps (trace w') = live_maps (trace w1) + fps w' news \<and> live_mrs (trace w') = live_mrs (trace w1) + mrps w' news"
    "size (live_maps (trace w')) = size (live_maps (trace w1)) + n" "length (regions w') = length (regions w1) + n"
    using Suc.IH [OF _ tr, of ?pc] by fastforce
  moreover from this live have "fp w1 p = fp w' p" "mrp w1 p = mrp w' p" by (intro fp_cong mrp_cong; auto)+
  ultimately show ?case
    using p live sz frame maps len by (intro exI [of _ "p # news"] exI [of _ f'] exI [of _ w'])
       (auto simp: algebra_simps p_def)
qed

text \<open>One container of the pool.\<close>

definition lists_live :: "memory_pool \<Rightarrow> 'a mworld_scheme \<Rightarrow> bool" where
  "lists_live mp w \<longleftrightarrow> (\<forall>c. set (block_list (container c mp)) \<union> set (free_list (container c mp))
     \<subseteq> heap_live (regions w))"

definition refilled :: "pool_container \<Rightarrow> ptr list \<Rightarrow> pool_container" where
  "refilled pc news = pc\<lparr>block_list := block_list pc @ news, free_list := free_list pc @ news,
     region_use_count := 0\<rparr>"

lemma chunk_size_refilled [simp]: "chunk_size (refilled pc news) = chunk_size pc"
  by (simp add: refilled_def)

lemma fill_chunk_good:
  assumes "good_env E k" and "size (live_maps (trace w)) + n + 16 \<le> k" and "tracked S (mp, w)"
    and "lists_live mp w"
  obtains news mp' w' where
    "on_chunk c (AllocatePool E n (AllocateRegisteredBlock E)) (mp, w) = Some (Ok True, (mp', w'))"
    "container c mp' = refilled (container c mp) news"
    "\<forall>d. d \<noteq> c \<longrightarrow> container d mp' = container d mp"
    "length news = n" "distinct news" "set news \<inter> heap_live (regions w) = {}"
    "\<forall>q \<in> set news. length (regions w) < q"
    "heap_live (regions w') = heap_live (regions w) \<union> set news"
    "tracked (S \<union> set news \<times> {chunk_size (container c mp)}) (mp', w')"
    "\<forall>q. q \<notin> set news \<longrightarrow> heap_get (regions w') q = heap_get (regions w) q"
    "live_maps (trace w') = live_maps (trace w) + fps w' news \<and> live_mrs (trace w') = live_mrs (trace w) + mrps w' news"
    "size (live_maps (trace w')) = size (live_maps (trace w)) + n" "lists_live mp' w'"
    "protection_domain mp' = protection_domain mp" "length (regions w') = length (regions w) + n"
proof -
  let ?pc = "container c mp"
  from assms(4) have "set (block_list ?pc) \<union> set (free_list ?pc) \<subseteq> heap_live (regions w)"
    by (simp add: lists_live_def)
  from alloc_blocks_good [OF assms(1-3) this] obtain news f w' where
    run: "alloc_blocks E n (AllocateRegisteredBlock E) (?pc, (mp, w)) =
      Some (Ok True, (?pc\<lparr>block_list := block_list ?pc @ news, free_list := free_list ?pc @ news,
        region_use_count := region_use_count ?pc - of_nat n\<rparr>, (mp\<lparr>pointer_map := f\<rparr>, w')))"
    and news: "length news = n" "distinct news" "set news \<inter> heap_live (regions w) = {}"
    "\<forall>q \<in> set news. length (regions w) < q"
    "heap_live (regions w') = heap_live (regions w) \<union> set news"
    "tracked (S \<union> set news \<times> {chunk_size ?pc}) (mp\<lparr>pointer_map := f\<rparr>, w')"
    "\<forall>q. q \<notin> set news \<longrightarrow> heap_get (regions w') q = heap_get (regions w) q"
    "live_maps (trace w') = live_maps (trace w) + fps w' news \<and> live_mrs (trace w') = live_mrs (trace w) + mrps w' news"
    "size (live_maps (trace w')) = size (live_maps (trace w)) + n" "length (regions w') = length (regions w) + n" by blast
  let ?mp' = "set_container c (refilled ?pc news) (mp\<lparr>pointer_map := f\<rparr>)"
  from run have "on_chunk c (AllocatePool E n (AllocateRegisteredBlock E)) (mp, w) =
      Some (Ok True, (?mp', w'))"
    by (simp add: AllocatePool_def refilled_def run_simps)
  moreover have "lists_live ?mp' w'"
    using assms(4) news(5) by (fastforce simp: lists_live_def refilled_def)
  ultimately show thesis
    using news by (intro that [of ?mp' w' news]) simp_all
qed

text \<open>The step from \<open>(mp, w)\<close> to \<open>(mp', w')\<close> has put the blocks \<open>news\<close> into one container.\<close>

definition chunk_filled ::
    "(ptr \<times> u64) set \<Rightarrow> chunk \<Rightarrow> memory_pool \<Rightarrow> 'a mworld_scheme \<Rightarrow> ptr list \<Rightarrow> memory_pool \<Rightarrow> 'a mworld_scheme \<Rightarrow> bool" where
  "chunk_filled S c mp w news mp' w' \<longleftrightarrow>
     (\<forall>d. container d mp' = (if d = c then refilled (container c mp) news else container d mp)) \<and>
     length news = count_of c \<and> distinct news \<and> set news \<inter> heap_live (regions w) = {} \<and>
     (\<forall>q \<in> set news. length (regions w) < q) \<and>
     heap_live (regions w') = heap_live (regions w) \<union> set news \<and>
     (\<forall>q. q \<notin> set news \<longrightarrow> heap_get (regions w') q = heap_get (regions w) q) \<and>
     tracked (S \<union> set news \<times> {size_of c}) (mp', w') \<and> lists_live mp' w' \<and>
     protection_domain mp' = protection_domain mp \<and> length (regions w') = length (regions w) + count_of c \<and>
     live_maps (trace w') = live_maps (trace w) + fps w' news \<and> live_mrs (trace w') = live_mrs (trace w) + mrps w' news \<and>
     size (live_maps (trace w')) = size (live_maps (trace w)) + count_of c"

lemma chunk_filledD:
  assumes "chunk_filled S c mp w news mp' w'"
  shows "container d mp' = (if d = c then refilled (container c mp) news else container d mp)"
    "length news = count_of c" "distinct news" "set news \<inter> heap_live (regions w) = {}"
    "heap_live (regions w') = heap_live (regions w) \<union> set news"
    "q \<notin> set news \<Longrightarrow> heap_get (regions w') q = heap_get (regions w) q"
    "tracked (S \<union> set news \<times> {size_of c}) (mp', w')" "lists_live mp' w'"
    "protection_domain mp' = protection_domain mp" "length (regions w') = length (regions w) + count_of c"
    "live_maps (trace w') = live_maps (trace w) + fps w' news" "live_mrs (trace w') = live_mrs (trace w) + mrps w' news"
    "size (live_maps (trace w')) = size (live_maps (trace w)) + count_of c"
    "q \<in> set news \<Longrightarrow> length (regions w) < q"
  using assms unfolding chunk_filled_def by blast+

lemma fill_chunk:
  assumes "good_env E k" and "size (live_maps (trace w)) + count_of c + 16 \<le> k" and "tracked S (mp, w)"
    and "lists_live mp w" and "chunk_size (container c mp) = size_of c"
  obtains news mp' w' where
    "on_chunk c (AllocatePool E (count_of c) (AllocateRegisteredBlock E)) (mp, w) = Some (Ok True, (mp', w'))"
    "chunk_filled S c mp w news mp' w'"
proof -
  obtain news mp' w' where f:
    "on_chunk c (AllocatePool E (count_of c) (AllocateRegisteredBlock E)) (mp, w) = Some (Ok True, (mp', w'))"
    "container c mp' = refilled (container c mp) news" "\<forall>d. d \<noteq> c \<longrightarrow> container d mp' = container d mp"
    "length news = count_of c" "distinct news" "set news \<inter> heap_live (regions w) = {}"
    "\<forall>q \<in> set news. length (regions w) < q"
    "heap_live (regions w') = heap_live (regions w) \<union> set news"
    "tracked (S \<union> set news \<times> {chunk_size (container c mp)}) (mp', w')"
    "\<forall>q. q \<notin> set news \<longrightarrow> heap_get (regions w') q = heap_get (regions w) q"
    "live_maps (trace w') = live_maps (trace w) + fps w' news \<and> live_mrs (trace w') = live_mrs (trace w) + mrps w' news"
    "size (live_maps (trace w')) = size (live_maps (trace w)) + count_of c" "lists_live mp' w'"
    "protection_domain mp' = protection_domain mp" "length (regions w') = length (regions w) + count_of c"
    by (rule fill_chunk_good [OF assms(1-4), of c]) (rule that; assumption)
  show thesis
    by (rule that [OF f(1)]) (use f(2-15) assms(5) in \<open>simp add: chunk_filled_def\<close>)
qed

lemma allocate_pools_good:
  assumes "good_env E k" and "size (live_maps (trace w)) + 100 \<le> k" and "lists_live mp w"
    and sizes: "\<forall>c. chunk_size (container c mp) = size_of c"
  shows "\<exists>news mp' w'. allocate_pools E (mp, w) = Some (Ok (), (mp', w')) \<and>
    (\<forall>c. container c mp' = refilled (container c mp) (news c) \<and> length (news c) = count_of c \<and>
       distinct (news c) \<and> set (news c) \<inter> heap_live (regions w) = {} \<and>
       (\<forall>p \<in> set (news c). block_at (size_of c) p mp' w' \<and> length (regions w) < p)) \<and>
    (\<forall>q. (\<forall>c. q \<notin> set (news c)) \<longrightarrow> heap_get (regions w') q = heap_get (regions w) q) \<and>
    protection_domain mp' = protection_domain mp \<and>
    live_maps (trace w') = live_maps (trace w) + fps w' (news Small) + fps w' (news Medium) +
      fps w' (news Large) \<and> live_mrs (trace w') = live_mrs (trace w) + mrps w' (news Small) + mrps w' (news Medium) +
      mrps w' (news Large) \<and> length (regions w') = length (regions w) + 84"
proof -
  from assms(2) have k1: "size (live_maps (trace w)) + count_of Small + 16 \<le> k" by simp
  from fill_chunk [OF assms(1) k1 tracked_empty assms(3) sizes [rule_format]] obtain n1 mp1 w1 where
    r1: "on_chunk Small (AllocatePool E (count_of Small) (AllocateRegisteredBlock E)) (mp, w) = Some (Ok True, (mp1, w1))"
    and c1: "chunk_filled {} Small mp w n1 mp1 w1" .
  note f1 = chunk_filledD [OF c1]
  have k2: "size (live_maps (trace w1)) + count_of Medium + 16 \<le> k" using assms(2) f1(13) by simp
  have "chunk_size (container Medium mp1) = size_of Medium" unfolding f1(1) using sizes by (simp del: container.simps size_of.simps)
  from fill_chunk [OF assms(1) k2 f1(7,8) this] obtain n2 mp2 w2 where
    r2: "on_chunk Medium (AllocatePool E (count_of Medium) (AllocateRegisteredBlock E)) (mp1, w1) = Some (Ok True, (mp2, w2))"
    and c2: "chunk_filled ({} \<union> set n1 \<times> {size_of Small}) Medium mp1 w1 n2 mp2 w2" .
  note f2 = chunk_filledD [OF c2]
  have k3: "size (live_maps (trace w2)) + count_of Large + 16 \<le> k" using assms(2) f1(13) f2(13) by simp
  have "chunk_size (container Large mp2) = size_of Large" unfolding f2(1) f1(1) using sizes by (simp del: container.simps size_of.simps)
  from fill_chunk [OF assms(1) k3 f2(7,8) this] obtain n3 mp3 w3 where
    r3: "on_chunk Large (AllocatePool E (count_of Large) (AllocateRegisteredBlock E)) (mp2, w2) = Some (Ok True, (mp3, w3))"
    and c3: "chunk_filled ({} \<union> set n1 \<times> {size_of Small} \<union> set n2 \<times> {size_of Medium}) Large mp2 w2 n3 mp3 w3" .
  note f3 = chunk_filledD [OF c3]
  define news where "news = (\<lambda>c. case c of Small \<Rightarrow> n1 | Medium \<Rightarrow> n2 | Large \<Rightarrow> n3)"
  have "allocate_pools E (mp, w) = Some (Ok (), (mp3, w3))"
    using r1 r2 r3 by (simp add: allocate_pools_def del: count_of.simps)
  moreover have "container c mp3 = refilled (container c mp) (news c)" for c
    unfolding f3(1) f2(1) f1(1) by (cases c) (simp_all add: news_def del: container.simps)
  moreover have "length (news c) = count_of c \<and> distinct (news c) \<and> set (news c) \<inter> heap_live (regions w) = {}" for c
    using f1(2-5) f2(2-5) f3(2-4) by (cases c) (auto simp: news_def)
  moreover have "block_at (size_of c) p mp3 w3 \<and> length (regions w) < p" if "p \<in> set (news c)" for c p
  proof
    show "block_at (size_of c) p mp3 w3"
      by (rule tracked_block_at [OF f3(7)]) (use that in \<open>cases c; simp add: news_def\<close>)
    show "length (regions w) < p" using that f1(10,14) f2(10,14) f3(14) by (cases c) (fastforce simp: news_def)+
  qed
  moreover have "heap_get (regions w3) q = heap_get (regions w) q" if "\<forall>c. q \<notin> set (news c)" for q
    using that [rule_format, of Small] that [rule_format, of Medium] that [rule_format, of Large] f1(6) f2(6) f3(6)
    by (simp add: news_def)
  moreover have "protection_domain mp3 = protection_domain mp" using f1(9) f2(9) f3(9) by simp
  moreover have "live_maps (trace w3) = live_maps (trace w) + fps w3 (news Small) +
      fps w3 (news Medium) + fps w3 (news Large) \<and> live_mrs (trace w3) = live_mrs (trace w) + mrps w3 (news Small) +
      mrps w3 (news Medium) + mrps w3 (news Large) \<and> length (regions w3) = length (regions w) + 84"
  proof -
    have "set n1 \<inter> set n2 = {}" "set n1 \<inter> set n3 = {}" "set n2 \<inter> set n3 = {}" using f1(5) f2(4,5) f3(4) by blast+
    then have "heap_get (regions w1) q = heap_get (regions w3) q" if "q \<in> set n1" for q
      using that f2(6) f3(6) by (metis disjoint_iff)
    moreover have "heap_get (regions w2) q = heap_get (regions w3) q" if "q \<in> set n2" for q
      using that f3(6) \<open>set n2 \<inter> set n3 = {}\<close> by (metis disjoint_iff)
    ultimately have "fps w1 n1 = fps w3 n1" "fps w2 n2 = fps w3 n2" "mrps w1 n1 = mrps w3 n1" "mrps w2 n2 = mrps w3 n2"
      by (auto intro: fps_cong mrps_cong)
    then show ?thesis using f1(10-12) f2(10-12) f3(10-12) by (simp add: news_def ac_simps)
  qed
  ultimately show ?thesis by blast
qed

text \<open>A container without blocks that is filled, and the whole pool.\<close>

lemma refilled_inv:
  "free_list pc = [] \<Longrightarrow> block_list pc = [] \<Longrightarrow> distinct news \<Longrightarrow> pool_inv (refilled pc news)"
  by (simp add: refilled_def pool_inv_def lists_ok_def)

lemma filled_mp_inv:
  assumes "\<forall>c. container c mp' = refilled (container c mp) (news c) \<and> distinct (news c) \<and>
      (\<forall>p \<in> set (news c). block_at (size_of c) p mp' w')"
    and "\<forall>c. chunk_size (container c mp) = size_of c \<and> free_list (container c mp) = [] \<and>
      block_list (container c mp) = []"
  shows "mp_inv (mp', w')"
  unfolding mp_inv_def using assms by (simp add: refilled_inv) (simp add: refilled_def)

section \<open>Destroying blocks\<close>

lemma delete_region_good:
  assumes "giving_env E" and "heap_get (regions w) p = Some ob" and "region ob = Some mr"
    and "flags ob = 0" and "unat (mr_length mr) < 2 ^ 32"
  shows "\<exists>w'. delete_region E p w = Some (Ok (), w') \<and>
    (\<forall>q. heap_get (regions w') q = (if q = p then None else heap_get (regions w) q)) \<and>
    live_maps (trace w') = live_maps (trace w) - fp w p \<and> live_mrs (trace w') = live_mrs (trace w) - mrp w p \<and>
    length (regions w') = length (regions w)"
proof -
  from assms(1) have e: "\<not> logging E" "dereg_ok E" by (auto simp: giving_env_def)
  from assms(5) have "ucast (mr_length32 mr) = mr_length mr"
    by (simp add: mr_length32_def ucast_ucast_small)
  with release_gives_back' [OF e assms(3), of w] assms(4) obtain w1 where
    rel: "release E (ob, w) = Some (Ok 0, (ob\<lparr>region := None\<rparr>, w1))"
    and maps: "live_maps (trace w1) = live_maps (trace w) - {#footprint mr#}"
      "live_mrs (trace w1) = live_mrs (trace w) - {#mr#}" by auto
  from release_regions [OF rel] have rg: "regions w1 = regions w" .
  let ?w' = "w1\<lparr>regions := heap_free p (heap_put p (ob\<lparr>region := None\<rparr>) (regions w))\<rparr>"
  have "delete_region E p w = Some (Ok (), ?w')"
    using rel assms(2) rg by (simp add: delete_region_def run_simps on_heap_run)
  moreover have "heap_get (regions ?w') q = (if q = p then None else heap_get (regions w) q)" for q
    using assms(2) by (simp add: heap_get_free heap_get_put)
  moreover have "live_maps (trace ?w') = live_maps (trace w) - fp w p \<and> live_mrs (trace ?w') = live_mrs (trace w) - mrp w p"
    using maps assms(2,3) by (simp add: fp_def mrp_def)
  moreover have "length (regions ?w') = length (regions w)" by simp
  ultimately show ?thesis by blast
qed

text \<open>The blocks that can be destroyed without leaking.\<close>

definition deletable :: "'a mworld_scheme \<Rightarrow> ptr \<Rightarrow> bool" where
  "deletable w p \<longleftrightarrow> (\<exists>ob mr. heap_get (regions w) p = Some ob \<and> region ob = Some mr \<and>
     flags ob = 0 \<and> unat (mr_length mr) < 2 ^ 32)"

lemma block_at_deletable: "block_at (size_of c) p mp w \<Longrightarrow> deletable w p"
  by (cases c) (fastforce simp: block_at_def deletable_def)+

lemma deletable_cong:
  "heap_get (regions w) p = heap_get (regions w') p \<Longrightarrow> deletable w p = deletable w' p"
  by (simp add: deletable_def)

lemma iter_delete_good:
  assumes "giving_env E" and "distinct ps" and "\<forall>p \<in> set ps. deletable w p"
  shows "\<exists>w'. iterM (\<lambda>p. on_world (delete_region E p)) ps (mp, w) = Some (Ok (), (mp, w')) \<and>
    (\<forall>q. heap_get (regions w') q = (if q \<in> set ps then None else heap_get (regions w) q)) \<and>
    live_maps (trace w') = live_maps (trace w) - fps w ps \<and> live_mrs (trace w') = live_mrs (trace w) - mrps w ps \<and>
    length (regions w') = length (regions w)"
  using assms(2,3)
proof (induction ps arbitrary: w)
  case Nil
  then show ?case by simp
next
  case (Cons p ps)
  from Cons.prems(2) obtain ob mr where "heap_get (regions w) p = Some ob" "region ob = Some mr"
    "flags ob = 0" "unat (mr_length mr) < 2 ^ 32" by (auto simp: deletable_def)
  with delete_region_good [OF assms(1), of w p ob mr] obtain w1 where
    d: "delete_region E p w = Some (Ok (), w1)"
    "\<forall>q. heap_get (regions w1) q = (if q = p then None else heap_get (regions w) q)"
    "live_maps (trace w1) = live_maps (trace w) - fp w p \<and> live_mrs (trace w1) = live_mrs (trace w) - mrp w p"
    "length (regions w1) = length (regions w)" by auto
  have same: "heap_get (regions w1) q = heap_get (regions w) q" if "q \<in> set ps" for q
    using that d(2) Cons.prems(1) by auto
  then have "\<forall>q \<in> set ps. deletable w1 q"
    using Cons.prems(2) deletable_cong by (metis list.set_intros(2))
  with Cons.IH [of w1] Cons.prems(1) obtain w' where
    "iterM (\<lambda>p. on_world (delete_region E p)) ps (mp, w1) = Some (Ok (), (mp, w'))"
    "\<forall>q. heap_get (regions w') q = (if q \<in> set ps then None else heap_get (regions w1) q)"
    "live_maps (trace w') = live_maps (trace w1) - fps w1 ps \<and> live_mrs (trace w') = live_mrs (trace w1) - mrps w1 ps"
    "length (regions w') = length (regions w1)" by auto
  moreover have "fps w1 ps = fps w ps" "mrps w1 ps = mrps w ps"
    by (rule fps_cong, erule same) (rule mrps_cong, erule same)
  ultimately show ?case using d by (auto simp: diff_diff_add_mset)
qed

lemma through_region_frame:
  "on_region p (through_region f) w = Some (res, w') \<Longrightarrow> regions w' = regions w"
  by (cases "heap_get (regions w) p")
     (auto simp: on_heap_def through_region_def run_simps split: run_splits)

text \<open>
  The provider of the interface the containers rely on: making a block gives a region
  object that was not there, deleting one removes it.
\<close>

interpretation pool_regions: region_store
  "\<lambda>s. heap_live (regions (snd s))" "AllocateRegisteredBlock E" "\<lambda>p. on_world (delete_region E p)"
  for E :: env
proof
  fix n :: u64 and s p s'
  assume "AllocateRegisteredBlock E n s = Some (Ok p, s')"
  then show "p \<noteq> 0 \<and> p \<notin> heap_live (regions (snd s)) \<and>
      heap_live (regions (snd s')) = insert p (heap_live (regions (snd s)))"
    by (cases s; cases s')
       (auto simp: AllocateRegisteredBlock_def run_simps on_heap_run heap_get_new getAddress_def
         heap_live_new dest!: allocate_regions through_region_frame split: run_splits)
next
  fix p s s'
  assume "on_world (delete_region E p) s = Some (Ok (), s')"
  then show "heap_live (regions (snd s')) = heap_live (regions (snd s)) - {p}"
    by (cases s; cases s'; cases "heap_get (regions (snd s)) p")
       (auto simp: delete_region_def run_simps on_heap_def heap_live_free heap_get_put
         dest!: release_regions split: run_splits)
qed

section \<open>Emptying the pool\<close>

definition emptied :: "pool_container \<Rightarrow> pool_container" where
  "emptied pc = pc\<lparr>free_list := [], block_list := [],
     region_use_count := of_nat (length (block_list pc))\<rparr>"

definition chunk_ok :: "chunk \<Rightarrow> memory_pool \<Rightarrow> 'a mworld_scheme \<Rightarrow> bool" where
  "chunk_ok c mp w \<longleftrightarrow> pool_inv (container c mp) \<and>
     (\<forall>p \<in> set (block_list (container c mp)). deletable w p)"

abbreviation dealloc_chunk :: "env \<Rightarrow> chunk \<Rightarrow> (memory_pool \<times> 'a mworld_scheme, int) M" where
  "dealloc_chunk E c \<equiv> on_chunk c (DeallocatePool (\<lambda>p. on_world (delete_region E p)))"

abbreviation blocks :: "chunk \<Rightarrow> memory_pool \<Rightarrow> ptr list" where
  "blocks c mp \<equiv> block_list (container c mp)"

lemma dealloc_chunk_returned:
  assumes "giving_env E" and "chunk_ok c mp w" and "outstanding (container c mp) = {}"
  obtains w' where
    "dealloc_chunk E c (mp, w) = Some (Ok 1, (set_container c (emptied (container c mp)) mp, w'))"
    "\<forall>q. heap_get (regions w') q = (if q \<in> set (blocks c mp) then None else heap_get (regions w) q)"
    "live_maps (trace w') = live_maps (trace w) - fps w (blocks c mp) \<and> live_mrs (trace w') = live_mrs (trace w) - mrps w (blocks c mp)"
    "length (regions w') = length (regions w)"
proof -
  from assms(2) have pc: "pool_inv (container c mp)" and "\<forall>p \<in> set (blocks c mp). deletable w p"
    and "distinct (blocks c mp)" by (auto simp: chunk_ok_def pool_inv_def lists_ok_def)
  with iter_delete_good [OF assms(1), of "blocks c mp" w mp] obtain w' where
    it: "iterM (\<lambda>p. on_world (delete_region E p)) (blocks c mp) (mp, w) = Some (Ok (), (mp, w'))"
    and w': "\<forall>q. heap_get (regions w') q =
      (if q \<in> set (blocks c mp) then None else heap_get (regions w) q)"
    "live_maps (trace w') = live_maps (trace w) - fps w (blocks c mp) \<and> live_mrs (trace w') = live_mrs (trace w) - mrps w (blocks c mp)"
    "length (regions w') = length (regions w)" by blast
  from pool_regions.DeallocatePool_returned [OF pc assms(3) it]
  have "dealloc_chunk E c (mp, w) = Some (Ok 1, (set_container c (emptied (container c mp)) mp, w'))"
    by (simp add: on_chunk_run emptied_def)
  from that [OF this w'] show thesis .
qed

lemma dealloc_chunk_refused:
  assumes "chunk_ok c mp w" and "outstanding (container c mp) \<noteq> {}"
  shows "dealloc_chunk E c (mp, w) = Some (Ok 0, (mp, w))"
proof -
  have "length (free_list (container c mp)) \<noteq> length (blocks c mp)"
    using assms card_outstanding [of "container c mp"]
    by (auto simp: chunk_ok_def pool_inv_def outstanding_def)
  then show ?thesis by (simp add: on_chunk_run DeallocatePool_refuses)
qed

text \<open>\<open>DeallocateList\<close> as a loop over the chunks: it stops at the first refusal.\<close>

fun dealloc_all :: "env \<Rightarrow> chunk list \<Rightarrow> (memory_pool \<times> 'a mworld_scheme, int) M" where
  "dealloc_all E [] = returnM 1"
| "dealloc_all E (c # cs) = bindM (dealloc_chunk E c) (\<lambda>r. if r = 0 then returnM 0 else dealloc_all E cs)"

lemma DeallocateList_all: "DeallocateList E = dealloc_all E [Small, Medium, Large]"
  by (rule ext) (simp add: DeallocateList_def Let_def if_distrib cong: if_cong)

abbreviation returned :: "memory_pool \<Rightarrow> chunk list \<Rightarrow> chunk list" where
  "returned mp cs \<equiv> takeWhile (\<lambda>c. outstanding (container c mp) = {}) cs"

lemma dealloc_all_run:
  assumes "giving_env E" and "distinct cs" and "\<forall>c \<in> set cs. chunk_ok c mp w"
    and "\<forall>c d. c \<noteq> d \<longrightarrow> set (blocks c mp) \<inter> set (blocks d mp) = {}"
  shows "\<exists>mp' w'. dealloc_all E cs (mp, w) =
      Some (Ok (if returned mp cs = cs then 1 else 0), (mp', w')) \<and>
    (\<forall>c. container c mp' = (if c \<in> set (returned mp cs) then emptied (container c mp) else container c mp)) \<and>
    (\<forall>q. heap_get (regions w') q =
      (if \<exists>c \<in> set (returned mp cs). q \<in> set (blocks c mp) then None else heap_get (regions w) q)) \<and>
    live_maps (trace w') = live_maps (trace w) - fps w (concat (map (\<lambda>c. blocks c mp) (returned mp cs))) \<and>
    live_mrs (trace w') = live_mrs (trace w) - mrps w (concat (map (\<lambda>c. blocks c mp) (returned mp cs))) \<and>
    length (regions w') = length (regions w)"
  using assms(2-)
proof (induction cs arbitrary: mp w)
  case Nil
  then show ?case by simp
next
  case (Cons c cs)
  show ?case
  proof (cases "outstanding (container c mp) = {}")
    case False
    with Cons.prems(2) have "dealloc_chunk E c (mp, w) = Some (Ok 0, (mp, w))"
      by (intro dealloc_chunk_refused) auto
    with False show ?thesis by simp
  next
    case True
    from Cons.prems(2) have "chunk_ok c mp w" by simp
    from dealloc_chunk_returned [OF assms(1) this True] obtain w1 where
      d: "dealloc_chunk E c (mp, w) = Some (Ok 1, (set_container c (emptied (container c mp)) mp, w1))"
      and heap: "\<forall>q. heap_get (regions w1) q =
        (if q \<in> set (blocks c mp) then None else heap_get (regions w) q)"
      and maps: "live_maps (trace w1) = live_maps (trace w) - fps w (blocks c mp) \<and> live_mrs (trace w1) = live_mrs (trace w) - mrps w (blocks c mp)"
      and len: "length (regions w1) = length (regions w)" .
    let ?mp1 = "set_container c (emptied (container c mp)) mp"
    have cont: "container d ?mp1 = container d mp" if "d \<in> set cs" for d
      using that Cons.prems(1) by auto
    have same: "heap_get (regions w1) q = heap_get (regions w) q"
      if "d \<in> set cs" "q \<in> set (blocks d mp)" for d q
      using that Cons.prems(1,3) heap by (metis disjoint_iff distinct.simps(2))
    have ok: "\<forall>d \<in> set cs. chunk_ok d ?mp1 w1"
      using Cons.prems(2) same cont deletable_cong unfolding chunk_ok_def
      by (metis list.set_intros(2))
    have disj: "\<forall>d e. d \<noteq> e \<longrightarrow> set (blocks d ?mp1) \<inter> set (blocks e ?mp1) = {}"
      using Cons.prems(3) by (simp add: emptied_def)
    have ret: "returned ?mp1 cs = returned mp cs"
      using cont by (intro takeWhile_cong) auto
    have sub: "set (returned mp cs) \<subseteq> set cs" using set_takeWhileD by fast
    have bl: "map (\<lambda>d. blocks d ?mp1) (returned mp cs) = map (\<lambda>d. blocks d mp) (returned mp cs)"
      by (intro map_cong refl) (simp only: cont [OF subsetD [OF sub]])
    have fpe: "fps w1 (concat (map (\<lambda>d. blocks d mp) (returned mp cs))) = fps w (concat (map (\<lambda>d. blocks d mp) (returned mp cs)))"
      "mrps w1 (concat (map (\<lambda>d. blocks d mp) (returned mp cs))) = mrps w (concat (map (\<lambda>d. blocks d mp) (returned mp cs)))"
      using same sub by (intro fps_cong mrps_cong; auto)+
    have "distinct cs" using Cons.prems(1) by simp
    obtain mp' w' where
      run0: "dealloc_all E cs (?mp1, w1) = Some (Ok (if returned ?mp1 cs = cs then 1 else 0), (mp', w'))"
      "\<forall>d. container d mp' = (if d \<in> set (returned ?mp1 cs) then emptied (container d ?mp1) else container d ?mp1)"
      "\<forall>q. heap_get (regions w') q =
        (if \<exists>d \<in> set (returned ?mp1 cs). q \<in> set (blocks d ?mp1) then None else heap_get (regions w1) q)"
      "live_maps (trace w') = live_maps (trace w1) - fps w1 (concat (map (\<lambda>d. blocks d ?mp1) (returned ?mp1 cs))) \<and>
       live_mrs (trace w') = live_mrs (trace w1) - mrps w1 (concat (map (\<lambda>d. blocks d ?mp1) (returned ?mp1 cs))) \<and>
       length (regions w') = length (regions w1)"
      using Cons.IH [OF \<open>distinct cs\<close> ok disj] by blast
    note run = run0 [unfolded ret bl fpe]
    have "container d mp' = (if d \<in> set (c # returned mp cs) then emptied (container d mp) else container d mp)" for d
      using run(2) sub cont Cons.prems(1) by auto
    moreover have "heap_get (regions w') q = (if \<exists>d \<in> set (c # returned mp cs). q \<in> set (blocks d mp)
        then None else heap_get (regions w) q)" for q
      using run(3) heap by (auto simp: emptied_def)
    ultimately show ?thesis
      using d run(1,4) maps len True by (auto simp: diff_diff_add_mset)
  qed
qed

lemma blocks_disjoint:
  assumes "mp_inv (mp, w)" and "c \<noteq> d"
  shows "set (blocks c mp) \<inter> set (blocks d mp) = {}"
proof (rule ccontr)
  assume "\<not> ?thesis"
  then obtain p where "p \<in> set (blocks c mp)" "p \<in> set (blocks d mp)" by auto
  with mp_invD(3) [OF assms(1)] have "block_at (size_of c) p mp w" "block_at (size_of d) p mp w"
    by blast+
  then have "size_of c = size_of d" by (auto simp: block_at_def)
  with assms(2) show False by simp
qed

lemma mp_inv_chunk_ok: "mp_inv (mp, w) \<Longrightarrow> chunk_ok c mp w"
  using mp_invD block_at_deletable by (fastforce simp: chunk_ok_def)

definition all_blocks :: "memory_pool \<Rightarrow> ptr list" where
  "all_blocks mp = blocks Small mp @ blocks Medium mp @ blocks Large mp"

lemma ex_chunk: "(\<exists>c. P c) \<longleftrightarrow> P Small \<or> P Medium \<or> P Large"
  by (metis chunk.exhaust)

lemma all_chunk: "(\<forall>c. P c) \<longleftrightarrow> P Small \<and> P Medium \<and> P Large"
  by (metis chunk.exhaust)

lemma set_all_blocks: "p \<in> set (all_blocks mp) \<longleftrightarrow> (\<exists>c. p \<in> set (blocks c mp))"
  by (simp add: all_blocks_def ex_chunk)

lemma iterM_append: "iterM f (xs @ ys) = thenM (iterM f xs) (iterM f ys)"
  by (induction xs) (simp_all add: bindM_assoc)

lemma destroy_pool_run:
  assumes "giving_env E" and "mp_inv (mp, w)"
  shows "\<exists>mp' w'. destroy_pool E (mp, w) = Some (Ok (), (mp', w')) \<and>
    (\<forall>q. heap_get (regions w') q = (if q \<in> set (all_blocks mp) then None else heap_get (regions w) q)) \<and>
    live_maps (trace w') = live_maps (trace w) - fps w (all_blocks mp) \<and> live_mrs (trace w') = live_mrs (trace w) - mrps w (all_blocks mp)"
proof -
  let ?cs = "[Small, Medium, Large]"
  define gs where "gs = returned mp ?cs"
  have "\<forall>c \<in> set ?cs. chunk_ok c mp w" using mp_inv_chunk_ok [OF assms(2)] by blast
  from dealloc_all_run [OF assms(1) _ this] blocks_disjoint [OF assms(2)] obtain mp1 w1 res where
    d: "DeallocateList E (mp, w) = Some (Ok res, (mp1, w1))"
    and cont: "\<forall>c. container c mp1 = (if c \<in> set gs then emptied (container c mp) else container c mp)"
    and heap: "\<forall>q. heap_get (regions w1) q =
      (if \<exists>c \<in> set gs. q \<in> set (blocks c mp) then None else heap_get (regions w) q)"
    and maps: "live_maps (trace w1) = live_maps (trace w) - fps w (concat (map (\<lambda>c. blocks c mp) gs))"
      "live_mrs (trace w1) = live_mrs (trace w) - mrps w (concat (map (\<lambda>c. blocks c mp) gs))"
    by (auto simp: DeallocateList_all gs_def)
  have bl: "blocks c mp1 = (if c \<in> set gs then [] else blocks c mp)" for c
    unfolding cont [rule_format, of c] by (simp add: emptied_def)
  let ?rest = "blocks Large mp1 @ blocks Medium mp1 @ blocks Small mp1"
  have dist: "distinct (blocks c mp)" for c
    using mp_invD(1) [OF assms(2)] by (auto simp: pool_inv_def lists_ok_def)
  have same: "heap_get (regions w1) q = heap_get (regions w) q" if q: "q \<in> set (blocks c mp1)" for c q
  proof -
    from q bl have c: "c \<notin> set gs" "q \<in> set (blocks c mp)" by (auto split: if_splits)
    with blocks_disjoint [OF assms(2)] have "\<not> (\<exists>d \<in> set gs. q \<in> set (blocks d mp))" by (metis disjoint_iff)
    with heap show ?thesis by simp
  qed
  have del: "\<forall>p \<in> set ?rest. deletable w1 p"
  proof
    fix p assume "p \<in> set ?rest"
    then obtain c where c: "p \<in> set (blocks c mp1)" by (auto simp del: container.simps)
    with bl have "p \<in> set (blocks c mp)" by (auto split: if_splits)
    with mp_inv_chunk_ok [OF assms(2)] have "deletable w p" by (simp add: chunk_ok_def)
    with same [OF c] deletable_cong show "deletable w1 p" by blast
  qed
  have "distinct ?rest"
    unfolding bl using dist blocks_disjoint [OF assms(2), of Large Medium]
      blocks_disjoint [OF assms(2), of Large Small] blocks_disjoint [OF assms(2), of Medium Small]
    by (simp add: Int_Un_distrib del: container.simps)
  from iter_delete_good [OF assms(1) this del, of mp1] obtain w2 where
    it: "iterM (\<lambda>p. on_world (delete_region E p)) ?rest (mp1, w1) = Some (Ok (), (mp1, w2))"
    and heap2: "\<forall>q. heap_get (regions w2) q = (if q \<in> set ?rest then None else heap_get (regions w1) q)"
    and maps2: "live_maps (trace w2) = live_maps (trace w1) - fps w1 ?rest \<and> live_mrs (trace w2) = live_mrs (trace w1) - mrps w1 ?rest" by blast
  have "destroy_pool E (mp, w) = Some (Ok (), (mp1, w2))"
    using d it by (simp add: destroy_pool_def iterM_append)
  moreover have "heap_get (regions w2) q =
      (if q \<in> set (all_blocks mp) then None else heap_get (regions w) q)" for q
  proof -
    have "q \<in> set ?rest \<longleftrightarrow> (\<exists>c. q \<in> set (blocks c mp1))" by (auto simp: ex_chunk)
    then have "q \<in> set (all_blocks mp) \<longleftrightarrow> (\<exists>c \<in> set gs. q \<in> set (blocks c mp)) \<or> q \<in> set ?rest"
      unfolding set_all_blocks bl by auto
    with heap heap2 show ?thesis by (simp del: set_append container.simps)
  qed
  moreover have "fps w1 ?rest = fps w ?rest" "mrps w1 ?rest = mrps w ?rest"
    using same by (intro fps_cong mrps_cong; auto simp del: container.simps)+
  then have "live_maps (trace w2) = live_maps (trace w) - (fps w (concat (map (\<lambda>c. blocks c mp) gs)) + fps w ?rest)"
    "live_mrs (trace w2) = live_mrs (trace w) - (mrps w (concat (map (\<lambda>c. blocks c mp) gs)) + mrps w ?rest)"
    using maps maps2 by (simp_all add: diff_diff_add_mset)
  moreover have "fps w (concat (map (\<lambda>c. blocks c mp) gs)) + fps w ?rest = fps w (all_blocks mp)"
    "mrps w (concat (map (\<lambda>c. blocks c mp) gs)) + mrps w ?rest = mrps w (all_blocks mp)"
    unfolding all_blocks_def bl gs_def by (simp_all add: ac_simps)
  ultimately show ?thesis by metis
qed

section \<open>Properties\<close>

subsection \<open>Life of a pool\<close>

lemma new_pool_facts:
  "chunk_size (container c (new_pool pd)) = size_of c"
  "free_list (container c (new_pool pd)) = []" "block_list (container c (new_pool pd)) = []"
  by (cases c; simp add: new_pool_def new_pool_container_def)+

lemma pool_constructor':
  assumes "good_env E k" and "size (live_maps (trace w)) + 100 \<le> k"
  shows "\<exists>mp w'. RdmaMemoryPool E pd chunk_sz init_chunks maxchunks w = Some (Ok mp, w') \<and>
    mp_inv (mp, w') \<and> protection_domain mp = pd \<and>
    (\<forall>c. length (free_list (container c mp)) = count_of c \<and> outstanding (container c mp) = {}) \<and>
    live_maps (trace w') = live_maps (trace w) + fps w' (all_blocks mp) \<and> live_mrs (trace w') = live_mrs (trace w) + mrps w' (all_blocks mp) \<and>
    length (regions w') = length (regions w) + 84"
proof -
  have "lists_live (new_pool pd) w" by (simp add: lists_live_def new_pool_facts)
  from allocate_pools_good [OF assms this] new_pool_facts obtain news mp w' where
    run: "allocate_pools E (new_pool pd, w) = Some (Ok (), (mp, w'))"
    and c: "\<forall>c. container c mp = refilled (container c (new_pool pd)) (news c) \<and>
       length (news c) = count_of c \<and> distinct (news c) \<and>
       (\<forall>p \<in> set (news c). block_at (size_of c) p mp w')"
    and pd: "protection_domain mp = protection_domain (new_pool pd)"
    and maps: "live_maps (trace w') = live_maps (trace w) + fps w' (news Small) +
      fps w' (news Medium) + fps w' (news Large) \<and> live_mrs (trace w') = live_mrs (trace w) + mrps w' (news Small) +
      mrps w' (news Medium) + mrps w' (news Large) \<and> length (regions w') = length (regions w) + 84" by blast
  have "mp_inv (mp, w')"
    by (rule filled_mp_inv [of mp "new_pool pd" news]) (use c new_pool_facts in blast)+
  moreover have lists: "free_list (container c mp) = news c \<and> block_list (container c mp) = news c" for c
    using c by (simp add: refilled_def new_pool_facts)
  moreover have "outstanding (container c mp) = {}" for c
    using lists by (simp add: outstanding_def)
  moreover have "RdmaMemoryPool E pd chunk_sz init_chunks maxchunks w = Some (Ok mp, w')"
    using run by (simp add: RdmaMemoryPool_def construct_run)
  ultimately show ?thesis using c pd maps
    by (simp add: all_blocks_def new_pool_def add.assoc del: container.simps)
qed

text \<open>C22: the constructor fills the pool: 64 blocks of 4 kB, 16 of 16 kB and 4 of 1 MB, all of
  them free, registered, and found by their address, and it owns the registration
  and the mapping of every block and nothing else.  The three arguments that are meant to size the pool have no
  influence.\<close>

theorem pool_constructor:
  assumes "good_env E k" and "size (live_maps (trace w)) + 100 \<le> k"
  shows "\<exists>mp w'. RdmaMemoryPool E pd chunk_sz init_chunks maxchunks w = Some (Ok mp, w') \<and>
    mp_inv (mp, w') \<and> protection_domain mp = pd \<and>
    (\<forall>c. length (free_list (container c mp)) = count_of c \<and> outstanding (container c mp) = {}) \<and>
    live_maps (trace w') = live_maps (trace w) + fps w' (all_blocks mp) \<and>
    live_mrs (trace w') = live_mrs (trace w) + mrps w' (all_blocks mp)"
  using pool_constructor' [OF assms] by blast

theorem pool_constructor_witness:
  "\<exists>mp w'. RdmaMemoryPool env_fresh 9 1 2 3 init_mworld = Some (Ok mp, w') \<and> mp_inv (mp, w') \<and>
     length (free_list (small mp)) = 64"
proof -
  have "size (live_maps (trace init_mworld)) + 100 \<le> (200 :: nat)" by simp
  from pool_constructor [OF env_fresh_good this, of 9 1 2 3] show ?thesis
    by (metis container.simps(1) count_of.simps(1))
qed

text \<open>A pool for the witnesses below: what the constructor leaves.\<close>

definition fresh_pool :: "memory_pool \<times> mworld" where
  "fresh_pool = (case RdmaMemoryPool env_fresh 9 1 2 3 init_mworld of
     Some (Ok mp, w) \<Rightarrow> (mp, w) | _ \<Rightarrow> (new_pool 9, init_mworld))"

lemma fresh_pool_facts:
  obtains mp w where "fresh_pool = (mp, w)" "mp_inv (mp, w)"
    "\<forall>c. length (free_list (container c mp)) = count_of c" "\<forall>c. outstanding (container c mp) = {}"
    "live_maps (trace w) = fps w (all_blocks mp)"
proof -
  have "size (live_maps (trace init_mworld)) + 100 \<le> (200 :: nat)" by simp
  from pool_constructor' [OF env_fresh_good this, of 9 1 2 3] that show thesis
    by (auto simp: fresh_pool_def)
qed

text \<open>The destructor destroys every block of the pool and gives its registration and its
  mapping back, whether the block was returned to the pool or not: pointers that are
  still handed out dangle.\<close>

theorem pool_destructor:
  assumes "giving_env E" and "mp_inv (mp, w)"
  shows "\<exists>mp' w'. destroy_pool E (mp, w) = Some (Ok (), (mp', w')) \<and>
    (\<forall>q. heap_get (regions w') q = (if q \<in> set (all_blocks mp) then None else heap_get (regions w) q)) \<and>
    live_maps (trace w') = live_maps (trace w) - fps w (all_blocks mp) \<and>
    live_mrs (trace w') = live_mrs (trace w) - mrps w (all_blocks mp)"
  using assms by (rule destroy_pool_run)

theorem pool_destructor_witness:
  "\<exists>mp' w'. destroy_pool env_fresh fresh_pool = Some (Ok (), (mp', w')) \<and> live_maps (trace w') = {#}"
proof -
  obtain mp w where f: "fresh_pool = (mp, w)" "mp_inv (mp, w)"
    "live_maps (trace w) = fps w (all_blocks mp)" by (rule fresh_pool_facts)
  from pool_destructor [OF good_giving [OF env_fresh_good] f(2)] f(1,3) show ?thesis by auto
qed

subsection \<open>Allocation and return\<close>

lemma pop_chunk:
  assumes "mp_inv (mp, w)" and "on_chunk c pop (mp, w) = Some (Ok p, (mp', w'))"
  shows "mp_inv (mp', w') \<and> w' = w \<and> p \<in> set (free_list (container c mp)) \<and>
    p \<in> outstanding (container c mp') \<and> block_at (size_of c) p mp' w' \<and>
    (\<exists>pc. mp' = set_container c pc mp)"
proof -
  from assms(2) obtain pc s where p: "pop (container c mp, (mp, w)) = Some (Ok p, (pc, s))"
    and mp': "mp' = set_container c pc (fst s)" "w' = snd s"
    by (auto simp: on_chunk_run split: run_splits)
  from pop_inv [OF mp_invD(1) [OF assms(1)] p] have
    pc: "pool_inv pc" "s = (mp, w)" "p \<in> set (free_list (container c mp))"
      "block_list pc = block_list (container c mp)" "chunk_size pc = chunk_size (container c mp)"
      "outstanding pc = insert p (outstanding (container c mp))" by blast+
  have "mp_inv (mp', w')"
    using assms(1) pc mp' by (auto simp: mp_inv_def block_at_def)
  moreover have "block_at (size_of c) p mp' w'"
    using free_in_blocks [OF assms(1) pc(3)] pc mp' by (simp add: block_at_def)
  ultimately show ?thesis using pc mp' by auto
qed

text \<open>C21: a request of at most 1 MB that is served gets a block of the smallest chunk that is
  large enough; the block was free, is handed out now, and the pool stays consistent.\<close>

theorem allocateRegion_serves:
  assumes "mp_inv (mp, w)" and "n \<le> 0x100000"
    and "allocateRegion E n (mp, w) = Some (Ok p, (mp', w'))"
  shows "\<exists>c. n \<le> size_of c \<and> (\<forall>d. n \<le> size_of d \<longrightarrow> c \<le> d) \<and> block_at (size_of c) p mp' w' \<and>
    p \<in> set (free_list (container c mp)) \<and> p \<in> outstanding (container c mp') \<and> mp_inv (mp', w')"
proof -
  from assms(2) have "chunk_for n \<noteq> None" by (simp add: chunk_for_None)
  then obtain c where c: "chunk_for n = Some c" by auto
  with allocateRegion_chunk [OF assms(1)] assms(3)
  have "on_chunk c pop (mp, w) = Some (Ok p, (mp', w'))" by simp
  from pop_chunk [OF assms(1) this] c chunk_for_least show ?thesis by blast
qed

lemma allocateRegion_free:
  assumes "mp_inv (mp, w)" and "canAllocateRegionUnsafe n mp" and "n \<le> 0x100000"
  obtains c p mp' where "chunk_for n = Some c"
    "allocateRegion E n (mp, w) = on_chunk c pop (mp, w)"
    "on_chunk c pop (mp, w) = Some (Ok p, (mp', w))"
proof -
  from assms(3) have "chunk_for n \<noteq> None" by (simp add: chunk_for_None)
  then obtain c where c: "chunk_for n = Some c" by auto
  with assms(2) canAllocate_chunk [OF assms(1)] have "free_list (container c mp) \<noteq> []" by simp
  then have "\<exists>p mp'. on_chunk c pop (mp, w) = Some (Ok p, (mp', w))"
    by (simp add: run_simps)
  with c allocateRegion_chunk [OF assms(1), of E n] that show thesis by auto
qed

lemma roundtrip_chunk:
  assumes "mp_inv (mp, w)" and "on_chunk c pop (mp, w) = Some (Ok p, (mp', w))"
  shows "deallocate E p (mp', w) = Some (Ok (), (mp, w))"
proof -
  from pop_chunk [OF assms] have inv: "mp_inv (mp', w)" "block_at (size_of c) p mp' w"
    and ne: "free_list (container c mp) \<noteq> []" by auto
  with assms(2) have mp': "p = last (free_list (container c mp))"
    "mp' = set_container c ((container c mp)\<lparr>free_list := butlast (free_list (container c mp)),
        region_use_count := region_use_count (container c mp) + 1\<rparr>) mp"
    by (auto simp: run_simps)
  have "p \<notin> set (butlast (free_list (container c mp)))"
    using mp_invD(1) [OF assms(1), of c] ne mp'(1)
    by (metis append_butlast_last_id distinct_butlast not_distinct_conv_prefix lists_ok_def pool_inv_def
        append_Nil2 distinct.simps(2) distinct_append disjoint_insert(1) list.set(2))
  with deallocate_chunk [OF inv] mp' ne show ?thesis
    by (simp add: run_simps)
qed

text \<open>C13: allocation and return are inverse: when the pool can serve a request of at most
  1 MB, the region it gives, and the address \<open>allocate\<close> gives, can be handed back, and
  that restores the pool exactly.\<close>

theorem region_roundtrip:
  assumes "mp_inv (mp, w)" and "canAllocateRegionUnsafe n mp" and "n \<le> 0x100000"
  shows "\<exists>p a mp1. allocateRegion E n (mp, w) = Some (Ok p, (mp1, w)) \<and>
    allocate_address E n (mp, w) = Some (Ok a, (mp1, w)) \<and>
    deallocate E p (mp1, w) = Some (Ok (), (mp, w)) \<and>
    deallocate_address E a (mp1, w) = Some (Ok (), (mp, w))"
proof -
  obtain c p mp1 where c: "allocateRegion E n (mp, w) = on_chunk c pop (mp, w)"
    and run: "on_chunk c pop (mp, w) = Some (Ok p, (mp1, w))"
    by (rule allocateRegion_free [OF assms])
  from pop_chunk [OF assms(1) run] obtain ob mr where
    b: "heap_get (regions w) p = Some ob" "region ob = Some mr" "pointer_map mp1 (mr_addr mr) = Some p"
    by (auto simp: block_at_def)
  then have "on_region p getAddress w = Some (Ok (mr_addr mr), w)"
    by (simp add: on_heap_run getAddress_def through_region_def run_simps)
  with c run mp_inv_sizes(3) [OF assms(1)] assms(3)
  have "allocate_address E n (mp, w) = Some (Ok (mr_addr mr), (mp1, w))"
    by (auto simp: allocate_address_def run_simps)
  moreover have "RegionFromAddress (mr_addr mr) (mp1, w) = Some (Ok p, (mp1, w))"
    using b(3) by (simp add: RegionFromAddress_def run_simps)
  ultimately show ?thesis
    using c run roundtrip_chunk [OF assms(1) run, of E] by (auto simp: deallocate_address_def)
qed

theorem region_roundtrip_witness:
  "\<exists>p a mp1 w. allocateRegion env_fresh 5000 fresh_pool = Some (Ok p, (mp1, w)) \<and>
     allocate_address env_fresh 5000 fresh_pool = Some (Ok a, (mp1, w)) \<and>
     deallocate_address env_fresh a (mp1, w) = Some (Ok (), fresh_pool)"
proof -
  obtain mp w where f: "fresh_pool = (mp, w)" "mp_inv (mp, w)"
    "\<forall>c. length (free_list (container c mp)) = count_of c" by (rule fresh_pool_facts)
  from f(3) [rule_format, of Medium] have "free_list (container Medium mp) \<noteq> []" by auto
  then have "canAllocateRegionUnsafe 5000 mp"
    unfolding canAllocate_chunk [OF f(2)] by (simp add: chunk_for_def)
  from region_roundtrip [OF f(2) this, of env_fresh] show ?thesis unfolding f(1) by auto
qed

theorem allocateRegion_serves_witness:
  "\<exists>p mp' w'. allocateRegion env_fresh 5000 fresh_pool = Some (Ok p, (mp', w')) \<and>
     mp_inv (mp', w') \<and> p \<in> set (free_list (medium (fst fresh_pool)))"
proof -
  obtain mp w where f: "fresh_pool = (mp, w)" "mp_inv (mp, w)"
    "\<forall>c. length (free_list (container c mp)) = count_of c" by (rule fresh_pool_facts)
  from f(3) [rule_format, of Medium] have "free_list (container Medium mp) \<noteq> []" by auto
  then have can: "canAllocateRegionUnsafe 5000 mp"
    unfolding canAllocate_chunk [OF f(2)] by (simp add: chunk_for_def)
  obtain c p mp' where "allocateRegion env_fresh 5000 (mp, w) = on_chunk c pop (mp, w)"
    "on_chunk c pop (mp, w) = Some (Ok p, (mp', w))"
    by (rule allocateRegion_free [OF f(2) can]) simp_all
  then have run: "allocateRegion env_fresh 5000 (mp, w) = Some (Ok p, (mp', w))" by simp
  have "(5000 :: u64) \<le> 0x100000" by simp
  from allocateRegion_serves [OF f(2) this run] obtain c where
    c: "(5000 :: u64) \<le> size_of c" "\<forall>d. (5000 :: u64) \<le> size_of d \<longrightarrow> c \<le> d"
    and r: "p \<in> set (free_list (container c mp))" "mp_inv (mp', w)" by blast
  from c(2) have "c \<le> Medium" by simp
  with c(1) have "c = Medium" by (cases c) (simp_all add: less_eq_chunk_def)
  with r run show ?thesis unfolding f(1) by auto
qed

text \<open>C32: \<open>canAllocateRegionUnsafe\<close> is exact for one thread: it answers no precisely when
  \<open>allocateRegion\<close> would wait for a block that nobody returns.\<close>

theorem canAllocate_exact:
  assumes "mp_inv (mp, w)"
  shows "canAllocateRegionUnsafe n mp \<longleftrightarrow> allocateRegion E n (mp, w) \<noteq> None"
proof (cases "chunk_for n")
  case None
  obtain res r' w' where "allocate E (protection_domain mp) n
      (setTempRegion empty_region, w\<lparr>regions := heap_put (Suc (length (regions w)))
        (setTempRegion empty_region) (heap_new empty_region (regions w))\<rparr>) = Some (Ok res, (r', w'))"
    using allocate_total by blast
  moreover from allocate_regions [OF this]
  have "regions w' = heap_put (Suc (length (regions w))) (setTempRegion empty_region)
      (heap_new empty_region (regions w))" by simp
  ultimately show ?thesis
    unfolding canAllocate_chunk [OF assms] allocateRegion_chunk [OF assms] None
    by (auto simp: AllocateTemporaryBlock_def run_simps on_heap_run heap_get_new heap_get_put
        getAddress_def through_region_def split: option.split)
next
  case (Some c)
  then show ?thesis
    unfolding canAllocate_chunk [OF assms] allocateRegion_chunk [OF assms]
    by (auto simp: run_simps)
qed

theorem canAllocate_exact_witness:
  "allocateRegion env_fresh 5000 fresh_pool \<noteq> None"
proof -
  obtain mp w where f: "fresh_pool = (mp, w)" "mp_inv (mp, w)"
    "\<forall>c. length (free_list (container c mp)) = count_of c" by (rule fresh_pool_facts)
  from f(3) [rule_format, of Medium] have "free_list (container Medium mp) \<noteq> []" by auto
  then have "canAllocateRegionUnsafe 5000 mp"
    unfolding canAllocate_chunk [OF f(2)] by (simp add: chunk_for_def)
  with canAllocate_exact [OF f(2)] f(1) show ?thesis by auto
qed

subsection \<open>Temporary regions\<close>

lemma allocate_temporary:
  assumes "good_env E k" and "size (live_maps (trace w)) + 16 \<le> k"
  defines "p \<equiv> Suc (length (regions w))"
  obtains mr w' where "AllocateTemporaryBlock E n (mp, w) =
      Some (Ok p, (mp\<lparr>temp_regions := temp_regions mp + 1\<rparr>, w'))"
    "heap_get (regions w') p = Some \<lparr>region = Some mr, frags = frags (the (heap_get (regions w') p)),
       fd = fd (the (heap_get (regions w') p)), flags = BLOCK_TEMP,
       messageLength = messageLength (the (heap_get (regions w') p))\<rparr>"
    "mr_length mr = n" "\<forall>q. q \<noteq> p \<longrightarrow> heap_get (regions w') q = heap_get (regions w) q"
    "live_maps (trace w') = add_mset (mr_addr mr, n) (live_maps (trace w))"
    "live_mrs (trace w') = add_mset mr (live_mrs (trace w))"
proof -
  let ?t = "setTempRegion empty_region"
  let ?w1 = "w\<lparr>regions := heap_put p ?t (heap_new empty_region (regions w))\<rparr>"
  have "size (live_maps (trace ?w1)) + 16 \<le> k" using assms(2) by simp
  from allocate_good [OF assms(1) this] obtain r' w2 mr where
    al: "allocate E (protection_domain mp) n (?t, ?w1) = Some (Ok 0, (r', w2))"
    and r': "region r' = Some mr" "mr_length mr = n" "flags r' = flags ?t"
    and maps: "live_maps (trace w2) = add_mset (mr_addr mr, n) (live_maps (trace w))"
      "live_mrs (trace w2) = add_mset mr (live_mrs (trace w))"
    by fastforce
  from allocate_regions [OF al]
  have rg: "regions w2 = heap_put p ?t (heap_new empty_region (regions w))" by simp
  let ?w3 = "w2\<lparr>regions := heap_put p r' (regions w2)\<rparr>"
  from assms(1) have "\<not> logging E" by (simp add: good_env_def)
  then have run: "AllocateTemporaryBlock E n (mp, w) =
      Some (Ok p, (mp\<lparr>temp_regions := temp_regions mp + 1\<rparr>, ?w3))"
    using al rg by (simp add: AllocateTemporaryBlock_def run_simps on_heap_run heap_get_new heap_get_put p_def)
  have g: "heap_get (regions ?w3) q = (if q = p then Some r' else heap_get (regions w) q)" for q
    using rg by (simp add: heap_get_put heap_get_new p_def)
  have "flags r' = BLOCK_TEMP"
    using r'(3) by (simp add: setTempRegion_def empty_region_def)
  with g [of p] r'(1) have "heap_get (regions ?w3) p = Some \<lparr>region = Some mr, frags = frags r', fd = fd r',
      flags = BLOCK_TEMP, messageLength = messageLength r'\<rparr>" by (cases r') simp
  with run r'(2) maps g that [of ?w3 mr] show thesis by simp
qed

text \<open>C33: a request above 1 MB gets a region of its own, outside the chunks and counted in
  \<open>temp_regions\<close>.  Returning it deletes the region, restores the pool, and gives its
  registration and (below 4 GiB) its mapping back.\<close>

theorem temporary_roundtrip:
  assumes "good_env E k" and "mp_inv (mp, w)" and "size (live_maps (trace w)) + 16 \<le> k"
    and "0x100000 < n" and "unat n < 2 ^ 32"
  shows "\<exists>p mp1 w1 w2. allocateRegion E n (mp, w) = Some (Ok p, (mp1, w1)) \<and>
    temp_regions mp1 = temp_regions mp + 1 \<and> p \<notin> heap_live (regions w) \<and>
    on_region p getLength w1 = Some (Ok (ucast n), w1) \<and>
    deallocate E p (mp1, w1) = Some (Ok (), (mp, w2)) \<and>
    (\<forall>q. heap_get (regions w2) q = heap_get (regions w) q) \<and>
    live_maps (trace w2) = live_maps (trace w) \<and> live_mrs (trace w2) = live_mrs (trace w)"
proof -
  let ?p = "Suc (length (regions w))"
  let ?mp1 = "mp\<lparr>temp_regions := temp_regions mp + 1\<rparr>"
  obtain mr w1 where al: "AllocateTemporaryBlock E n (mp, w) = Some (Ok ?p, (?mp1, w1))"
    and g: "heap_get (regions w1) ?p = Some \<lparr>region = Some mr,
       frags = frags (the (heap_get (regions w1) ?p)), fd = fd (the (heap_get (regions w1) ?p)),
       flags = BLOCK_TEMP, messageLength = messageLength (the (heap_get (regions w1) ?p))\<rparr>"
    and len: "mr_length mr = n" and frame: "\<forall>q. q \<noteq> ?p \<longrightarrow> heap_get (regions w1) q = heap_get (regions w) q"
    and maps: "live_maps (trace w1) = add_mset (mr_addr mr, n) (live_maps (trace w))"
      "live_mrs (trace w1) = add_mset mr (live_mrs (trace w))"
    by (rule allocate_temporary [OF assms(1,3), of n mp]) (rule that; assumption)
  from assms(4) have "chunk_for n = None" by (simp add: chunk_for_None)
  with al allocateRegion_chunk [OF assms(2)]
  have run: "allocateRegion E n (mp, w) = Some (Ok ?p, (?mp1, w1))" by simp
  obtain ob where ob: "heap_get (regions w1) ?p = Some ob" "region ob = Some mr" "flags ob = BLOCK_TEMP"
    using g by (metis mregion.select_convs(1,4))
  then have ty: "isTempRegion ob" "\<not> isUserRegion ob"
    by (simp_all add: isTempRegion_def isUserRegion_def BLOCK_TEMP_def BLOCK_USER_def)
  from assms(1) have e: "\<not> logging E" "dereg_ok E" by (auto simp: good_env_def)
  from release_gives_back' [OF e ob(2), of w1] ty(2) obtain w2 where
    rel: "release E (ob, w1) = Some (Ok 0, (ob\<lparr>region := None\<rparr>, w2))"
    and maps2: "live_mrs (trace w2) = live_mrs (trace w1) - {#mr#}"
      "live_maps (trace w2) = live_maps (trace w1) - {#(mr_addr mr, ucast (mr_length32 mr))#}"
    by auto
  from release_regions [OF rel] have rg: "regions w2 = regions w1" .
  let ?w3 = "w2\<lparr>regions := heap_free ?p (heap_put ?p (ob\<lparr>region := None\<rparr>) (regions w1))\<rparr>"
  have "deallocate E ?p (?mp1, w1) = Some (Ok (), (mp, ?w3))"
    using ob ty rel rg by (simp add: deallocate_def delete_region_def run_simps on_heap_run)
  moreover have "heap_get (regions ?w3) q = heap_get (regions w) q" for q
    using ob(1) frame by (simp add: heap_get_free heap_get_put)
  moreover have "on_region ?p getLength w1 = Some (Ok (ucast n), w1)"
    using ob len by (simp add: on_heap_run getLength_def through_region_def run_simps mr_length32_def)
  moreover have "live_maps (trace ?w3) = live_maps (trace w)"
      "live_mrs (trace ?w3) = live_mrs (trace w)"
    using maps maps2 len assms(5) by (simp_all add: mr_length32_def ucast_ucast_small)
  ultimately show ?thesis using run by (intro exI [of _ ?p] exI) auto
qed

lemma size_fps_le: "size (fps w ps) \<le> length ps"
  by (induction ps) (auto simp: fp_def split: option.split)

lemma fresh_pool_size: "size (live_maps (trace (snd fresh_pool))) \<le> 84"
proof -
  obtain mp w where f: "fresh_pool = (mp, w)" "mp_inv (mp, w)"
    "\<forall>c. length (free_list (container c mp)) = count_of c" "\<forall>c. outstanding (container c mp) = {}"
    "live_maps (trace w) = fps w (all_blocks mp)" by (rule fresh_pool_facts)
  have "length (blocks c mp) = count_of c" for c
  proof -
    from mp_invD(1) [OF f(2), of c] f(4) have "set (free_list (container c mp)) = set (blocks c mp)"
        "distinct (free_list (container c mp))" "distinct (blocks c mp)"
      by (auto simp: pool_inv_def lists_ok_def outstanding_def)
    with f(3) show ?thesis by (metis distinct_card)
  qed
  then have "length (all_blocks mp) = 84" by (simp add: all_blocks_def del: container.simps)
  with size_fps_le [of w "all_blocks mp"] f(5) have "size (live_maps (trace w)) \<le> 84" by simp
  then show ?thesis unfolding f(1) by simp
qed

theorem temporary_roundtrip_witness:
  "\<exists>p mp1 w1 w2. allocateRegion env_fresh 0x200000 fresh_pool = Some (Ok p, (mp1, w1)) \<and>
     deallocate env_fresh p (mp1, w1) = Some (Ok (), (fst fresh_pool, w2))"
proof -
  obtain mp w where f: "fresh_pool = (mp, w)" "mp_inv (mp, w)" by (rule fresh_pool_facts)
  have s: "size (live_maps (trace w)) + 16 \<le> 200" using fresh_pool_size [unfolded f(1)] by simp
  have n: "(0x100000 :: u64) < 0x200000" "unat (0x200000 :: u64) < 2 ^ 32" by simp_all
  from temporary_roundtrip [OF env_fresh_good f(2) s n] show ?thesis unfolding f(1) by auto
qed

subsection \<open>Changing the protection domain\<close>

lemma mp_inv_lists_live: "mp_inv (mp, w) \<Longrightarrow> lists_live mp w"
  using mp_invD(3) free_in_blocks unfolding lists_live_def heap_live_def block_at_def by fastforce

lemma blocks_in_heap:
  assumes "mp_inv (mp, w)" and "p \<in> set (all_blocks mp)"
  shows "p \<le> length (regions w)"
proof -
  from assms(2) obtain c where "p \<in> set (blocks c mp)" by (auto simp: set_all_blocks)
  with mp_invD(3) [OF assms(1)] have "block_at (size_of c) p mp w" by blast
  then show ?thesis by (auto simp: block_at_def heap_get_def split: if_splits)
qed

text \<open>With every block back, \<open>DeallocateList\<close> empties the whole pool.\<close>

lemma dealloc_all_returned:
  assumes "giving_env E" and "mp_inv (mp, w)" and "\<forall>c. outstanding (container c mp) = {}"
  shows "\<exists>mp1 w1. DeallocateList E (mp, w) = Some (Ok 1, (mp1, w1)) \<and>
    (\<forall>c. container c mp1 = emptied (container c mp)) \<and>
    (\<forall>q. heap_get (regions w1) q = (if q \<in> set (all_blocks mp) then None else heap_get (regions w) q)) \<and>
    live_maps (trace w1) = live_maps (trace w) - fps w (all_blocks mp) \<and>
    live_mrs (trace w1) = live_mrs (trace w) - mrps w (all_blocks mp) \<and> length (regions w1) = length (regions w)"
proof -
  let ?cs = "[Small, Medium, Large]"
  have all: "c \<in> set ?cs" for c by (cases c) simp_all
  have "\<forall>c \<in> set ?cs. chunk_ok c mp w" using mp_inv_chunk_ok [OF assms(2)] by blast
  moreover have ret: "returned mp ?cs = ?cs" using assms(3) by (simp del: container.simps)
  moreover have "distinct ?cs" by simp
  ultimately obtain mp1 w1 where
    "dealloc_all E ?cs (mp, w) = Some (Ok (if ?cs = ?cs then 1 else 0), (mp1, w1))"
    and cont: "\<forall>c. container c mp1 = (if c \<in> set ?cs then emptied (container c mp) else container c mp)"
    and heap: "\<forall>q. heap_get (regions w1) q =
      (if \<exists>c \<in> set ?cs. q \<in> set (blocks c mp) then None else heap_get (regions w) q)"
    and "live_maps (trace w1) = live_maps (trace w) - fps w (concat (map (\<lambda>c. blocks c mp) ?cs)) \<and>
      live_mrs (trace w1) = live_mrs (trace w) - mrps w (concat (map (\<lambda>c. blocks c mp) ?cs)) \<and>
      length (regions w1) = length (regions w)"
    using dealloc_all_run [OF assms(1), of ?cs mp w, unfolded ret] blocks_disjoint [OF assms(2)] by blast
  moreover have "\<forall>c. container c mp1 = emptied (container c mp)" using cont all by metis
  moreover have "(\<exists>c \<in> set ?cs. q \<in> set (blocks c mp)) \<longleftrightarrow> q \<in> set (all_blocks mp)" for q
    unfolding set_all_blocks using all by blast
  ultimately show ?thesis by (simp add: DeallocateList_all all_blocks_def del: dealloc_all.simps container.simps)
qed

text \<open>C20: when every block is back and the machine has memory to spare, \<open>setProtectionDomain\<close> rebuilds the pool in the new domain: the
  region objects of all old blocks are destroyed, their registrations and mappings are given
  back, and every container has its full number of new blocks, registered anew and all free.
  The use counts are zero, and the map of addresses leads to every new block.\<close>

theorem setProtectionDomain_rebuilds:
  assumes "good_env E k" and "mp_inv (mp, w)" and "size (live_maps (trace w)) + 100 \<le> k"
    and "\<forall>c. outstanding (container c mp) = {}"
  shows "\<exists>mp' w'. setProtectionDomain E pd (mp, w) = Some (Ok (), (mp', w')) \<and>
    mp_inv (mp', w') \<and> protection_domain mp' = pd \<and>
    (\<forall>c. length (free_list (container c mp')) = count_of c \<and> outstanding (container c mp') = {} \<and>
       region_use_count (container c mp') = 0) \<and>
    (\<forall>p \<in> set (all_blocks mp). heap_get (regions w') p = None) \<and>
    (\<forall>p \<in> set (all_blocks mp'). heap_get (regions w) p = None) \<and>
    live_maps (trace w') = live_maps (trace w) - fps w (all_blocks mp) + fps w' (all_blocks mp') \<and>
    live_mrs (trace w') = live_mrs (trace w) - mrps w (all_blocks mp) + mrps w' (all_blocks mp')"
proof -
  from dealloc_all_returned [OF good_giving [OF assms(1)] assms(2,4)] obtain mp1 w1 where
    d: "DeallocateList E (mp, w) = Some (Ok 1, (mp1, w1))"
    and cont: "\<forall>c. container c mp1 = emptied (container c mp)"
    and heap: "\<forall>q. heap_get (regions w1) q = (if q \<in> set (all_blocks mp) then None else heap_get (regions w) q)"
    and maps: "live_maps (trace w1) = live_maps (trace w) - fps w (all_blocks mp)"
      "live_mrs (trace w1) = live_mrs (trace w) - mrps w (all_blocks mp)"
    and len: "length (regions w1) = length (regions w)" by blast
  let ?mp1 = "mp1\<lparr>protection_domain := pd\<rparr>"
  have "size (live_maps (trace w1)) \<le> size (live_maps (trace w))"
    unfolding maps by (rule size_mset_mono) simp
  with assms(3) have "size (live_maps (trace w1)) + 100 \<le> k" by linarith
  moreover have "lists_live ?mp1 w1" using cont by (simp add: lists_live_def emptied_def)
  moreover have "\<forall>c. chunk_size (container c ?mp1) = size_of c"
    using cont mp_invD(2) [OF assms(2)] by (simp add: emptied_def)
  ultimately obtain news mp' w' where
    run: "allocate_pools E (?mp1, w1) = Some (Ok (), (mp', w'))"
    and c: "\<forall>c. container c mp' = refilled (container c ?mp1) (news c) \<and>
       length (news c) = count_of c \<and> distinct (news c) \<and> set (news c) \<inter> heap_live (regions w1) = {} \<and>
       (\<forall>p \<in> set (news c). block_at (size_of c) p mp' w' \<and> length (regions w1) < p)"
    and frame: "\<forall>q. (\<forall>c. q \<notin> set (news c)) \<longrightarrow> heap_get (regions w') q = heap_get (regions w1) q"
    and pd: "protection_domain mp' = protection_domain ?mp1"
    and maps': "live_maps (trace w') = live_maps (trace w1) + fps w' (news Small) + fps w' (news Medium) +
      fps w' (news Large) \<and> live_mrs (trace w') = live_mrs (trace w1) + mrps w' (news Small) + mrps w' (news Medium) +
      mrps w' (news Large) \<and> length (regions w') = length (regions w1) + 84"
    using allocate_pools_good [OF assms(1), of w1 ?mp1] by blast
  have "mp_inv (mp', w')"
    by (rule filled_mp_inv [of mp' ?mp1 news])
       (use c cont mp_invD(2) [OF assms(2)] in \<open>simp_all add: emptied_def\<close>)
  moreover have lists: "free_list (container c mp') = news c" "blocks c mp' = news c"
    "region_use_count (container c mp') = 0" "outstanding (container c mp') = {}" for c
    using c cont by (simp_all add: refilled_def emptied_def outstanding_def)
  moreover have bl: "all_blocks mp' = news Small @ news Medium @ news Large"
    unfolding all_blocks_def lists ..
  have new: "length (regions w) < p" if "p \<in> set (all_blocks mp')" for p
    using that c len unfolding set_all_blocks lists by auto
  have old: "p \<le> length (regions w)" if "p \<in> set (all_blocks mp)" for p
    using that blocks_in_heap [OF assms(2)] by blast
  have "heap_get (regions w') p = None" if p: "p \<in> set (all_blocks mp)" for p
  proof -
    from old [OF p] new have "p \<notin> set (all_blocks mp')" by fastforce
    then have "\<forall>c. p \<notin> set (news c)" unfolding set_all_blocks lists by blast
    with frame heap p show ?thesis by simp
  qed
  moreover have "heap_get (regions w) p = None" if "p \<in> set (all_blocks mp')" for p
    using new [OF that] by (simp add: heap_get_def)
  moreover have "setProtectionDomain E pd (mp, w) = Some (Ok (), (mp', w'))"
    using d run by (simp add: setProtectionDomain_def)
  moreover have "live_maps (trace w') = live_maps (trace w) - fps w (all_blocks mp) + fps w' (all_blocks mp')"
    "live_mrs (trace w') = live_mrs (trace w) - mrps w (all_blocks mp) + mrps w' (all_blocks mp')"
    using maps maps' unfolding bl by (simp_all add: add.assoc)
  ultimately show ?thesis using c pd by (intro exI [of _ mp'] exI [of _ w']) (simp del: container.simps)
qed

theorem setProtectionDomain_rebuilds_witness:
  "\<exists>mp' w'. setProtectionDomain env_fresh 10 fresh_pool = Some (Ok (), (mp', w')) \<and>
     mp_inv (mp', w') \<and> protection_domain mp' = 10"
proof -
  obtain mp w where f: "fresh_pool = (mp, w)" "mp_inv (mp, w)" "\<forall>c. outstanding (container c mp) = {}"
    by (rule fresh_pool_facts)
  have "size (live_maps (trace w)) + 100 \<le> 200" using fresh_pool_size [unfolded f(1)] by simp
  from setProtectionDomain_rebuilds [OF env_fresh_good f(2) this f(3)] show ?thesis
    unfolding f(1) by blast
qed

text \<open>C39: with one small block handed out, \<open>setProtectionDomain\<close> frees nothing: the blocks of
  the old domain stay in the pool, a whole new set is added to them, and the use count of
  the small chunks is set to 0 while the block is still out.\<close>

theorem setProtectionDomain_outstanding:
  assumes "good_env E k" and "mp_inv (mp, w)" and "size (live_maps (trace w)) + 100 \<le> k"
    and "outstanding (small mp) \<noteq> {}"
  shows "\<exists>mp' w'. setProtectionDomain E pd (mp, w) = Some (Ok (), (mp', w')) \<and>
    (\<forall>c. (\<exists>news. blocks c mp' = blocks c mp @ news \<and>
       free_list (container c mp') = free_list (container c mp) @ news \<and> length news = count_of c) \<and>
       outstanding (container c mp') = outstanding (container c mp) \<and>
       region_use_count (container c mp') = 0)"
proof -
  have "DeallocateList E (mp, w) = Some (Ok 0, (mp, w))"
    using dealloc_chunk_refused [OF mp_inv_chunk_ok [OF assms(2)], of Small] assms(4)
    by (simp add: DeallocateList_all del: container.simps) simp
  moreover let ?mp1 = "mp\<lparr>protection_domain := pd\<rparr>"
  have ll: "lists_live mp w"
    using assms(2) by (rule mp_inv_lists_live)
  then have "lists_live ?mp1 w" by (simp add: lists_live_def)
  with assms(3) mp_invD(2) [OF assms(2)] obtain news mp' w' where
    run: "allocate_pools E (?mp1, w) = Some (Ok (), (mp', w'))"
    and c: "\<forall>c. container c mp' = refilled (container c ?mp1) (news c) \<and>
       length (news c) = count_of c \<and> set (news c) \<inter> heap_live (regions w) = {}"
    using allocate_pools_good [OF assms(1), of w ?mp1] by (simp del: container.simps) blast
  ultimately have "setProtectionDomain E pd (mp, w) = Some (Ok (), (mp', w'))"
    by (simp add: setProtectionDomain_def)
  moreover have "outstanding (container c mp') = outstanding (container c mp)" for c
    using c ll by (fastforce simp: refilled_def outstanding_def lists_live_def)
  ultimately show ?thesis using c by (auto simp: refilled_def simp del: container.simps)
qed

theorem setProtectionDomain_outstanding_witness:
  "\<exists>(s :: memory_pool \<times> mworld) mp' w'. setProtectionDomain env_fresh 10 s = Some (Ok (), (mp', w')) \<and>
     region_use_count (small mp') = 0 \<and> outstanding (small mp') \<noteq> {}"
proof -
  obtain mp w where f: "fresh_pool = (mp, w)" "mp_inv (mp, w)"
    "\<forall>c. length (free_list (container c mp)) = count_of c" by (rule fresh_pool_facts)
  from f(3) [rule_format, of Small] have "free_list (container Small mp) \<noteq> []" by auto
  then obtain p mp1 where "on_chunk Small pop (mp, w) = Some (Ok p, (mp1, w))"
    by (auto simp: run_simps)
  from pop_chunk [OF f(2) this] have inv: "mp_inv (mp1, w)" "outstanding (small mp1) \<noteq> {}" by auto
  have "size (live_maps (trace w)) + 100 \<le> 200" using fresh_pool_size [unfolded f(1)] by simp
  from setProtectionDomain_outstanding [OF env_fresh_good inv(1) this inv(2), of 10]
  obtain mp' w' where "setProtectionDomain env_fresh 10 (mp1, w) = Some (Ok (), (mp', w'))"
    "outstanding (container Small mp') = outstanding (container Small mp1)"
    "region_use_count (container Small mp') = 0" by blast
  with inv(2) show ?thesis by (intro exI [of _ "(mp1, w)"] exI [of _ mp'] exI [of _ w']) simp
qed

subsection \<open>Failures\<close>

text \<open>When registration fails, building the pool never reaches the error branch of
  \<open>AllocatePool\<close>: the first block reads its address through a null pointer.\<close>

theorem failed_registration_faults:
  assumes "\<And>t c. mr_of E t c = None"
  shows "\<exists>w'. RdmaMemoryPool E pd chunk_sz init_chunks maxchunks w = Some (Fault NullDeref, w')"
proof -
  let ?w1 = "w\<lparr>regions := heap_new empty_region (regions w)\<rparr>"
  from assms have "\<exists>err w2. alloc_attempts E pd (size_of Small) MaxAllocateAttempts [] ?w1 =
      Some (Ok (Inl err), w2)"
    by (simp add: alloc_attempts_first run_simps)
  then obtain err w2 where att:
    "alloc_attempts E pd (size_of Small) MaxAllocateAttempts [] ?w1 = Some (Ok (Inl err), w2)" by blast
  then have al: "allocate E pd (size_of Small) (empty_region, ?w1) = Some (Ok err, (empty_region, w2))"
    by (simp add: allocate_def run_simps)
  from allocate_regions [OF this] have "regions w2 = heap_new empty_region (regions w)" by simp
  with al have "\<exists>s. AllocateRegisteredBlock E (size_of Small) (new_pool pd, w) = Some (Fault NullDeref, s)"
    by (simp add: AllocateRegisteredBlock_def run_simps on_heap_run heap_get_new heap_get_put new_pool_def
        getAddress_def through_region_def empty_region_def)
  then obtain s where blk: "AllocateRegisteredBlock E (size_of Small) (new_pool pd, w) = Some (Fault NullDeref, s)" ..
  have "chunk_size (small (new_pool pd)) = size_of Small" using new_pool_facts(1) [of Small] by simp
  with blk have "\<exists>s. alloc_blocks E (Suc n) (AllocateRegisteredBlock E)
      (small (new_pool pd), (new_pool pd, w)) = Some (Fault NullDeref, s)" for n
    by (simp add: bindM_run on_world_run del: size_of.simps)
  moreover have cnt: "count_of Small = Suc 63" by simp
  ultimately obtain s where "alloc_blocks E (count_of Small) (AllocateRegisteredBlock E)
      (small (new_pool pd), (new_pool pd, w)) = Some (Fault NullDeref, s)"
    unfolding cnt by blast
  then have "\<exists>s. on_chunk Small (AllocatePool E (count_of Small) (AllocateRegisteredBlock E))
      (new_pool pd, w) = Some (Fault NullDeref, s)"
    by (cases s) (simp add: on_chunk_run AllocatePool_def bindM_run del: count_of.simps)
  then obtain s' where "on_chunk Small (AllocatePool E (count_of Small) (AllocateRegisteredBlock E))
      (new_pool pd, w) = Some (Fault NullDeref, s')" ..
  then show ?thesis
    by (cases s') (simp add: RdmaMemoryPool_def construct_run allocate_pools_def del: count_of.simps)
qed

theorem failed_registration_faults_witness:
  "\<exists>w'. RdmaMemoryPool env_noreg 9 1 2 3 init_mworld = Some (Fault NullDeref, w')"
  by (rule failed_registration_faults) (simp add: env_noreg_def)

text \<open>An address the pool does not know is answered with a null region, and asking for it
  leaves a null entry in the map; freeing such an address dereferences the null region.\<close>

theorem unknown_address:
  assumes "pointer_map mp a = None \<or> pointer_map mp a = Some 0"
  shows "\<exists>mp'. pointer_map mp' = (pointer_map mp)(a \<mapsto> 0) \<and>
    RegionFromAddress a (mp, w) = Some (Ok 0, (mp', w)) \<and>
    deallocate_address E a (mp, w) = Some (Fault NullDeref, (mp', w))"
  using assms by (auto simp: RegionFromAddress_def deallocate_address_def deallocate_def run_simps fun_upd_idem)

theorem unknown_address_witness:
  "\<exists>mp'. deallocate_address env_ok 5 (new_pool 9, init_mworld) = Some (Fault NullDeref, (mp', init_mworld))"
proof -
  have "pointer_map (new_pool 9) 5 = None \<or> pointer_map (new_pool 9) 5 = Some 0"
    by (simp add: new_pool_def)
  from unknown_address [OF this] show ?thesis by blast
qed

end
