(* ===== verification/Logging.thy ===== *)
theory Logging
  imports Prelude
begin

text \<open>
  The message formatting of \<open>include/RdmaLogging.h\<close>: the macros that print pointers,
  lengths, numbers and addresses, and the memory dump.  The stream manipulators are
  modelled by their effect on one value: \<open>setw\<close> and \<open>setfill\<close> pad the digits on the left.
  The lemmas show that what is printed determines what was logged.
\<close>

section \<open>Digits\<close>

function (sequential) to_base :: "nat \<Rightarrow> nat \<Rightarrow> nat list" where
  "to_base b n = (if b \<le> 1 \<or> n < b then [n] else to_base b (n div b) @ [n mod b])"
  by pat_completeness auto
termination by (relation "measure snd") (auto intro: div_less_dividend)

declare to_base.simps [simp del]

definition of_base :: "nat \<Rightarrow> nat list \<Rightarrow> nat" where
  "of_base b ds = foldl (\<lambda>a d. a * b + d) 0 ds"

lemma of_base_simps [simp]: "of_base b [] = 0" "of_base b (ds @ [d]) = of_base b ds * b + d"
  by (simp_all add: of_base_def)

lemma of_to_base [simp]: "1 < b \<Longrightarrow> of_base b (to_base b n) = n"
proof (induction b n rule: to_base.induct)
  case (1 b n)
  then show ?case by (subst to_base.simps) (auto simp: of_base_def)
qed

lemma to_base_less: "1 < b \<Longrightarrow> d \<in> set (to_base b n) \<Longrightarrow> d < b"
proof (induction b n rule: to_base.induct)
  case (1 b n)
  from 1(3) show ?case
    using 1(1,2) by (subst (asm) to_base.simps) (auto split: if_splits)
qed

lemma to_base_ne [simp]: "to_base b n \<noteq> []"
  by (subst to_base.simps) auto

lemma of_base_zeros [simp]: "of_base b (replicate k 0 @ ds) = of_base b ds"
proof -
  have "foldl (\<lambda>a d. a * b + d) 0 (replicate k 0) = 0" by (induction k) auto
  then show ?thesis by (simp add: of_base_def)
qed

text \<open>A number below \<open>b ^ k\<close> has at most \<open>k\<close> digits.\<close>

lemma to_base_length: "1 < b \<Longrightarrow> 0 < k \<Longrightarrow> n < b ^ k \<Longrightarrow> length (to_base b n) \<le> k"
proof (induction b n arbitrary: k rule: to_base.induct)
  case (1 b n)
  show ?case
  proof (cases "n < b")
    case True
    with 1 show ?thesis by (subst to_base.simps) auto
  next
    case False
    then have "k \<noteq> 1" using 1(4) by auto
    then obtain j where k: "k = Suc j" "0 < j" using 1(3) by (cases k) auto
    have "n div b < b ^ j" using 1(2,4) k(1) by (simp add: less_mult_imp_div_less mult.commute)
    with 1(1) [of j] 1(2) k False show ?thesis by (subst to_base.simps) auto
  qed
qed

text \<open>The characters of the digits, lower case.\<close>

definition digit_char :: "nat \<Rightarrow> char" where
  "digit_char d = (if d < 10 then char_of (48 + d) else char_of (87 + d))"

definition char_digit :: "char \<Rightarrow> nat" where
  "char_digit c = (let n = of_char c :: nat in if n < 58 then n - 48 else n - 87)"

lemma char_digit_char [simp]: "d < 16 \<Longrightarrow> char_digit (digit_char d) = d"
  by (simp add: char_digit_def digit_char_def Let_def)

definition digits :: "nat \<Rightarrow> nat \<Rightarrow> string" where
  "digits b n = map digit_char (to_base b n)"

definition pad :: "nat \<Rightarrow> string \<Rightarrow> string" where
  "pad width s = replicate (width - length s) (digit_char 0) @ s"

definition undigits :: "nat \<Rightarrow> string \<Rightarrow> nat" where
  "undigits b s = of_base b (map char_digit s)"

lemma undigits_digits [simp]: "1 < b \<Longrightarrow> b \<le> 16 \<Longrightarrow> undigits b (digits b n) = n"
proof -
  assume b: "1 < b" "b \<le> 16"
  then have "map char_digit (digits b n) = to_base b n"
    unfolding digits_def map_map
    by (intro map_idI) (use to_base_less [OF b(1)] in \<open>force\<close>)
  with b show ?thesis by (simp add: undigits_def)
qed

lemma undigits_pad [simp]: "undigits b (pad k s) = undigits b s"
  by (simp add: undigits_def pad_def map_replicate_const)

section \<open>The formatting macros\<close>

definition hexpointer :: "u64 \<Rightarrow> string" where
  "hexpointer p = ''0x'' @ pad 12 (digits 16 (unat p)) @ '' ''"

definition hexuint32 :: "u32 \<Rightarrow> string" where
  "hexuint32 p = ''0x'' @ pad 8 (digits 16 (unat p)) @ '' ''"

definition hexlength :: "u64 \<Rightarrow> string" where
  "hexlength p = ''0x'' @ pad 6 (digits 16 (unat p)) @ '' ''"

definition hexnumber :: "u64 \<Rightarrow> string" where
  "hexnumber p = ''0x'' @ pad 4 (digits 16 (unat p)) @ '' ''"

definition dec_int :: "int \<Rightarrow> string" where
  "dec_int i = (if i < 0 then ''-'' @ digits 10 (nat (- i)) else digits 10 (nat i))"

definition decnumber :: "int \<Rightarrow> string" where
  "decnumber i = dec_int i @ '' ''"

text \<open>The bytes of a 32-bit value in memory; the address is kept in network order.\<close>

definition byte_of :: "u32 \<Rightarrow> nat \<Rightarrow> nat" where
  "byte_of p i = unat p div 256 ^ i mod 256"

definition ipaddress :: "u32 \<Rightarrow> string" where
  "ipaddress p = digits 10 (byte_of p 0) @ ''.'' @ digits 10 (byte_of p 1) @ ''.'' @
     digits 10 (byte_of p 2) @ ''.'' @ digits 10 (byte_of p 3) @ '' ''"

text \<open>
  \<open>LOG_MEMORY_MSG\<close>: the 32-bit words of \<open>n\<close> bytes.  The separator compares the index of
  a word with the number of bytes.
\<close>

definition log_memory :: "string \<Rightarrow> u64 \<Rightarrow> u32 list \<Rightarrow> nat \<Rightarrow> string" where
  "log_memory m p src n = m @ '' '' @ hexpointer p @ ''= ('' @
     concat (map (\<lambda>i. hexuint32 (src ! i) @ (if int i < int n - 1 then '','' else '')''))
       [0..<n div 4])"

section \<open>What is printed determines the value\<close>

text \<open>Drop the prefix and the trailing blank.\<close>

definition hex_value :: "string \<Rightarrow> nat" where
  "hex_value s = undigits 16 (butlast (drop 2 s))"

lemma hex_values:
  "hex_value (hexpointer p) = unat p" "hex_value (hexuint32 q) = unat q"
  "hex_value (hexlength p) = unat p" "hex_value (hexnumber p) = unat p"
  by (simp_all add: hex_value_def hexpointer_def hexuint32_def hexlength_def hexnumber_def butlast_append)

lemma hexpointer_width: "unat p < 2 ^ 48 \<Longrightarrow> length (hexpointer p) = 15"
proof -
  assume "unat p < 2 ^ 48"
  then have "unat p < 16 ^ 12" by simp
  then have "length (digits 16 (unat p)) \<le> 12"
    using to_base_length [of 16 12] by (simp add: digits_def)
  then show ?thesis by (simp add: hexpointer_def pad_def)
qed

text \<open>Split a dotted text.\<close>

fun split_dots :: "string \<Rightarrow> string \<Rightarrow> string list" where
  "split_dots acc [] = [acc]"
| "split_dots acc (c # cs) = (if c = CHR ''.'' then acc # split_dots [] cs else split_dots (acc @ [c]) cs)"

lemma split_dots_append: "CHR ''.'' \<notin> set xs \<Longrightarrow> split_dots acc (xs @ ys) = split_dots (acc @ xs) ys"
  by (induction xs arbitrary: acc) auto

text \<open>The characters of a digit are letters and figures.\<close>

lemma digit_char_range: "d < 16 \<Longrightarrow> of_char (digit_char d) \<ge> (48 :: nat)"
  by (simp add: digit_char_def)

lemma digits_range:
  assumes "1 < b" and "b \<le> 16" and "c \<in> set (digits b n)"
  shows "of_char c \<ge> (48 :: nat)"
proof -
  from assms(3) obtain d where "d \<in> set (to_base b n)" "c = digit_char d" by (auto simp: digits_def)
  with to_base_less [OF assms(1)] assms(2) digit_char_range show ?thesis by fastforce
qed

lemma digits_no_dot: "CHR ''.'' \<notin> set (digits 10 n)"
  using digits_range [of 10 "CHR ''.''" n] by auto

definition ip_value :: "string \<Rightarrow> nat" where
  "ip_value s = of_base 256 (rev (map (undigits 10) (split_dots [] (butlast s))))"

lemma bytes_of_word: "of_base 256 [byte_of p 3, byte_of p 2, byte_of p 1, byte_of p 0] = unat p"
proof -
  define n where "n = unat p"
  define a where "a = n div 256"
  define b where "b = a div 256"
  define c where "c = b div 256"
  have d: "n div 256 ^ 2 = b" "n div 256 ^ 3 = c"
    by (simp_all add: a_def b_def c_def power2_eq_square power3_eq_cube flip: div_mult2_eq)
  have "n < 256 ^ 4" using unsigned_less [of p] by (simp add: n_def)
  then have "n div 256 ^ 3 < 256" by (simp add: less_mult_imp_div_less)
  then have "c mod 256 = c" using d by simp
  moreover have "n = a * 256 + n mod 256" "a = b * 256 + a mod 256" "b = c * 256 + b mod 256"
    by (simp_all add: a_def b_def c_def)
  ultimately show ?thesis
    using d by (simp add: of_base_def byte_of_def flip: n_def a_def)
qed

text \<open>The printed forms can be read back: a pointer, a 32-bit value, a length and a number
  from their hexadecimal text, and a network address from its dotted text; so two values
  that differ never look the same in the log.\<close>

theorem printed_values:
  "hex_value (hexpointer p) = unat p \<and> hex_value (hexlength p) = unat p \<and>
   hex_value (hexnumber p) = unat p \<and> hex_value (hexuint32 q) = unat q \<and>
   ip_value (ipaddress q) = unat q"
proof -
  have "split_dots [] (butlast (ipaddress q)) = [digits 10 (byte_of q 0), digits 10 (byte_of q 1),
      digits 10 (byte_of q 2), digits 10 (byte_of q 3)]"
    using digits_no_dot [of "byte_of q 3"] split_dots_append [of "digits 10 (byte_of q 3)" "[]" "[]"]
    by (simp add: ipaddress_def butlast_append split_dots_append digits_no_dot)
  then show ?thesis using hex_values bytes_of_word [of q] by (simp add: ip_value_def)
qed

text \<open>The memory dump never closes its parenthesis: the separator is chosen by comparing
  the index of a word with the number of bytes, so that every word, the last one too, is
  followed by a comma.\<close>

theorem log_memory_unclosed:
  assumes "CHR '')'' \<notin> set m"
  shows "CHR '')'' \<notin> set (log_memory m p src n)"
proof -
  have "int i < int n - 1" if "i < n div 4" for i using that by linarith
  moreover have "CHR '')'' \<notin> set (hexpointer p)" "CHR '')'' \<notin> set (hexuint32 q)" for q
  proof -
    have "digit_char 0 \<noteq> CHR '')''" using digit_char_range [of 0] by auto
    then show "CHR '')'' \<notin> set (hexpointer p)" "CHR '')'' \<notin> set (hexuint32 q)"
      using digits_range [of 16 "CHR '')''"] by (auto simp: hexpointer_def hexuint32_def pad_def)
  qed
  ultimately show ?thesis using assms by (auto simp: log_memory_def)
qed

theorem log_memory_unclosed_witness:
  "CHR '')'' \<notin> set (log_memory ''header'' 4096 [1, 2] 8)"
  by (rule log_memory_unclosed) simp

end
