(* ===== verification/CompletionQueue.thy ===== *)
theory CompletionQueue
  imports Verbs Logging
begin

text \<open>
  \<open>RdmaCompletionQueue\<close> (\<open>include/RdmaCompletionQueue.h\<close>, \<open>src/RdmaCompletionQueue.cpp\<close>):
  the completions polled from the device are buffered in an array of 256 entries and
  popped one at a time.  The abstract view is a queue of completions; the locale
  \<open>wc_buffer\<close> states what a client may rely on, and the array implements it as long as it
  does not overflow.
\<close>

section \<open>State and operations\<close>

definition MaxQueueSize :: nat where "MaxQueueSize = 256"

text \<open>
  \<open>_completionQ\<close> is the pointer to the \<open>ibv_cq\<close>.  The totals are counters that wrap
  around; the two indices stay within the array.
\<close>

record completion_queue =
  cq_context :: u64
  completionQ :: u64
  completions :: "ibv_wc list"
  numCompletions :: nat
  nextCompletion :: nat
  totalCompletions :: u32
  totalEvents :: u32
  cq_tag :: string

definition zero_wc :: ibv_wc where
  "zero_wc = \<lparr>wc_wr_id = 0, wc_status = 0, wc_op = IBV_WC_SEND, wc_qp_num = 0\<rparr>"

definition blank_cq :: "u64 \<Rightarrow> completion_queue" where
  "blank_cq ctx = \<lparr>cq_context = ctx, completionQ = 0, completions = replicate MaxQueueSize zero_wc,
     numCompletions = 0, nextCompletion = 0, totalCompletions = 0, totalEvents = 0,
     cq_tag = ''[CQ ?] ''\<rparr>"

definition getHandle :: "env \<Rightarrow> completion_queue \<Rightarrow> u32" where
  "getHandle E cq = (if completionQ cq \<noteq> 0 then handle_of E (completionQ cq) else 0)"

definition requestEvent :: "env \<Rightarrow> (completion_queue \<times> 'a world_scheme, unit) M" where
  "requestEvent E = bindM this_get (\<lambda>cq.
     bindM (on_world (ext_int E (CQ (Ibv_req_notify_cq (completionQ cq))))) (\<lambda>err.
     if err \<noteq> 0 then throwM (RdmaError err ''ibv_req_notify_cq() failed'') else returnM ()))"

definition ackEvents :: "env \<Rightarrow> nat \<Rightarrow> (completion_queue \<times> 'a world_scheme, unit) M" where
  "ackEvents E numEvents = bindM this_get (\<lambda>cq.
     bindM (on_world (ext_int E (CQ (Ibv_ack_cq_events (completionQ cq) numEvents)))) (\<lambda>_.
     this_mod (\<lambda>cq. cq\<lparr>totalEvents := totalEvents cq + of_nat numEvents\<rparr>)))"

text \<open>
  The constructor.  When the first request for events fails, the exception leaves the
  constructor: no destructor runs, the queue stays allocated.
\<close>

definition RdmaCompletionQueue ::
    "env \<Rightarrow> u64 \<Rightarrow> int \<Rightarrow> u64 \<Rightarrow> ('a world_scheme, completion_queue) M" where
  "RdmaCompletionQueue E ctx qSize completionChannel =
     construct (blank_cq ctx)
      (if ctx = 0 then throwM (RdmaError EFAULT ''device context pointer is null'')
       else bindM (on_world (ext_ptr E (CQ (Ibv_create_cq ctx qSize completionChannel)))) (\<lambda>q.
         thenM (this_mod (\<lambda>cq. cq\<lparr>completionQ := q\<rparr>))
         (if q = 0 then bindM (on_world (errno E)) (\<lambda>e. throwM (RdmaError e ''ibv_create_cq() failed''))
          else thenM (this_mod (\<lambda>cq. cq\<lparr>cq_tag :=
                 ''[CQ '' @ dec_int (uint (handle_of E q)) @ ''] ''\<rparr>))
               (requestEvent E))))"

definition destroy_cq :: "env \<Rightarrow> (completion_queue \<times> 'a world_scheme, unit) M" where
  "destroy_cq E = bindM this_get (\<lambda>cq.
     if completionQ cq \<noteq> 0
     then bindM (on_world (ext_int E (CQ (Ibv_destroy_cq (completionQ cq))))) (\<lambda>err.
       if err = 0 then this_mod (\<lambda>cq. cq\<lparr>completionQ := 0\<rparr>) else returnM ())
     else returnM ())"

text \<open>
  \<open>poll_completion\<close>: at most one completion; one with an error status ends the program.
\<close>

definition poll_completion :: "env \<Rightarrow> (completion_queue \<times> 'a world_scheme, int \<times> ibv_wc option) M" where
  "poll_completion E = bindM this_get (\<lambda>cq.
     bindM (on_world (ext_wcs E (CQ (Ibv_poll_cq (completionQ cq) 1)))) (\<lambda>res. case res of
       Inl nc \<Rightarrow> throwM (RdmaError EINVAL ''ibv_poll_cq() failed'')
     | Inr [] \<Rightarrow> returnM (0, None)
     | Inr (completion # rest) \<Rightarrow>
         if wc_status completion \<noteq> IBV_WC_SUCCESS then faultM Terminated
         else returnM (1 + int (length rest), Some completion)))"

text \<open>\<open>ibv_poll_cq\<close> writes its completions at the index \<open>_numCompletions\<close> and following.\<close>

definition write_at :: "nat \<Rightarrow> 'x list \<Rightarrow> 'x list \<Rightarrow> 'x list" where
  "write_at i new xs = take i xs @ new @ drop (i + length new) xs"

definition removeCompletions :: "env \<Rightarrow> int \<Rightarrow> (completion_queue \<times> 'a world_scheme, int) M" where
  "removeCompletions E numEntries = bindM this_get (\<lambda>cq.
     bindM (on_world (ext_wcs E (CQ (Ibv_poll_cq (completionQ cq) numEntries)))) (\<lambda>res. case res of
       Inl nc \<Rightarrow> throwM (RdmaError EINVAL ''ibv_poll_cq() failed'')
     | Inr new \<Rightarrow>
         if numCompletions cq + length new > MaxQueueSize then faultM OutOfBounds
         else thenM (this_mod (\<lambda>cq. cq\<lparr>completions := write_at (numCompletions cq) new (completions cq),
                  numCompletions := numCompletions cq + length new\<rparr>))
             (thenM (this_mod (\<lambda>cq. cq\<lparr>totalCompletions :=
                  totalCompletions cq + of_nat (numCompletions cq)\<rparr>))
             (returnM (int (length new))))))"

text \<open>
  \<open>popCompletion\<close> returns a pointer into the array: the index, or nothing for the null
  pointer.  What it points to is read by the caller later.
\<close>

definition popCompletion :: "(completion_queue \<times> 'w, nat option) M" where
  "popCompletion = bindM this_get (\<lambda>cq.
     if numCompletions cq = 0 then returnM None
     else if nextCompletion cq \<ge> MaxQueueSize then faultM OutOfBounds
     else thenM (this_mod (\<lambda>cq. cq\<lparr>nextCompletion := nextCompletion cq + 1\<rparr>))
         (thenM (this_mod (\<lambda>cq. if nextCompletion cq = numCompletions cq
              then cq\<lparr>numCompletions := 0, nextCompletion := 0\<rparr> else cq))
         (returnM (Some (nextCompletion cq)))))"

text \<open>\<open>writeTo\<close>, the state in a line.\<close>

definition cq_writeTo :: "completion_queue \<Rightarrow> string" where
  "cq_writeTo cq = cq_tag cq @ '' numCompletions='' @ dec_int (int (numCompletions cq)) @
     '' nextCompletion='' @ dec_int (int (nextCompletion cq)) @
     '' totalCompletions='' @ dec_int (sint (totalCompletions cq)) @
     '' totalEvents='' @ dec_int (uint (totalEvents cq))"

fun wc_opcode_str :: "wc_opcode \<Rightarrow> string" where
  "wc_opcode_str IBV_WC_SEND = ''IBV_WC_SEND''"
| "wc_opcode_str IBV_WC_RDMA_WRITE = ''IBV_WC_RDMA_WRITE''"
| "wc_opcode_str IBV_WC_RDMA_READ = ''IBV_WC_RDMA_READ''"
| "wc_opcode_str IBV_WC_COMP_SWAP = ''IBV_WC_COMP_SWAP''"
| "wc_opcode_str IBV_WC_FETCH_ADD = ''IBV_WC_FETCH_ADD''"
| "wc_opcode_str IBV_WC_BIND_MW = ''IBV_WC_BIND_MW''"
| "wc_opcode_str IBV_WC_RECV = ''IBV_WC_RECV''"
| "wc_opcode_str IBV_WC_RECV_RDMA_WITH_IMM = ''IBV_WC_RECV_RDMA_WITH_IMM''"
| "wc_opcode_str (IBV_WC_OTHER n) = ''Got an unknown opcode '' @ dec_int (int n)"

section \<open>The queue behind the array\<close>

definition cq_inv :: "completion_queue \<Rightarrow> bool" where
  "cq_inv cq \<longleftrightarrow> length (completions cq) = MaxQueueSize \<and> numCompletions cq \<le> MaxQueueSize \<and>
     (if numCompletions cq = 0 then nextCompletion cq = 0
      else nextCompletion cq < numCompletions cq)"

definition pending :: "completion_queue \<Rightarrow> ibv_wc list" where
  "pending cq = drop (nextCompletion cq) (take (numCompletions cq) (completions cq))"

lemma cq_inv_blank [simp]: "cq_inv (blank_cq ctx)" "pending (blank_cq ctx) = []"
  by (simp_all add: cq_inv_def blank_cq_def pending_def MaxQueueSize_def)

lemma length_write_at: "i + length new \<le> length xs \<Longrightarrow> length (write_at i new xs) = length xs"
  by (simp add: write_at_def)

lemma take_write_at: "i + length new \<le> length xs \<Longrightarrow> take (i + length new) (write_at i new xs) = take i xs @ new"
  by (simp add: write_at_def)

lemma take_write_at_0 [simp]: "take (length new) (write_at 0 new xs) = new"
  by (simp add: write_at_def)

lemma removeCompletions_run:
  "removeCompletions E n (cq, w) = (case wcs_of E (trace w) (CQ (Ibv_poll_cq (completionQ cq) n)) of
     Inl nc \<Rightarrow> Some (Throw (RdmaError EINVAL ''ibv_poll_cq() failed''),
       (cq, w\<lparr>trace := (CQ (Ibv_poll_cq (completionQ cq) n), R_wcs (Inl nc)) # trace w\<rparr>))
   | Inr new \<Rightarrow>
      (let w' = w\<lparr>trace := (CQ (Ibv_poll_cq (completionQ cq) n), R_wcs (Inr new)) # trace w\<rparr>
       in if numCompletions cq + length new > MaxQueueSize then Some (Fault OutOfBounds, (cq, w'))
          else Some (Ok (int (length new)),
            (cq\<lparr>completions := write_at (numCompletions cq) new (completions cq),
               numCompletions := numCompletions cq + length new,
               totalCompletions := totalCompletions cq + of_nat (numCompletions cq + length new)\<rparr>, w'))))"
  by (simp add: removeCompletions_def run_simps Let_def split: sum.split)

lemma popCompletion_run:
  "popCompletion (cq, w) =
     (if numCompletions cq = 0 then Some (Ok None, (cq, w))
      else if nextCompletion cq \<ge> MaxQueueSize then Some (Fault OutOfBounds, (cq, w))
      else Some (Ok (Some (nextCompletion cq)),
        (if Suc (nextCompletion cq) = numCompletions cq
         then cq\<lparr>numCompletions := 0, nextCompletion := 0\<rparr>
         else cq\<lparr>nextCompletion := Suc (nextCompletion cq)\<rparr>, w)))"
  by (simp add: popCompletion_def run_simps)

lemma removeCompletions_appends:
  assumes "cq_inv cq" and "removeCompletions E n (cq, w) = Some (Ok k, (cq', w'))"
  shows "\<exists>new. wcs_of E (trace w) (CQ (Ibv_poll_cq (completionQ cq) n)) = Inr new \<and>
    trace w' = (CQ (Ibv_poll_cq (completionQ cq) n), R_wcs (Inr new)) # trace w \<and>
    k = int (length new) \<and> cq_inv cq' \<and> pending cq' = pending cq @ new \<and>
    completionQ cq' = completionQ cq"
  using assms
  by (auto simp: removeCompletions_run cq_inv_def pending_def take_write_at length_write_at Let_def
      split: sum.splits if_splits)

lemma popCompletion_empty: "cq_inv cq \<Longrightarrow> pending cq = [] \<Longrightarrow> popCompletion (cq, w) = Some (Ok None, (cq, w))"
  by (auto simp: popCompletion_run cq_inv_def pending_def split: if_splits)

lemma popCompletion_first:
  assumes "cq_inv cq" and "pending cq = wc # rest"
  shows "\<exists>i cq'. popCompletion (cq, w) = Some (Ok (Some i), (cq', w)) \<and> i < MaxQueueSize \<and>
    completions cq ! i = wc \<and> completions cq' = completions cq \<and> cq_inv cq' \<and> pending cq' = rest \<and>
    completionQ cq' = completionQ cq"
proof -
  from assms have n: "nextCompletion cq < numCompletions cq" "numCompletions cq \<le> MaxQueueSize"
    "length (completions cq) = MaxQueueSize"
    by (auto simp: cq_inv_def pending_def split: if_splits)
  then have "drop (nextCompletion cq) (take (numCompletions cq) (completions cq)) =
      completions cq ! nextCompletion cq #
      drop (Suc (nextCompletion cq)) (take (numCompletions cq) (completions cq))"
    by (simp add: Cons_nth_drop_Suc [symmetric])
  with assms(2) have "wc = completions cq ! nextCompletion cq"
    "rest = drop (Suc (nextCompletion cq)) (take (numCompletions cq) (completions cq))"
    by (simp_all add: pending_def)
  with n show ?thesis by (auto simp: popCompletion_run cq_inv_def pending_def)
qed

section \<open>The interface\<close>

text \<open>
  What a client relies on: \<open>fetch\<close> adds what arrives at the end, \<open>take1\<close> gives the oldest
  element that was not given yet, or nothing.  \<open>arrived\<close> is all that ever arrived.
\<close>

locale wc_buffer =
  fixes ok :: "'s \<Rightarrow> bool" and view :: "'s \<Rightarrow> 'e list" and arrived :: "'s \<Rightarrow> 'e list"
    and fetch :: "('s, int) M" and take1 :: "('s, 'e option) M"
  assumes fetch_adds: "ok s \<Longrightarrow> fetch s = Some (Ok n, s') \<Longrightarrow>
      ok s' \<and> (\<exists>new. view s' = view s @ new \<and> arrived s' = arrived s @ new)"
    and next_gives: "ok s \<Longrightarrow> take1 s = Some (Ok r, s') \<Longrightarrow> ok s' \<and> arrived s' = arrived s \<and>
      (case view s of [] \<Rightarrow> r = None \<and> view s' = [] | x # xs \<Rightarrow> r = Some x \<and> view s' = xs)"

datatype buffer_op = Fetch | Next

fun run_buffer :: "('s, int) M \<Rightarrow> ('s, 'e option) M \<Rightarrow> buffer_op list \<Rightarrow> ('s, 'e list) M" where
  "run_buffer fetch take1 [] = returnM []"
| "run_buffer fetch take1 (Fetch # ops) = bindM fetch (\<lambda>_. run_buffer fetch take1 ops)"
| "run_buffer fetch take1 (Next # ops) = bindM take1 (\<lambda>r. bindM (run_buffer fetch take1 ops) (\<lambda>rs.
     returnM (case r of None \<Rightarrow> rs | Some x \<Rightarrow> x # rs)))"

context wc_buffer
begin

lemma fifo:
  assumes "ok s" and "run_buffer fetch take1 ops s = Some (Ok xs, s')"
  shows "ok s' \<and> (\<exists>new. arrived s' = arrived s @ new \<and> view s @ new = xs @ view s')"
  using assms
proof (induction ops arbitrary: s xs)
  case Nil
  then show ?case by auto
next
  case (Cons a ops)
  show ?case
  proof (cases a)
    case Fetch
    with Cons.prems(2) obtain n s1 where s1: "fetch s = Some (Ok n, s1)"
      "run_buffer fetch take1 ops s1 = Some (Ok xs, s')" by (auto elim: bindM_OkE)
    from fetch_adds [OF Cons.prems(1) s1(1)] obtain new where
      "ok s1" "view s1 = view s @ new" "arrived s1 = arrived s @ new" by blast
    with Cons.IH [OF this(1) s1(2)] show ?thesis by auto
  next
    case Next
    with Cons.prems(2) obtain r s1 rs where s1: "take1 s = Some (Ok r, s1)"
      "run_buffer fetch take1 ops s1 = Some (Ok rs, s')"
      "xs = (case r of None \<Rightarrow> rs | Some x \<Rightarrow> x # rs)" by (auto elim!: bindM_OkE)
    from next_gives [OF Cons.prems(1) s1(1)] Cons.IH [OF _ s1(2)] s1(3) show ?thesis
      by (cases "view s") auto
  qed
qed

end

text \<open>Pop and read the entry the pointer leads to.\<close>

definition pop_read :: "(completion_queue \<times> 'w, ibv_wc option) M" where
  "pop_read = bindM popCompletion (\<lambda>p. case p of
       None \<Rightarrow> returnM None
     | Some i \<Rightarrow> bindM this_get (\<lambda>cq. returnM (Some (completions cq ! i))))"

text \<open>What a queue of the device delivered, oldest first.\<close>

fun polled :: "u64 \<Rightarrow> trace \<Rightarrow> ibv_wc list" where
  "polled q [] = []"
| "polled q ((CQ c, r) # t) = (case c of
       Ibv_poll_cq q' n \<Rightarrow> (case r of R_wcs (Inr new) \<Rightarrow>
         if q' = q then polled q t @ new else polled q t | _ \<Rightarrow> polled q t)
     | _ \<Rightarrow> polled q t)"
| "polled q (_ # t) = polled q t"

interpretation cq: wc_buffer
  "\<lambda>(cq, w). cq_inv cq" "\<lambda>(cq, w). pending cq" "\<lambda>(cq, w). polled (completionQ cq) (trace w)"
  "removeCompletions E n" pop_read for E :: env and n :: int
proof (unfold_locales, goal_cases)
  case (1 s k s')
  obtain cq w cq' w' where s: "s = (cq, w)" "s' = (cq', w')" by (cases s; cases s') blast
  with removeCompletions_appends [of cq E n w k cq' w'] 1 obtain new where
    "cq_inv cq'" "pending cq' = pending cq @ new" "completionQ cq' = completionQ cq"
    "trace w' = (CQ (Ibv_poll_cq (completionQ cq) n), R_wcs (Inr new)) # trace w"
    unfolding s prod.case by blast
  then show ?case unfolding s by simp
next
  case (2 s r s')
  obtain cq w where s: "s = (cq, w)" by fastforce
  show ?case
  proof (cases "pending cq")
    case Nil
    with 2 s popCompletion_empty [of cq w] show ?thesis by (auto simp: pop_read_def)
  next
    case (Cons x xs)
    with 2 s popCompletion_first [of cq x xs w] show ?thesis by (auto simp: pop_read_def run_simps)
  qed
qed

section \<open>Properties\<close>

text \<open>C17: completions come out in the order the device delivered them, none lost and none
  twice, whatever the mix of \<open>removeCompletions\<close> and \<open>popCompletion\<close>: what was pending
  followed by what was polled is what was popped followed by what is pending.\<close>

theorem completions_fifo:
  assumes "cq_inv cq"
    and "run_buffer (removeCompletions E n) pop_read ops (cq, w) = Some (Ok popped, (cq', w'))"
  shows "\<exists>new. polled (completionQ cq') (trace w') = polled (completionQ cq) (trace w) @ new \<and>
    pending cq @ new = popped @ pending cq'"
  using cq.fifo [of "(cq, w)" E n ops popped "(cq', w')"] assms by simp

definition wc_1 :: ibv_wc where
  "wc_1 = \<lparr>wc_wr_id = 100, wc_status = 0, wc_op = IBV_WC_RECV, wc_qp_num = 17\<rparr>"

definition env_wc :: env where
  "env_wc = env_ok\<lparr>wcs_of := (\<lambda>t c. Inr [wc_1\<lparr>wc_wr_id := of_nat (length t)\<rparr>])\<rparr>"

lemma env_wc_simps [simp]: "wcs_of env_wc t c = Inr [wc_1\<lparr>wc_wr_id := of_nat (length t)\<rparr>]"
    "ndebug env_wc = False" "logging env_wc = False"
  by (simp_all add: env_wc_def)

definition cq_8 :: completion_queue where
  "cq_8 = (blank_cq 64)\<lparr>completionQ := 8\<rparr>"

lemma cq_8_inv [simp]: "cq_inv cq_8" "numCompletions cq_8 = 0" "nextCompletion cq_8 = 0"
    "completionQ cq_8 = 8" "pending cq_8 = []" "length (completions cq_8) = MaxQueueSize"
  by (simp_all add: cq_8_def cq_inv_def blank_cq_def MaxQueueSize_def pending_def)

lemma cq_8_run:
  "\<exists>popped cq' w'. run_buffer (removeCompletions env_wc 5) pop_read [Fetch, Fetch, Next]
     (cq_8, init_world) = Some (Ok popped, (cq', w')) \<and> length popped = 1"
  by (simp add: removeCompletions_run popCompletion_run run_simps Let_def MaxQueueSize_def
      pop_read_def write_at_def)

theorem completions_fifo_witness:
  "\<exists>popped cq' w' new. run_buffer (removeCompletions env_wc 5) pop_read [Fetch, Fetch, Next]
     (cq_8, init_world) = Some (Ok popped, (cq', w')) \<and> new = popped @ pending cq'"
proof -
  obtain popped cq' w' where run: "run_buffer (removeCompletions env_wc 5) pop_read [Fetch, Fetch, Next]
     (cq_8, init_world) = Some (Ok popped, (cq', w'))" using cq_8_run by blast
  from completions_fifo [OF cq_8_inv(1) run] run show ?thesis by auto
qed

text \<open>
  How much room is used.  A run keeps the buffer filled when no step of it, a fetch or a pop,
  leaves the buffer empty.
\<close>

abbreviation cq_run :: "env \<Rightarrow> int \<Rightarrow> buffer_op list \<Rightarrow> (completion_queue \<times> 'a world_scheme, ibv_wc list) M" where
  "cq_run E n \<equiv> run_buffer (removeCompletions E n) pop_read"

definition kept_filled :: "env \<Rightarrow> int \<Rightarrow> buffer_op list \<Rightarrow> completion_queue \<times> 'a world_scheme \<Rightarrow> bool" where
  "kept_filled E n ops s \<longleftrightarrow> (\<forall>m < length ops. \<forall>xs s'.
     cq_run E n (take (Suc m) ops) s = Some (Ok xs, s') \<longrightarrow> pending (fst s') \<noteq> [])"

lemma kept_filled_step:
  assumes "kept_filled E n (op # ops) s"
    and "\<And>ops xs s'. cq_run E n ops s1 = Some (Ok xs, s') \<Longrightarrow> \<exists>ys. cq_run E n (op # ops) s = Some (Ok ys, s')"
  shows "pending (fst s1) \<noteq> []" "kept_filled E n ops s1"
proof -
  from assms(1) have f: "cq_run E n (op # take m ops) s = Some (Ok xs, s') \<Longrightarrow> pending (fst s') \<noteq> []"
    if "m \<le> length ops" for m xs s'
    using assms(1) [unfolded kept_filled_def, rule_format, of m xs s'] that by simp
  have "cq_run E n [] s1 = Some (Ok [], s1)" by simp
  from assms(2) [OF this] obtain ys where "cq_run E n (op # take 0 ops) s = Some (Ok ys, s1)" by auto
  then show "pending (fst s1) \<noteq> []" by (rule f [rotated]) simp
  show "kept_filled E n ops s1" unfolding kept_filled_def
  proof (intro allI impI)
    fix m xs s'
    assume m: "m < length ops" "cq_run E n (take (Suc m) ops) s1 = Some (Ok xs, s')"
    from assms(2) [OF m(2)] obtain ys where "cq_run E n (op # take (Suc m) ops) s = Some (Ok ys, s')" by blast
    then show "pending (fst s') \<noteq> []" by (rule f [rotated]) (use m(1) in simp)
  qed
qed

lemma pop_read_keeps:
  assumes "cq_inv cq" and "pop_read (cq, w) = Some (Ok r, (cq1, w1))" and "pending cq1 \<noteq> []"
  shows "w1 = w" "completionQ cq1 = completionQ cq" "numCompletions cq1 = numCompletions cq" "cq_inv cq1"
proof -
  have "pending cq \<noteq> []" using assms popCompletion_empty [of cq w] by (auto simp: pop_read_def)
  with assms(1) have n: "nextCompletion cq < numCompletions cq" "numCompletions cq \<le> MaxQueueSize"
    by (auto simp: cq_inv_def pending_def split: if_splits)
  then have p: "popCompletion (cq, w) = Some (Ok (Some (nextCompletion cq)),
      (if Suc (nextCompletion cq) = numCompletions cq then cq\<lparr>numCompletions := 0, nextCompletion := 0\<rparr>
       else cq\<lparr>nextCompletion := Suc (nextCompletion cq)\<rparr>, w))" by (simp add: popCompletion_run)
  from assms(2,3) p have c: "cq1 = cq\<lparr>nextCompletion := Suc (nextCompletion cq)\<rparr>" "w1 = w"
    "Suc (nextCompletion cq) \<noteq> numCompletions cq" by (auto simp: pop_read_def run_simps pending_def split: if_splits)
  with n assms(1) show "w1 = w" "completionQ cq1 = completionQ cq" "numCompletions cq1 = numCompletions cq" "cq_inv cq1"
    by (simp_all add: cq_inv_def split: if_splits)
qed

text \<open>Popping gives no room back: the write index counts all completions polled in the run.\<close>

lemma filled_counts:
  assumes "cq_inv cq" and "cq_run E n ops (cq, w) = Some (Ok xs, (cq', w'))" and "kept_filled E n ops (cq, w)"
  shows "completionQ cq' = completionQ cq \<and> cq_inv cq' \<and>
    numCompletions cq' + length (polled (completionQ cq) (trace w)) = numCompletions cq + length (polled (completionQ cq) (trace w'))"
  using assms
proof (induction ops arbitrary: cq w xs)
  case (Cons op ops)
  show ?case
  proof (cases op)
    case Fetch
    with Cons.prems(2) obtain k cq1 w1 where r: "removeCompletions E n (cq, w) = Some (Ok k, (cq1, w1))"
      "cq_run E n ops (cq1, w1) = Some (Ok xs, (cq', w'))" by (auto elim!: bindM_OkE)
    have k: "kept_filled E n ops (cq1, w1)"
      by (rule kept_filled_step(2) [OF Cons.prems(3)]) (use r(1) Fetch in simp)
    from removeCompletions_appends [OF Cons.prems(1) r(1)] obtain new where
      n: "trace w1 = (CQ (Ibv_poll_cq (completionQ cq) n), R_wcs (Inr new)) # trace w" "cq_inv cq1"
        "completionQ cq1 = completionQ cq" "k = int (length new)"
      and "wcs_of E (trace w) (CQ (Ibv_poll_cq (completionQ cq) n)) = Inr new" by blast
    with r(1) have "numCompletions cq1 = numCompletions cq + length new"
      by (auto simp: removeCompletions_run Let_def split: if_splits)
    with Cons.IH [OF n(2) r(2) k] n show ?thesis by simp
  next
    case Next
    with Cons.prems(2) obtain r cq1 w1 ys where r: "pop_read (cq, w) = Some (Ok r, (cq1, w1))"
      "cq_run E n ops (cq1, w1) = Some (Ok ys, (cq', w'))" by (auto elim!: bindM_OkE)
    have "pending (fst (cq1, w1)) \<noteq> []" and k: "kept_filled E n ops (cq1, w1)"
      by (rule kept_filled_step [OF Cons.prems(3)]; use r(1) Next in simp)+
    with pop_read_keeps [OF Cons.prems(1) r(1)] Cons.IH [OF _ r(2) k] show ?thesis by simp
  qed
qed simp

text \<open>C36: \<open>removeCompletions\<close> stays inside the array exactly as long as the completions polled
  since the buffer was last empty fit into its 256 entries, whatever has been popped in between;
  otherwise the device writes past the end of the array.\<close>

theorem removeCompletions_bounds:
  assumes "cq_inv cq" and "pending cq = []"
    and "cq_run E n ops (cq, w) = Some (Ok popped, (cq', w'))" and "kept_filled E n ops (cq, w)"
    and "wcs_of E (trace w') (CQ (Ibv_poll_cq (completionQ cq') m)) = Inr new"
  shows "(\<exists>s. removeCompletions E m (cq', w') = Some (Fault OutOfBounds, s)) \<longleftrightarrow>
    256 < length (polled (completionQ cq) (trace w')) - length (polled (completionQ cq) (trace w)) + length new"
proof -
  have "numCompletions cq = 0" using assms(1,2) by (auto simp: cq_inv_def pending_def split: if_splits)
  with filled_counts [OF assms(1,3,4)] have
    "numCompletions cq' = length (polled (completionQ cq) (trace w')) - length (polled (completionQ cq) (trace w))"
    by linarith
  with assms(5) show ?thesis by (auto simp: removeCompletions_run Let_def MaxQueueSize_def)
qed

text \<open>A device that answers with 200 completions: the first is popped, there is no room for another 200.\<close>

definition env_many :: env where
  "env_many = env_ok\<lparr>wcs_of := (\<lambda>t c. Inr (replicate 200 wc_1))\<rparr>"

theorem removeCompletions_bounds_witness:
  "\<exists>popped cq' w'. cq_run env_many 200 [Fetch, Next] (cq_8, init_world) = Some (Ok popped, (cq', w')) \<and>
     length popped = 1 \<and> (\<exists>s. removeCompletions env_many 200 (cq', w') = Some (Fault OutOfBounds, s))"
proof -
  have e: "wcs_of env_many t c = Inr (replicate 200 wc_1)" for t c by (simp add: env_many_def)
  let ?cq = "cq_8\<lparr>completions := write_at 0 (replicate 200 wc_1) (completions cq_8), numCompletions := 200,
    totalCompletions := totalCompletions cq_8 + 200\<rparr>"
  let ?w = "init_world\<lparr>trace := [(CQ (Ibv_poll_cq 8 200), R_wcs (Inr (replicate 200 wc_1)))]\<rparr>"
  have r1: "removeCompletions env_many 200 (cq_8, init_world) = Some (Ok 200, (?cq, ?w))"
    using e by (simp add: removeCompletions_run Let_def MaxQueueSize_def)
  have len: "length (completions ?cq) = MaxQueueSize" by (simp add: length_write_at MaxQueueSize_def)
  have r2: "pop_read (?cq, ?w) = Some (Ok (Some (completions ?cq ! 0)), (?cq\<lparr>nextCompletion := 1\<rparr>, ?w))"
    by (simp add: pop_read_def popCompletion_run run_simps MaxQueueSize_def)
  have p: "pending ?cq \<noteq> []" "pending (?cq\<lparr>nextCompletion := 1\<rparr>) \<noteq> []"
    using len by (auto simp: pending_def MaxQueueSize_def)
  have run: "cq_run env_many 200 [Fetch, Next] (cq_8, init_world) =
      Some (Ok [completions ?cq ! 0], (?cq\<lparr>nextCompletion := 1\<rparr>, ?w))" using r1 r2 by simp
  have "kept_filled env_many 200 [Fetch, Next] (cq_8, init_world)"
    using r1 r2 p by (auto simp: kept_filled_def less_Suc_eq)
  from removeCompletions_bounds [OF cq_8_inv(1,5) run this e, of 200]
  have "\<exists>s. removeCompletions env_many 200 (?cq\<lparr>nextCompletion := 1\<rparr>, ?w) = Some (Fault OutOfBounds, s)" by simp
  with run show ?thesis by (metis One_nat_def length_Cons list.size(3))
qed

text \<open>\<open>_totalCompletions\<close> adds the whole buffer each time instead of the new completions:
  it counts right only when the buffer was empty.\<close>

theorem total_overcounts:
  assumes "cq_inv cq" and "removeCompletions E n (cq, w) = Some (Ok k, (cq', w'))"
  shows "totalCompletions cq' = totalCompletions cq + of_int k + of_nat (numCompletions cq) \<and>
    (totalCompletions cq' = totalCompletions cq + of_int k \<longleftrightarrow> numCompletions cq = 0)"
proof -
  from assms(2) have "totalCompletions cq' = totalCompletions cq + of_int k + of_nat (numCompletions cq)"
    by (auto simp: removeCompletions_run Let_def split: sum.splits if_splits)
  moreover have "(of_nat (numCompletions cq) :: u32) = 0 \<longleftrightarrow> numCompletions cq = 0"
    using assms(1) by (auto simp: cq_inv_def MaxQueueSize_def word_of_nat_eq_0_iff dest!: dvd_imp_le)
  ultimately show ?thesis by simp
qed

theorem total_overcounts_witness:
  "\<exists>k cq' w'. removeCompletions env_wc 1 (cq_8, init_world) = Some (Ok k, (cq', w')) \<and>
     totalCompletions cq' = totalCompletions cq_8 + of_int k"
proof -
  obtain k cq' w' where "removeCompletions env_wc 1 (cq_8, init_world) = Some (Ok k, (cq', w'))"
    by (simp add: removeCompletions_run Let_def MaxQueueSize_def)
  with total_overcounts [OF cq_8_inv(1) this] show ?thesis by auto
qed

text \<open>The pointer \<open>popCompletion\<close> returns is good until the buffer is drained and refilled:
  after the last completion was popped, the next poll writes over the first entry.\<close>

theorem popped_pointer_overwritten:
  assumes "cq_inv cq" and "pending cq = [wc]" and "nextCompletion cq = 0"
    and "wcs_of E (trace w) (CQ (Ibv_poll_cq (completionQ cq) n)) = Inr (wc' # new)"
    and "length new < 256"
  shows "\<exists>cq1 cq2 w2 k. popCompletion (cq, w) = Some (Ok (Some 0), (cq1, w)) \<and>
    completions cq1 ! 0 = wc \<and> removeCompletions E n (cq1, w) = Some (Ok k, (cq2, w2)) \<and>
    completions cq2 ! 0 = wc'"
proof -
  from assms(1,3) have n: "nextCompletion cq < numCompletions cq"
    using assms(2) by (auto simp: cq_inv_def pending_def split: if_splits)
  from popCompletion_first [OF assms(1,2), of w] obtain i cq1 where
    pop: "popCompletion (cq, w) = Some (Ok (Some i), (cq1, w))" "completions cq ! i = wc"
      "completions cq1 = completions cq" "cq_inv cq1" "pending cq1 = []" "completionQ cq1 = completionQ cq"
    by blast
  from pop(1) n assms(3) have "i = 0" by (auto simp: popCompletion_run split: if_splits)
  moreover have "numCompletions cq1 = 0"
    using pop(4,5) by (auto simp: cq_inv_def pending_def split: if_splits)
  ultimately show ?thesis
    using pop assms(4,5) by (auto simp: removeCompletions_run Let_def MaxQueueSize_def write_at_def)
qed

theorem popped_pointer_overwritten_witness:
  "\<exists>cq cq1 cq2 w2 k. popCompletion (cq, init_world) = Some (Ok (Some 0), (cq1, init_world)) \<and>
    removeCompletions env_wc 1 (cq1, init_world) = Some (Ok k, (cq2, w2)) \<and>
    completions cq1 ! 0 \<noteq> completions cq2 ! 0"
proof -
  let ?cq = "cq_8\<lparr>completions := wc_1 # replicate 255 zero_wc, numCompletions := 1\<rparr>"
  have h: "cq_inv ?cq" "pending ?cq = [wc_1]" "nextCompletion ?cq = 0"
    "wcs_of env_wc (trace init_world) (CQ (Ibv_poll_cq (completionQ ?cq) 1)) = Inr [wc_1\<lparr>wc_wr_id := 0\<rparr>]"
    by (simp_all add: cq_inv_def pending_def MaxQueueSize_def)
  from popped_pointer_overwritten [OF h] show ?thesis by (fastforce simp: wc_1_def)
qed

text \<open>\<open>poll_completion\<close> hands out successful completions only; a completion with an error
  status ends the program, and a negative answer of the device is thrown as \<open>EINVAL\<close>.\<close>

theorem poll_completion_success:
  "poll_completion E (cq, w) = Some (Ok (n, Some wc), s) \<Longrightarrow> wc_status wc = IBV_WC_SUCCESS \<and> 0 < n"
  by (auto simp: poll_completion_def run_simps split: sum.splits list.splits if_splits)

theorem poll_completion_success_witness:
  "\<exists>n wc s. poll_completion env_wc (cq_8, init_world) = Some (Ok (n, Some wc), s) \<and>
     wc_status wc = IBV_WC_SUCCESS"
proof -
  obtain n wc s where "poll_completion env_wc (cq_8, init_world) = Some (Ok (n, Some wc), s)"
    by (simp add: poll_completion_def run_simps wc_1_def IBV_WC_SUCCESS_def)
  with poll_completion_success [OF this] show ?thesis by blast
qed

text \<open>The completion queues of the device that exist.\<close>

fun live_cqs :: "trace \<Rightarrow> u64 list" where
  "live_cqs [] = []"
| "live_cqs ((CQ c, r) # t) = (case c of
       Ibv_create_cq ctx n ch \<Rightarrow>
         (case r of R_ptr q \<Rightarrow> if q = 0 then live_cqs t else q # live_cqs t | _ \<Rightarrow> live_cqs t)
     | Ibv_destroy_cq q \<Rightarrow>
         (case r of R_int rc \<Rightarrow> if rc = 0 then remove1 q (live_cqs t) else live_cqs t | _ \<Rightarrow> live_cqs t)
     | _ \<Rightarrow> live_cqs t)"
| "live_cqs (_ # t) = live_cqs t"

text \<open>The constructor and the destructor balance, except on one path: when the first
  request for events fails, the exception leaves a completion queue behind that nobody
  owns.\<close>

theorem cq_constructor_leak:
  assumes "ctx \<noteq> 0" and "ptr_of E (trace w) (CQ (Ibv_create_cq ctx n ch)) = q" and "q \<noteq> 0"
  shows "\<exists>w'. live_cqs (trace w') = q # live_cqs (trace w) \<and>
    ((\<exists>cq. RdmaCompletionQueue E ctx n ch w = Some (Ok cq, w') \<and> completionQ cq = q \<and> cq_inv cq) \<or>
     (\<exists>e. RdmaCompletionQueue E ctx n ch w = Some (Throw e, w')))"
  using assms
  by (auto simp: RdmaCompletionQueue_def requestEvent_def run_simps cq_inv_def blank_cq_def MaxQueueSize_def)

theorem cq_constructor_leak_witness:
  "\<exists>w'. live_cqs (trace w') = [4096] \<and>
    ((\<exists>cq. RdmaCompletionQueue env_ok 64 8 0 init_world = Some (Ok cq, w') \<and> completionQ cq = 4096 \<and> cq_inv cq) \<or>
     (\<exists>e. RdmaCompletionQueue env_ok 64 8 0 init_world = Some (Throw e, w')))"
proof -
  have "(64 :: u64) \<noteq> 0" "ptr_of env_ok (trace init_world) (CQ (Ibv_create_cq 64 8 0)) = 4096"
    "(4096 :: u64) \<noteq> 0" by simp_all
  from cq_constructor_leak [OF this] show ?thesis by simp
qed

section \<open>Well-formed queues\<close>

text \<open>The operations of a completion queue; a caller catches what they throw.\<close>

datatype cq_operation = Remove int | Pop | Poll | Request | Acknowledge nat | Destroy

fun cq_perform :: "env \<Rightarrow> cq_operation \<Rightarrow> (completion_queue \<times> 'a world_scheme, unit) M" where
  "cq_perform E (Remove n) = bindM (removeCompletions E n) (\<lambda>_. returnM ())"
| "cq_perform E Pop = bindM popCompletion (\<lambda>_. returnM ())"
| "cq_perform E Poll = bindM (poll_completion E) (\<lambda>_. returnM ())"
| "cq_perform E Request = requestEvent E"
| "cq_perform E (Acknowledge n) = ackEvents E n"
| "cq_perform E Destroy = destroy_cq E"

definition cq_session :: "env \<Rightarrow> cq_operation list \<Rightarrow> (completion_queue \<times> 'a world_scheme, unit) M" where
  "cq_session E = iterM (\<lambda>op. catchM (cq_perform E op) (\<lambda>e. returnM ()))"

text \<open>The two steps that end the program.\<close>

definition fatal_step :: "env \<Rightarrow> cq_operation \<Rightarrow> completion_queue \<Rightarrow> 'a world_scheme \<Rightarrow> fault \<Rightarrow> bool" where
  "fatal_step E op cq w q \<longleftrightarrow>
     (\<exists>n new. op = Remove n \<and> wcs_of E (trace w) (CQ (Ibv_poll_cq (completionQ cq) n)) = Inr new \<and>
        MaxQueueSize < numCompletions cq + length new \<and> q = OutOfBounds) \<or>
     (\<exists>wc rest. op = Poll \<and> wcs_of E (trace w) (CQ (Ibv_poll_cq (completionQ cq) 1)) = Inr (wc # rest) \<and>
        wc_status wc \<noteq> IBV_WC_SUCCESS \<and> q = Terminated)"

lemma cq_perform_typed:
  assumes "cq_inv cq"
  shows "\<exists>r cq' w'. cq_perform E op (cq, w) = Some (r, (cq', w')) \<and> cq_inv cq' \<and>
    (\<forall>q. r = Fault q \<longrightarrow> fatal_step E op cq w q)"
proof (cases op)
  case (Remove n)
  with assms show ?thesis
    by (cases "wcs_of E (trace w) (CQ (Ibv_poll_cq (completionQ cq) n))")
       (auto simp: bindM_run removeCompletions_run Let_def cq_inv_def length_write_at fatal_step_def)
next
  case Pop
  have "nextCompletion cq < MaxQueueSize" using assms by (auto simp: cq_inv_def MaxQueueSize_def split: if_splits)
  with Pop assms show ?thesis by (auto simp: bindM_run popCompletion_run cq_inv_def)
next
  case Poll
  show ?thesis
  proof (cases "wcs_of E (trace w) (CQ (Ibv_poll_cq (completionQ cq) 1))")
    case (Inr wcs)
    with Poll assms show ?thesis by (cases wcs) (auto simp: poll_completion_def run_simps fatal_step_def)
  qed (use Poll assms in \<open>simp add: poll_completion_def run_simps\<close>)
next
  case Request
  with assms show ?thesis by (auto simp: requestEvent_def run_simps)
next
  case (Acknowledge n)
  with assms show ?thesis by (simp add: ackEvents_def run_simps cq_inv_def)
next
  case Destroy
  with assms show ?thesis by (auto simp: destroy_cq_def run_simps cq_inv_def)
qed

text \<open>C23: No sequence of operations, whatever the device answers, makes a completion queue
  ill-formed: the indices stay inside the array, the read index behind the write index.  The
  program ends only at an operation, with all before it carried out, that is a poll which finds
  an error status, or one of the buffer that is answered with more completions than there is
  room for behind the write index.\<close>

theorem cq_stays_typed:
  assumes "cq_inv cq"
  shows "\<exists>r cq' w'. cq_session E ops (cq, w) = Some (r, (cq', w')) \<and> cq_inv cq' \<and>
    (r = Ok () \<or> (\<exists>pre op post cq1 w1 q. ops = pre @ op # post \<and> r = Fault q \<and>
       cq_session E pre (cq, w) = Some (Ok (), (cq1, w1)) \<and> cq_inv cq1 \<and> fatal_step E op cq1 w1 q))"
  using assms
proof (induction ops arbitrary: cq w)
  case Nil
  then show ?case by (simp add: cq_session_def)
next
  case (Cons op ops)
  from cq_perform_typed [OF Cons.prems, of E op w] obtain r cq1 w1 where
    p: "cq_perform E op (cq, w) = Some (r, (cq1, w1))" "cq_inv cq1" "\<forall>q. r = Fault q \<longrightarrow> fatal_step E op cq w q"
    by blast
  show ?case
  proof (cases "\<exists>q. r = Fault q")
    case True
    then obtain q where q: "r = Fault q" ..
    with p have "cq_session E (op # ops) (cq, w) = Some (r, (cq1, w1))" by (simp add: cq_session_def run_simps)
    moreover have "op # ops = [] @ op # ops" "cq_session E [] (cq, w) = Some (Ok (), (cq, w))"
      by (simp_all add: cq_session_def)
    ultimately show ?thesis using p(2,3) q Cons.prems by blast
  next
    case False
    then have step: "cq_session E (op # xs) (cq, w) = cq_session E xs (cq1, w1)" for xs
      using p(1) by (cases r) (simp_all add: cq_session_def bindM_run catchM_run)
    from Cons.IH [OF p(2), of w1] obtain r' cq' w' where
      IH: "cq_session E ops (cq1, w1) = Some (r', (cq', w'))" "cq_inv cq'"
        "r' = Ok () \<or> (\<exists>pre op post cq2 w2 q. ops = pre @ op # post \<and> r' = Fault q \<and>
          cq_session E pre (cq1, w1) = Some (Ok (), (cq2, w2)) \<and> cq_inv cq2 \<and> fatal_step E op cq2 w2 q)" by blast
    then show ?thesis using step by (metis append_Cons)
  qed
qed

theorem cq_stays_typed_witness:
  "\<exists>r cq' w'. cq_session env_ok [Remove 8, Pop, Poll, Request, Acknowledge 1, Destroy] (blank_cq 5, init_world) =
     Some (r, (cq', w')) \<and> cq_inv cq'"
proof -
  have "cq_inv (blank_cq 5)" by simp
  from cq_stays_typed [OF this, of env_ok "[Remove 8, Pop, Poll, Request, Acknowledge 1, Destroy]" init_world]
  show ?thesis by blast
qed

end
