(* ===== verification/CompletionChannel.thy ===== *)
theory CompletionChannel
  imports MemoryPool CompletionQueue
begin

unbundle bit_operations_syntax

text \<open>
  \<open>RdmaProtectionDomain\<close>, \<open>RdmaSharedReceiveQueue\<close> and \<open>RdmaCompletionChannel\<close>
  (\<open>include\<close> and \<open>src\<close> files of these names).  The completion queues live in a heap; the
  channel keeps a map from handles to pointers.  Shared pointers are plain pointers here:
  the map keeps a queue alive, and no queue is destroyed while it is in the map.
\<close>

section \<open>The heap of completion queues\<close>

record qworld = mworld +
  cqs :: "completion_queue heap"

definition init_qworld :: qworld where
  "init_qworld = \<lparr>trace = [], bgvrnic_device = False, regions = [], cqs = []\<rparr>"

lemma init_qworld_simps [simp]: "trace init_qworld = []" "regions init_qworld = []" "cqs init_qworld = []"
  by (simp_all add: init_qworld_def)

abbreviation on_cq :: "ptr \<Rightarrow> (completion_queue \<times> 'a qworld_scheme, 'b) M \<Rightarrow> ('a qworld_scheme, 'b) M" where
  "on_cq \<equiv> on_heap cqs cqs_update"

definition new_cq :: "completion_queue \<Rightarrow> ('a qworld_scheme, ptr) M" where
  "new_cq ob = bindM getM (\<lambda>w.
     thenM (modifyM (\<lambda>w. w\<lparr>cqs := heap_new ob (cqs w)\<rparr>)) (returnM (Suc (length (cqs w)))))"

lemma new_cq_run [simp, run_simps]:
  "new_cq ob w = Some (Ok (Suc (length (cqs w))), w\<lparr>cqs := heap_new ob (cqs w)\<rparr>)"
  by (simp add: new_cq_def run_simps)

section \<open>Protection domains\<close>

record rdma_domain =
  pd_ptr :: u64

definition RdmaProtectionDomain :: "env \<Rightarrow> u64 \<Rightarrow> ('a world_scheme, rdma_domain) M" where
  "RdmaProtectionDomain E ctx =
     (if ctx = 0 then throwM (RdmaError EFAULT ''device context pointer is null'')
      else bindM (ext_ptr E (CQ (Ibv_alloc_pd ctx))) (\<lambda>pd.
        if pd = 0 then throwM (RdmaError ENOMEM ''ibv_alloc_pd() failed'')
        else returnM \<lparr>pd_ptr = pd\<rparr>))"

definition destroy_domain :: "env \<Rightarrow> (rdma_domain \<times> 'a world_scheme, unit) M" where
  "destroy_domain E = bindM this_get (\<lambda>d.
     if pd_ptr d \<noteq> 0
     then bindM (on_world (ext_int E (CQ (Ibv_dealloc_pd (pd_ptr d))))) (\<lambda>err.
       if err = 0 then this_mod (\<lambda>d. d\<lparr>pd_ptr := 0\<rparr>) else returnM ())
     else returnM ())"

definition domain_handle :: "env \<Rightarrow> rdma_domain \<Rightarrow> u32" where
  "domain_handle E d = (if pd_ptr d \<noteq> 0 then handle_of E (pd_ptr d) else 0)"

section \<open>Shared receive queues\<close>

record shared_receive_queue =
  srq_domain :: u64
  srq_max_wr :: u32
  srq_max_sge :: u32
  srq_cmId :: u64

definition VERBS_EP_RX_CNT :: u32 where "VERBS_EP_RX_CNT = 4096"

definition RdmaSharedReceiveQueue ::
    "env \<Rightarrow> u64 \<Rightarrow> u64 \<Rightarrow> ('a world_scheme, shared_receive_queue) M" where
  "RdmaSharedReceiveQueue E cmId domain =
     (let srq = \<lparr>srq_domain = domain, srq_max_wr = VERBS_EP_RX_CNT, srq_max_sge = 6, srq_cmId = cmId\<rparr>
      in bindM (ext_int E (CM (Rdma_create_srq cmId domain (srq_max_wr srq) (srq_max_sge srq)))) (\<lambda>err.
        if err \<noteq> 0 then bindM (errno E) (\<lambda>e. throwM (RdmaError e ''rdma_create_srq() failed''))
        else returnM srq))"

definition destroy_srq :: "env \<Rightarrow> (shared_receive_queue \<times> 'a world_scheme, unit) M" where
  "destroy_srq E = bindM this_get (\<lambda>s.
     bindM (on_world (ext_int E (CM (Rdma_destroy_srq (srq_cmId s))))) (\<lambda>_. returnM ()))"

text \<open>The receive queue of the queue pair, or the null pointer before there is a queue pair.\<close>

definition get_SRQ :: "env \<Rightarrow> (shared_receive_queue \<times> 'a world_scheme, u64) M" where
  "get_SRQ E = bindM this_get (\<lambda>s.
     bindM (on_world (read_ext (\<lambda>t. qp_of E t (srq_cmId s)))) (\<lambda>qp. case qp of
       None \<Rightarrow> returnM 0
     | Some _ \<Rightarrow> on_world (read_ext (\<lambda>t. qp_srq_of E t (srq_cmId s)))))"

section \<open>The completion channel\<close>

text \<open>The constructor does not set \<open>_context\<close>; it is not read anywhere.\<close>

record completion_channel =
  completionChannel :: u64
  numEvents :: nat
  ackEventLimit :: nat
  queues :: "u32 \<rightharpoonup> ptr"

definition O_NONBLOCK :: u32 where "O_NONBLOCK = 0x800"

definition setNonBlockMode :: "env \<Rightarrow> bool \<Rightarrow> (completion_channel \<times> 'a world_scheme, unit) M" where
  "setNonBlockMode E mode = bindM this_get (\<lambda>ch.
     (let fd = fd_of E (completionChannel ch) in
     bindM (on_world (ext_int E (Chan (Fcntl_getfl fd)))) (\<lambda>fl.
     bindM (on_world (ext_int E (Chan (Fcntl_setfl fd
        (if mode then of_int fl OR O_NONBLOCK else of_int fl AND NOT O_NONBLOCK))))) (\<lambda>rc.
     if rc \<noteq> 0 then bindM (on_world (errno E)) (\<lambda>e. throwM (RdmaError e ''fcntl() failed''))
     else returnM ()))))"

definition isNonBlockMode :: "env \<Rightarrow> (completion_channel \<times> 'a world_scheme, bool) M" where
  "isNonBlockMode E = bindM this_get (\<lambda>ch.
     bindM (on_world (ext_int E (Chan (Fcntl_getfl (fd_of E (completionChannel ch)))))) (\<lambda>fl.
     returnM (of_int fl AND O_NONBLOCK \<noteq> 0)))"

definition RdmaCompletionChannel ::
    "env \<Rightarrow> u64 \<Rightarrow> bool \<Rightarrow> nat \<Rightarrow> ('a world_scheme, completion_channel) M" where
  "RdmaCompletionChannel E ctx nonblockMode ackLimit =
     construct \<lparr>completionChannel = 0, numEvents = 0, ackEventLimit = 0, queues = (\<lambda>_. None)\<rparr>
      (if ctx = 0 then throwM (RdmaError EFAULT ''device context pointer is null'')
       else bindM (on_world (ext_ptr E (Chan (Ibv_create_comp_channel ctx)))) (\<lambda>c.
         thenM (this_mod (\<lambda>ch. ch\<lparr>completionChannel := c\<rparr>))
         (if c = 0 then throwM (RdmaError ENOMEM ''ibv_create_comp_channel() failed'')
          else thenM (whenM nonblockMode (setNonBlockMode E nonblockMode))
                (this_mod (\<lambda>ch. ch\<lparr>numEvents := 0, ackEventLimit := ackLimit\<rparr>)))))"

definition destroy_channel :: "env \<Rightarrow> (completion_channel \<times> 'a world_scheme, unit) M" where
  "destroy_channel E =
     thenM (this_mod (\<lambda>ch. ch\<lparr>queues := (\<lambda>_. None)\<rparr>))
    (bindM this_get (\<lambda>ch.
     if completionChannel ch \<noteq> 0
     then bindM (on_world (ext_int E (Chan (Ibv_destroy_comp_channel (completionChannel ch))))) (\<lambda>err.
       if err = 0 then this_mod (\<lambda>ch. ch\<lparr>completionChannel := 0\<rparr>) else returnM ())
     else returnM ()))"

definition addCompletionQ :: "env \<Rightarrow> ptr \<Rightarrow> (completion_channel \<times> 'a qworld_scheme, unit) M" where
  "addCompletionQ E p =
     bindM (on_world (on_cq p this_get)) (\<lambda>cq.
     this_mod (\<lambda>ch. ch\<lparr>queues := (queues ch)(getHandle E cq \<mapsto> p)\<rparr>))"

definition removeCompletionQ :: "env \<Rightarrow> ptr \<Rightarrow> (completion_channel \<times> 'a qworld_scheme, unit) M" where
  "removeCompletionQ E p =
     bindM (on_world (on_cq p this_get)) (\<lambda>cq.
     this_mod (\<lambda>ch. ch\<lparr>queues := (queues ch)(getHandle E cq := None)\<rparr>))"

definition waitForEvent :: "env \<Rightarrow> (completion_channel \<times> 'a world_scheme, unit) M" where
  "waitForEvent E = bindM this_get (\<lambda>ch.
     bindM (on_world (ext_int E (Chan (Poll_fd (fd_of E (completionChannel ch)))))) (\<lambda>rc.
     if rc \<noteq> 1 then bindM (on_world (errno E)) (\<lambda>e. throwM (RdmaError e ''poll() failed''))
     else returnM ()))"

text \<open>
  \<open>getEvent\<close>.  Looking the handle up with \<open>_queues[...]\<close> makes a null entry for a handle
  that is not there.
\<close>

definition getEvent :: "env \<Rightarrow> (completion_channel \<times> 'a qworld_scheme, ptr) M" where
  "getEvent E = bindM this_get (\<lambda>ch.
     bindM (on_world (ext_id E (Chan (Ibv_get_cq_event (completionChannel ch))))) (\<lambda>(rc, eventQ).
     if rc \<noteq> 0 then bindM (on_world (errno E)) (\<lambda>err.
       if err = EAGAIN then returnM 0
       else throwM (RdmaError err ''ibv_get_cq_event() failed''))
     else
       (let h = handle_of E eventQ; p = (case queues ch h of None \<Rightarrow> 0 | Some p \<Rightarrow> p) in
        thenM (this_mod (\<lambda>ch. ch\<lparr>queues := (queues ch)(h \<mapsto> p)\<rparr>))
        (if p = 0 then throwM (RdmaError ESRCH ''completion queue not found'')
         else bindM (on_world (on_cq p (ackEvents E 1))) (\<lambda>_.
              bindM (on_world (on_cq p (requestEvent E))) (\<lambda>_.
              returnM p))))))"

section \<open>Events and acknowledgements\<close>

text \<open>Events taken from channels and not acknowledged yet: a queue with one cannot be destroyed.\<close>

fun unacked :: "trace \<Rightarrow> int" where
  "unacked [] = 0"
| "unacked ((Chan c, r) # t) = (case c of
       Ibv_get_cq_event ch \<Rightarrow> (case r of R_id (rc, q) \<Rightarrow> if rc = 0 then 1 else 0 | _ \<Rightarrow> 0)
     | _ \<Rightarrow> 0) + unacked t"
| "unacked ((CQ c, r) # t) = unacked t - (case c of Ibv_ack_cq_events q n \<Rightarrow> int n | _ \<Rightarrow> 0)"
| "unacked (_ # t) = unacked t"

text \<open>C25: an event for a queue that was added is delivered to that queue: \<open>getEvent\<close> returns
  it, acknowledges the one event, requests the next notification, and leaves the balance
  of events and acknowledgements as it was.\<close>

theorem getEvent_delivers:
  assumes "heap_get (cqs w) p = Some cq"
    and "id_of E (trace w) (Chan (Ibv_get_cq_event (completionChannel ch))) = (0, eventQ)"
    and "handle_of E eventQ = getHandle E cq"
    and "\<And>t. rc_of E t (CQ (Ibv_req_notify_cq (completionQ cq))) = 0"
  shows "\<exists>ch1 ch2 w'. addCompletionQ E p (ch, w) = Some (Ok (), (ch1, w)) \<and>
    getEvent E (ch1, w) = Some (Ok p, (ch2, w')) \<and> queues ch2 = queues ch1 \<and>
    unacked (trace w') = unacked (trace w) \<and>
    (\<exists>r. hd (trace w') = (CQ (Ibv_req_notify_cq (completionQ cq)), r)) \<and>
    heap_get (cqs w') p = Some (cq\<lparr>totalEvents := totalEvents cq + 1\<rparr>)"
proof -
  have p: "0 < p" using assms(1) by (cases p) auto
  let ?ch1 = "ch\<lparr>queues := (queues ch)(getHandle E cq \<mapsto> p)\<rparr>"
  have "addCompletionQ E p (ch, w) = Some (Ok (), (?ch1, w))"
    using assms(1) by (simp add: addCompletionQ_def on_heap_run run_simps)
  moreover have "\<exists>w'. getEvent E (?ch1, w) = Some (Ok p, (?ch1, w')) \<and>
      unacked (trace w') = unacked (trace w) \<and>
      (\<exists>r. hd (trace w') = (CQ (Ibv_req_notify_cq (completionQ cq)), r)) \<and>
      heap_get (cqs w') p = Some (cq\<lparr>totalEvents := totalEvents cq + 1\<rparr>)"
    using assms p by (simp add: getEvent_def run_simps on_heap_run Let_def ackEvents_def requestEvent_def
        heap_get_put fun_upd_idem)
  ultimately obtain w' where "addCompletionQ E p (ch, w) = Some (Ok (), (?ch1, w))"
    "getEvent E (?ch1, w) = Some (Ok p, (?ch1, w'))" "unacked (trace w') = unacked (trace w)"
    "\<exists>r. hd (trace w') = (CQ (Ibv_req_notify_cq (completionQ cq)), r)"
    "heap_get (cqs w') p = Some (cq\<lparr>totalEvents := totalEvents cq + 1\<rparr>)" by blast
  then show ?thesis by (intro exI [of _ ?ch1] exI [of _ w']) simp
qed

definition env_ev :: env where
  "env_ev = env_ok\<lparr>id_of := (\<lambda>t c. (0, 8))\<rparr>"

lemma env_ev_simps [simp]: "id_of env_ev t c = (0, 8)" "handle_of env_ev q = 1" "rc_of env_ev t c = 0"
    "fd_of env_ev q = 3" "logging env_ev = False" "ndebug env_ev = False"
  by (simp_all add: env_ev_def)

definition chan_5 :: completion_channel where
  "chan_5 = \<lparr>completionChannel = 5, numEvents = 0, ackEventLimit = 1, queues = (\<lambda>_. None)\<rparr>"

definition world_cq :: qworld where
  "world_cq = init_qworld\<lparr>cqs := [Some cq_8]\<rparr>"

theorem getEvent_delivers_witness:
  "\<exists>ch1 ch2 w'. addCompletionQ env_ev 1 (chan_5, world_cq) = Some (Ok (), (ch1, world_cq)) \<and>
    getEvent env_ev (ch1, world_cq) = Some (Ok 1, (ch2, w')) \<and> unacked (trace w') = 0"
proof -
  have h: "heap_get (cqs world_cq) 1 = Some cq_8"
    "id_of env_ev (trace world_cq) (Chan (Ibv_get_cq_event (completionChannel chan_5))) = (0, 8)"
    "handle_of env_ev 8 = getHandle env_ev cq_8"
    "\<And>t. rc_of env_ev t (CQ (Ibv_req_notify_cq (completionQ cq_8))) = 0"
    by (simp_all add: world_cq_def heap_get_def getHandle_def)
  have "trace world_cq = []" by (simp add: world_cq_def)
  with getEvent_delivers [OF h] show ?thesis by auto
qed

text \<open>An event for a queue the channel does not know throws \<open>ESRCH\<close>, leaves the event
  unacknowledged, and leaves a null entry in the map.\<close>

theorem getEvent_unknown:
  assumes "queues ch (handle_of E eventQ) = None"
    and "id_of E (trace w) (Chan (Ibv_get_cq_event (completionChannel ch))) = (0, eventQ)"
  shows "\<exists>w'. getEvent E (ch, w) = Some (Throw (RdmaError ESRCH ''completion queue not found''),
      (ch\<lparr>queues := (queues ch)(handle_of E eventQ \<mapsto> 0)\<rparr>, w')) \<and>
    unacked (trace w') = unacked (trace w) + 1"
  using assms by (simp add: getEvent_def run_simps Let_def)

theorem getEvent_unknown_witness:
  "\<exists>ch w'. getEvent env_ev (chan_5, init_qworld) =
      Some (Throw (RdmaError ESRCH ''completion queue not found''), (ch, w')) \<and> unacked (trace w') = 1"
proof -
  have "queues chan_5 (handle_of env_ev 8) = None"
    "id_of env_ev (trace init_qworld) (Chan (Ibv_get_cq_event (completionChannel chan_5))) = (0, 8)"
    by (simp_all add: chan_5_def)
  from getEvent_unknown [OF this] show ?thesis by auto
qed

text \<open>\<open>setNonBlockMode\<close> hands the kernel the flags it read with the non-blocking bit set or
  cleared and every other bit as it was, and throws exactly when the kernel refuses them.\<close>

theorem setNonBlockMode_flags:
  "\<exists>fl s. (fl AND O_NONBLOCK = (if mode then O_NONBLOCK else 0)) \<and>
    fl AND NOT O_NONBLOCK =
      of_int (rc_of E (trace w) (Chan (Fcntl_getfl (fd_of E (completionChannel ch))))) AND NOT O_NONBLOCK \<and>
    (\<exists>rc. hd (trace (snd s)) = (Chan (Fcntl_setfl (fd_of E (completionChannel ch)) fl), R_int rc) \<and>
      setNonBlockMode E mode (ch, w) = Some (if rc = 0 then Ok ()
        else Throw (RdmaError (errno_of E (trace (snd s))) ''fcntl() failed''), s))"
proof -
  let ?f = "of_int (rc_of E (trace w) (Chan (Fcntl_getfl (fd_of E (completionChannel ch))))) :: u32"
  let ?fl = "if mode then ?f OR O_NONBLOCK else ?f AND NOT O_NONBLOCK"
  have "?fl AND O_NONBLOCK = (if mode then O_NONBLOCK else 0)"
    by (cases mode) (simp_all add: bit_eq_iff bit_simps; blast?)+
  moreover have "?fl AND NOT O_NONBLOCK = ?f AND NOT O_NONBLOCK"
    by (cases mode) (simp_all add: bit_eq_iff bit_simps; blast?)+
  ultimately show ?thesis
    by (intro exI [of _ ?fl]) (simp add: setNonBlockMode_def run_simps Let_def)
qed

end
