(* ===== verification/ConnectionBase.thy ===== *)
theory ConnectionBase
  imports CompletionChannel
begin

text \<open>
  \<open>RdmaConnectionBase\<close> (\<open>include/RdmaConnectionBase.h\<close>): the count of posted receives and
  the refill from the memory pool.  The posting operation is virtual in the code, so the
  refill takes it as an argument; the classes of \<open>Connection\<close> and \<open>ClientServer\<close> provide
  it.  The memory pools and the shared receive queues live in heaps.
\<close>

section \<open>The world of the connections\<close>

record nworld = qworld +
  pools :: "memory_pool heap"
  srqs :: "shared_receive_queue heap"

definition init_nworld :: nworld where
  "init_nworld = \<lparr>trace = [], bgvrnic_device = False, regions = [], cqs = [], pools = [], srqs = []\<rparr>"

lemma init_nworld_simps [simp]: "trace init_nworld = []" "regions init_nworld = []"
    "cqs init_nworld = []" "pools init_nworld = []" "srqs init_nworld = []"
  by (simp_all add: init_nworld_def)

abbreviation on_pool :: "ptr \<Rightarrow> (memory_pool \<times> 'a nworld_scheme, 'b) M \<Rightarrow> ('a nworld_scheme, 'b) M" where
  "on_pool \<equiv> on_heap pools pools_update"

abbreviation on_srq ::
    "ptr \<Rightarrow> (shared_receive_queue \<times> 'a nworld_scheme, 'b) M \<Rightarrow> ('a nworld_scheme, 'b) M" where
  "on_srq \<equiv> on_heap srqs srqs_update"

section \<open>State and operations\<close>

text \<open>\<open>memoryPool\<close> is the shared pointer to the pool; \<open>waitingReceives\<close> an atomic 64-bit counter.\<close>

record connection_base =
  memoryPool :: ptr
  waitingReceives :: u64

definition popReceive :: "('c connection_base_scheme \<times> 'w, unit) M" where
  "popReceive = this_mod (\<lambda>c. c\<lparr>waitingReceives := waitingReceives c - 1\<rparr>)"

definition pushReceive :: "('c connection_base_scheme \<times> 'w, unit) M" where
  "pushReceive = this_mod (\<lambda>c. c\<lparr>waitingReceives := waitingReceives c + 1\<rparr>)"

definition getNumReceives :: "'c connection_base_scheme \<Rightarrow> u32" where
  "getNumReceives c = ucast (waitingReceives c)"

definition setMemoryPool :: "ptr \<Rightarrow> ('c connection_base_scheme \<times> 'w, unit) M" where
  "setMemoryPool p = this_mod (\<lambda>c. c\<lparr>memoryPool := p\<rparr>)"

text \<open>\<open>~RdmaConnectionBase\<close>: outstanding receives are reported, not flushed.\<close>

definition destroy_base :: "('c connection_base_scheme \<times> 'w, unit) M" where
  "destroy_base = this_mod (\<lambda>c. c\<lparr>memoryPool := 0\<rparr>)"

text \<open>A null region would be reported and then dereferenced.\<close>

definition getFreeRegion ::
    "env \<Rightarrow> u64 \<Rightarrow> ('c connection_base_scheme \<times> 'a nworld_scheme, ptr) M" where
  "getFreeRegion E sz = bindM this_get (\<lambda>c.
     bindM (on_world (on_pool (memoryPool c) (allocateRegion E sz))) (\<lambda>region.
     thenM (on_world (on_region region (this_mod (setMessageLength (ucast sz)))))
     (returnM region)))"

type_synonym ('c, 'w) post = "ptr \<Rightarrow> u32 \<Rightarrow> bool \<Rightarrow> ('c \<times> 'w, u64) M"

partial_function (option) refill_preposts ::
    "env \<Rightarrow> ('c connection_base_scheme, 'a nworld_scheme) post \<Rightarrow> u32 \<Rightarrow>
     'c connection_base_scheme \<times> 'a nworld_scheme \<Rightarrow>
     (unit result \<times> 'c connection_base_scheme \<times> 'a nworld_scheme) option" where
  "refill_preposts E postRecv preposts s =
     bindM this_get (\<lambda>c t.
       if getNumReceives c < preposts
       then bindM (on_world (on_pool (memoryPool c) this_get)) (\<lambda>mp t.
         if canAllocateRegionUnsafe 0 mp
         then bindM (bindM (getFreeRegion E (chunk_size (small mp))) (\<lambda>region.
                bindM (on_world (on_region region getLength)) (\<lambda>len.
                postRecv region len False)))
              (\<lambda>_. refill_preposts E postRecv preposts) t
         else refill_preposts E postRecv preposts t) t
       else returnM () t) s"

section \<open>Facts\<close>

text \<open>The pool of the connection in its world.\<close>

lemma refill_enough:
  "preposts \<le> getNumReceives c \<Longrightarrow> refill_preposts E post preposts (c, w) = Some (Ok (), (c, w))"
  by (subst refill_preposts.simps) (simp add: run_simps not_less [symmetric])

lemma refill_needs_pool:
  assumes "refill_preposts E post preposts s = Some y"
  shows "\<forall>mp. getNumReceives (fst s) < preposts \<longrightarrow>
      heap_get (pools (snd s)) (memoryPool (fst s)) = Some mp \<longrightarrow> canAllocateRegionUnsafe 0 mp"
proof (rule refill_preposts.raw_induct [where P = "\<lambda>E post n s y. \<forall>mp. getNumReceives (fst s) < n \<longrightarrow>
      heap_get (pools (snd s)) (memoryPool (fst s)) = Some mp \<longrightarrow> canAllocateRegionUnsafe 0 mp",
      OF _ assms], goal_cases)
  case (1 rec E post n s y)
  then show ?case
    by (cases s; cases y) (fastforce simp: run_simps on_heap_run split: if_splits)
qed

lemma refill_spins':
  assumes "getNumReceives c < preposts" and "heap_get (pools w) (memoryPool c) = Some mp"
    and "free_list (small mp) = []"
  shows "refill_preposts E post preposts (c, w) = None"
proof (rule ccontr)
  assume "\<not> ?thesis"
  then obtain y where "refill_preposts E post preposts (c, w) = Some y" by auto
  from refill_needs_pool [OF this] assms show False by (simp add: canAllocateRegionUnsafe_def)
qed

text \<open>When the pool has no free small block and receives are missing, \<open>refill_preposts\<close>
  never returns: it asks the pool again and again.  (The comment in the code says that it
  does not wait but aborts.)\<close>

theorem refill_spins:
  assumes "getNumReceives c < preposts" and "heap_get (pools w) (memoryPool c) = Some mp"
    and "free_list (small mp) = []"
  shows "refill_preposts E post preposts (c, w) = None"
  using assms by (rule refill_spins')

definition empty_pool_world :: nworld where
  "empty_pool_world = init_nworld\<lparr>pools := [Some (new_pool 9)]\<rparr>"

theorem refill_spins_witness:
  "refill_preposts env_ok (\<lambda>p n b. returnM 0) 2
     (\<lparr>memoryPool = 1, waitingReceives = 0\<rparr>, empty_pool_world) = None"
  by (rule refill_spins [where mp = "new_pool 9"])
     (simp_all add: getNumReceives_def empty_pool_world_def heap_get_def new_pool_def new_pool_container_def)

text \<open>The counter of posted receives wraps around: a completion that is counted when none
  is posted makes \<open>getNumReceives\<close> the largest 32-bit number, and from then on nothing is
  ever preposted, however many receives the controller asks for.\<close>

theorem popReceive_underflow:
  assumes "waitingReceives c = 0"
  shows "\<exists>c'. popReceive (c, w) = Some (Ok (), (c', w)) \<and> getNumReceives c' = - 1 \<and>
    refill_preposts E post preposts (c', w) = Some (Ok (), (c', w))"
proof -
  let ?c = "c\<lparr>waitingReceives := - 1\<rparr>"
  have n: "getNumReceives ?c = - 1"
    unfolding getNumReceives_def by (rule bit_word_eqI) (simp add: bit_simps)
  moreover have "preposts \<le> - 1" by (rule word_order.extremum)
  ultimately have "refill_preposts E post preposts (?c, w) = Some (Ok (), (?c, w))"
    by (intro refill_enough) simp
  with n assms show ?thesis by (simp add: popReceive_def)
qed

theorem popReceive_underflow_witness:
  "\<exists>c'. popReceive (\<lparr>memoryPool = 1, waitingReceives = 0\<rparr>, init_nworld) = Some (Ok (), (c', init_nworld)) \<and>
     refill_preposts env_ok (\<lambda>p n b. returnM 0) 32 (c', init_nworld) = Some (Ok (), (c', init_nworld))"
  using popReceive_underflow [of "\<lparr>memoryPool = 1, waitingReceives = 0\<rparr>" init_nworld env_ok
      "\<lambda>p n b. returnM 0" 32]
  by auto

section \<open>The refill ends when the pool can serve it\<close>

lemma block_at_cong:
  "heap_get (regions w) p = heap_get (regions w') p \<Longrightarrow> block_at n p mp w = block_at n p mp w'"
  by (simp add: block_at_def)

lemma mp_inv_cong: "regions w = regions w' \<Longrightarrow> mp_inv (mp, w) = mp_inv (mp, w')"
  by (simp add: mp_inv_def block_at_def)

text \<open>What a region holds: everything of it but the message length.\<close>

definition shape :: "'a mworld_scheme \<Rightarrow> ptr \<Rightarrow> (ibv_mr option \<times> u32) option" where
  "shape w p = map_option (\<lambda>ob. (region ob, flags ob)) (heap_get (regions w) p)"

lemma mp_inv_shape:
  assumes "mp_inv (mp, w)" and "\<forall>p \<in> set (all_blocks mp). shape w' p = shape w p"
  shows "mp_inv (mp, w')"
proof -
  have "block_at n p mp w'" if "block_at n p mp w" "p \<in> set (all_blocks mp)" for n p
  proof -
    from that(1) obtain ob mr where ob: "heap_get (regions w) p = Some ob" "region ob = Some mr"
      "flags ob = 0" "mr_length mr = n" "pointer_map mp (mr_addr mr) = Some p" by (auto simp: block_at_def)
    then have "shape w' p = Some (region ob, flags ob)" using assms(2) that(2) by (simp add: shape_def)
    then obtain ob' where "heap_get (regions w') p = Some ob'" "region ob' = region ob" "flags ob' = flags ob"
      by (auto simp: shape_def)
    with ob show ?thesis by (simp add: block_at_def)
  qed
  with assms(1) show ?thesis by (simp add: mp_inv_def set_all_blocks) blast
qed

lemma shape_message_length:
  "heap_get (regions w) p = Some ob \<Longrightarrow> regions w' = heap_put p (setMessageLength n ob) (regions w) \<Longrightarrow>
   shape w' = shape w"
  by (rule ext) (simp add: shape_def heap_get_put setMessageLength_def)

text \<open>The heaps while receives are posted: message lengths and free lists may change.\<close>

definition heaps_kept :: "'a nworld_scheme \<Rightarrow> 'a nworld_scheme \<Rightarrow> bool" where
  "heaps_kept w w' \<longleftrightarrow> cqs w' = cqs w \<and> srqs w' = srqs w \<and> nworld.more w' = nworld.more w \<and>
     shape w' = shape w \<and>
     (\<forall>p. map_option all_blocks (heap_get (pools w') p) = map_option all_blocks (heap_get (pools w) p))"

lemma heaps_kept_refl [simp]: "heaps_kept w w"
  by (simp add: heaps_kept_def)

lemma heaps_kept_trans [trans]: "heaps_kept w w1 \<Longrightarrow> heaps_kept w1 w2 \<Longrightarrow> heaps_kept w w2"
  by (simp add: heaps_kept_def)

lemma heaps_kept_more: "heaps_kept w w' \<Longrightarrow> nworld.more w' = nworld.more w"
  by (simp add: heaps_kept_def)

lemma all_blocks_pop:
  assumes "on_chunk c pop (mp, w) = Some (Ok p, (mp', w'))"
  shows "all_blocks mp' = all_blocks mp"
  using assms by (cases c) (auto simp: on_chunk_run pop_run all_blocks_def split: if_splits)

text \<open>The small blocks that are out of the pool.\<close>

definition handed_out :: "memory_pool \<Rightarrow> ptr multiset" where
  "handed_out mp = mset_set (outstanding (small mp))"

lemma handed_out_pop:
  assumes "mp_inv (mp, w)" and "on_chunk Small pop (mp, w) = Some (Ok p, (mp', w'))"
  shows "handed_out mp' = add_mset p (handed_out mp)"
proof -
  from assms(2) obtain pc s where p: "pop (small mp, (mp, w)) = Some (Ok p, (pc, s))"
    and mp': "mp' = set_container Small pc (fst s)"
    by (auto simp: on_chunk_run split: run_splits)
  have "pool_inv (small mp)" using mp_invD(1) [OF assms(1), of Small] by simp
  from pop_inv [OF this p] have s: "s = (mp, w)" "p \<in> set (free_list (small mp))"
    "outstanding pc = insert p (outstanding (small mp))" by blast+
  then have "p \<notin> outstanding (small mp)" by (simp add: outstanding_def)
  moreover have "finite (outstanding (small mp))" by (simp add: outstanding_def)
  ultimately show ?thesis using s(1,3) mp' by (simp add: handed_out_def)
qed

lemma getFreeRegion_small:
  assumes "heap_get (pools w) (memoryPool c) = Some mp" and "mp_inv (mp, w)"
    and "free_list (small mp) \<noteq> []"
  obtains p mp' w' ob mr where
    "getFreeRegion E (chunk_size (small mp)) (c, w) = Some (Ok p, (c, w'))"
    "heap_get (pools w') (memoryPool c) = Some mp'" "mp_inv (mp', w')"
    "length (free_list (small mp')) + 1 = length (free_list (small mp))"
    "heap_get (regions w') p = Some ob" "region ob = Some mr" "trace w' = trace w"
    "heaps_kept w w'" "handed_out mp' = add_mset p (handed_out mp)"
proof -
  have cs: "chunk_size (small mp) = size_of Small" using mp_invD(2) [OF assms(2), of Small] by simp
  have "canAllocateRegionUnsafe (size_of Small) mp"
    unfolding canAllocate_chunk [OF assms(2)] using assms(3) by (simp del: size_of.simps)
  moreover have "size_of Small \<le> 0x100000" by simp
  ultimately obtain d p mp' where d: "chunk_for (size_of Small) = Some d"
    "allocateRegion E (size_of Small) (mp, w) = on_chunk d pop (mp, w)"
    "on_chunk d pop (mp, w) = Some (Ok p, (mp', w))"
    by (rule allocateRegion_free [OF assms(2)])
  have "d = Small" using d(1) unfolding chunk_for_size by simp
  with d have run: "allocateRegion E (size_of Small) (mp, w) = Some (Ok p, (mp', w))"
    and pop: "on_chunk Small pop (mp, w) = Some (Ok p, (mp', w))" by auto
  from pop_chunk [OF assms(2) pop] obtain ob mr where
    inv: "mp_inv (mp', w)" and ob: "heap_get (regions w) p = Some ob" "region ob = Some mr"
    by (auto simp: block_at_def)
  from pop assms(3) have len: "length (free_list (small mp')) + 1 = length (free_list (small mp))"
    by (auto simp: run_simps)
  let ?w1 = "w\<lparr>pools := heap_put (memoryPool c) mp' (pools w)\<rparr>"
  let ?ob = "setMessageLength (ucast (size_of Small)) ob"
  let ?w2 = "?w1\<lparr>regions := heap_put p ?ob (regions w)\<rparr>"
  have "getFreeRegion E (size_of Small) (c, w) = Some (Ok p, (c, ?w2))"
    using run assms(1) ob by (simp add: getFreeRegion_def run_simps on_heap_run del: size_of.simps)
  moreover have "heap_get (pools ?w2) (memoryPool c) = Some mp'"
    using assms(1) by (simp add: heap_get_put)
  moreover have sh: "shape ?w2 = shape w" by (rule shape_message_length [OF ob(1)]) simp
  moreover have "mp_inv (mp', ?w2)" by (rule mp_inv_shape [OF inv]) (simp only: sh, simp)
  moreover have "heaps_kept w ?w2"
    using sh all_blocks_pop [OF pop] assms(1) by (simp add: heaps_kept_def heap_get_put)
  moreover have "heap_get (regions ?w2) p = Some ?ob" "region ?ob = Some mr"
    using ob by (simp_all add: heap_get_put setMessageLength_def)
  ultimately show thesis using that [of p ?w2 mp' ?ob mr] len cs handed_out_pop [OF assms(2) pop] by simp
qed

text \<open>
  The contract of the operation that posts a receive: on a registered region, and as long
  as the connection is ready, it succeeds, counts one receive more, and leaves the heaps
  alone.  Whether it is ready does not depend on the message lengths and the pools; it may
  depend on the regions \<open>P\<close> that have been posted so far.
\<close>

locale receive_poster =
  fixes ready :: "u64 multiset \<Rightarrow> 'c connection_base_scheme \<Rightarrow> 'a nworld_scheme \<Rightarrow> bool"
    and postRecv :: "('c connection_base_scheme, 'a nworld_scheme) post"
  assumes post_counts: "\<lbrakk>ready P c w; heap_get (regions w) p = Some ob; region ob = Some mr\<rbrakk> \<Longrightarrow>
      \<exists>i c' w'. postRecv p n b (c, w) = Some (Ok i, (c', w')) \<and> ready (add_mset (of_nat p) P) c' w' \<and>
        waitingReceives c' = waitingReceives c + 1 \<and> memoryPool c' = memoryPool c \<and>
        regions w' = regions w \<and> pools w' = pools w \<and> cqs w' = cqs w \<and> srqs w' = srqs w \<and>
        nworld.more w' = nworld.more w"
    and ready_heaps: "ready P c w \<Longrightarrow> trace w' = trace w \<Longrightarrow> ready P c w'"
begin

lemma refill_step:
  assumes "ready P c w" and "heap_get (pools w) (memoryPool c) = Some mp" and "mp_inv (mp, w)"
    and "free_list (small mp) \<noteq> []" and "getNumReceives c < preposts"
  obtains c' w' mp' p where
    "refill_preposts E postRecv preposts (c, w) = refill_preposts E postRecv preposts (c', w')"
    "ready (add_mset (of_nat p) P) c' w'" "heap_get (pools w') (memoryPool c') = Some mp'" "mp_inv (mp', w')"
    "length (free_list (small mp')) + 1 = length (free_list (small mp))"
    "waitingReceives c' = waitingReceives c + 1" "memoryPool c' = memoryPool c"
    "heaps_kept w w'" "handed_out mp' = add_mset p (handed_out mp)"
proof -
  have can: "canAllocateRegionUnsafe 0 mp" using assms(4) by (simp add: canAllocateRegionUnsafe_def)
  obtain p mp' w1 ob mr where get: "getFreeRegion E (chunk_size (small mp)) (c, w) = Some (Ok p, (c, w1))"
    and mp': "heap_get (pools w1) (memoryPool c) = Some mp'" "mp_inv (mp', w1)"
      "length (free_list (small mp')) + 1 = length (free_list (small mp))"
    and ob: "heap_get (regions w1) p = Some ob" "region ob = Some mr" and tr: "trace w1 = trace w"
      "heaps_kept w w1" "handed_out mp' = add_mset p (handed_out mp)"
    by (rule getFreeRegion_small [OF assms(2-4)])
  from post_counts [OF ready_heaps [OF assms(1) tr(1)] ob] obtain i c' w' where
    post: "postRecv p (mr_length32 mr) False (c, w1) = Some (Ok i, (c', w'))" and
    r: "ready (add_mset (of_nat p) P) c' w'" "waitingReceives c' = waitingReceives c + 1" "memoryPool c' = memoryPool c"
      "regions w' = regions w1" "pools w' = pools w1" "cqs w' = cqs w1" "srqs w' = srqs w1"
      "nworld.more w' = nworld.more w1" by blast
  have "on_region p getLength w1 = Some (Ok (mr_length32 mr), w1)"
    using ob by (simp add: on_heap_run getLength_def through_region_def run_simps)
  then have "refill_preposts E postRecv preposts (c, w) = refill_preposts E postRecv preposts (c', w')"
    using assms(2,5) can get post by (subst refill_preposts.simps) (simp add: run_simps on_heap_run)
  moreover have "mp_inv (mp', w')" using mp'(2) r(4) mp_inv_cong by metis
  moreover have "heaps_kept w1 w'" using r(4-8) by (simp add: heaps_kept_def shape_def fun_eq_iff)
  then have "heaps_kept w w'" by (rule heaps_kept_trans [OF tr(2)])
  ultimately show thesis using that [of c' w' p mp'] r(1-3,5) mp' tr(3) by simp
qed

lemma refill_returns:
  assumes "ready P c w" and "heap_get (pools w) (memoryPool c) = Some mp" and "mp_inv (mp, w)"
    and "unat (waitingReceives c) + k = unat preposts" and "k \<le> length (free_list (small mp))"
  shows "\<exists>c' w' mp' Q. refill_preposts E postRecv preposts (c, w) = Some (Ok (), (c', w')) \<and>
    getNumReceives c' = preposts \<and> unat (waitingReceives c') = unat preposts \<and>
    memoryPool c' = memoryPool c \<and> ready (P + image_mset of_nat Q) c' w' \<and>
    heap_get (pools w') (memoryPool c) = Some mp' \<and> mp_inv (mp', w') \<and>
    length (free_list (small mp')) + k = length (free_list (small mp)) \<and>
    heaps_kept w w' \<and> handed_out mp' = handed_out mp + Q \<and> size Q = k"
  using assms
proof (induction k arbitrary: P c w mp)
  case 0
  moreover have "unat preposts < 2 ^ 32" using unsigned_less [of preposts] by simp
  ultimately have "unat (waitingReceives c) < 2 ^ 32" by linarith
  then have "getNumReceives c = preposts"
    using 0(4) by (simp add: getNumReceives_def word_unat_eq_iff ucast_small_u64)
  with 0 refill_enough [of preposts c E postRecv w] show ?case
    by (intro exI [of _ c] exI [of _ w] exI [of _ mp] exI [of _ "{#}"]) auto
next
  case (Suc k)
  have lt: "unat (waitingReceives c) < unat preposts" using Suc.prems(4) by simp
  moreover have "unat preposts < 2 ^ 32" using unsigned_less [of preposts] by simp
  ultimately have small: "unat (waitingReceives c) < 2 ^ 32" by linarith
  with lt have less: "getNumReceives c < preposts"
    by (simp add: getNumReceives_def word_less_nat_alt ucast_small_u64)
  from Suc.prems(5) have ne: "free_list (small mp) \<noteq> []" by auto
  obtain c' w' mp' p where step:
    "refill_preposts E postRecv preposts (c, w) = refill_preposts E postRecv preposts (c', w')"
    "ready (add_mset (of_nat p) P) c' w'" "heap_get (pools w') (memoryPool c') = Some mp'" "mp_inv (mp', w')"
    "length (free_list (small mp')) + 1 = length (free_list (small mp))"
    "waitingReceives c' = waitingReceives c + 1" "memoryPool c' = memoryPool c"
    "heaps_kept w w'" "handed_out mp' = add_mset p (handed_out mp)"
    by (rule refill_step [OF Suc.prems(1-3) ne less])
  have "unat (waitingReceives c') = unat (waitingReceives c) + 1"
    using step(6) small by (simp add: unat_plus_if_size word_size unat_word_ariths)
  with Suc.prems(4) have "unat (waitingReceives c') + k = unat preposts" by simp
  moreover have "k \<le> length (free_list (small mp'))" using step(5) Suc.prems(5) by simp
  ultimately obtain c'' w'' mp'' Q where
    "refill_preposts E postRecv preposts (c', w') = Some (Ok (), (c'', w''))"
    "getNumReceives c'' = preposts" "unat (waitingReceives c'') = unat preposts"
    "memoryPool c'' = memoryPool c'" "ready (add_mset (of_nat p) P + image_mset of_nat Q) c'' w''"
    "heap_get (pools w'') (memoryPool c') = Some mp''" "mp_inv (mp'', w'')"
    "length (free_list (small mp'')) + k = length (free_list (small mp'))"
    "heaps_kept w' w''" "handed_out mp'' = handed_out mp' + Q" "size Q = k"
    using Suc.IH [OF step(2-4)] by blast
  moreover from step(8) this(9) have "heaps_kept w w''" by (rule heaps_kept_trans)
  ultimately show ?case using step
    by (intro exI [of _ c''] exI [of _ w''] exI [of _ mp''] exI [of _ "add_mset p Q"]) simp
qed

text \<open>With too few blocks it takes them all and then asks forever.\<close>

lemma refill_blocks:
  assumes "ready P c w" and "heap_get (pools w) (memoryPool c) = Some mp" and "mp_inv (mp, w)"
    and "unat (waitingReceives c) + k = unat preposts" and "length (free_list (small mp)) < k"
  shows "refill_preposts E postRecv preposts (c, w) = None"
  using assms
proof (induction k arbitrary: P c w mp)
  case 0
  then show ?case by simp
next
  case (Suc k)
  have lt: "unat (waitingReceives c) < unat preposts" using Suc.prems(4) by simp
  moreover have "unat preposts < 2 ^ 32" using unsigned_less [of preposts] by simp
  ultimately have small: "unat (waitingReceives c) < 2 ^ 32" by linarith
  with lt have less: "getNumReceives c < preposts"
    by (simp add: getNumReceives_def word_less_nat_alt ucast_small_u64)
  show ?case
  proof (cases "free_list (small mp) = []")
    case True
    with less Suc.prems(2) show ?thesis by (rule refill_spins')
  next
    case False
    obtain c' w' mp' p where step:
      "refill_preposts E postRecv preposts (c, w) = refill_preposts E postRecv preposts (c', w')"
      "ready (add_mset (of_nat p) P) c' w'" "heap_get (pools w') (memoryPool c') = Some mp'" "mp_inv (mp', w')"
      "length (free_list (small mp')) + 1 = length (free_list (small mp))"
      "waitingReceives c' = waitingReceives c + 1"
      by (rule refill_step [OF Suc.prems(1-3) False less])
    have "unat (waitingReceives c') = unat (waitingReceives c) + 1"
      using step(6) small by (simp add: unat_plus_if_size word_size unat_word_ariths)
    with Suc.prems(4) have "unat (waitingReceives c') + k = unat preposts" by simp
    moreover have "length (free_list (small mp')) < k" using step(5) Suc.prems(5) by simp
    ultimately show ?thesis using Suc.IH [OF step(2-4)] step(1) by simp
  qed
qed

end

end
