(* ===== verification/Connection.thy ===== *)
theory Connection
  imports ConnectionBase
begin

text \<open>
  \<open>RdmaConnection\<close> (\<open>include/RdmaConnection.h\<close>, \<open>src/RdmaConnection.cpp\<close>): a connection
  to a remote partner over an rdma connection manager identifier.  The theory has the
  life of a connection (identifier, queue pair, addresses, connecting and disconnecting)
  and the posting of work requests.  \<open>RdmaClient\<close> and \<open>RdmaServer\<close> extend the record.

  The event channel class of HPX is outside the repository: \<open>get_event\<close> and
  \<open>poll_event_channel\<close> are calls of the environment.  The protection domain is given by
  its \<open>ibv_pd\<close>, a queue pair by the identifier that owns it.
\<close>

section \<open>State\<close>

record connection = connection_base +
  tag :: string
  cmId :: u64
  eventChannel :: u64
  event :: "cm_event option"
  localAddress :: sockaddr_in
  remoteAddress :: sockaddr_in
  totalRecvPosted :: u64
  totalSendPosted :: u64
  totalReadPosted :: u64
  totalWritePosted :: u64
  initiated_connection :: bool
  srq :: ptr

type_synonym ('c, 'a, 'b) conn = "('c connection_scheme \<times> 'a nworld_scheme, 'b) M"

definition blank_connection :: connection where
  "blank_connection = \<lparr>memoryPool = 0, waitingReceives = 0, tag = '''', cmId = 0, eventChannel = 0,
     event = None, localAddress = zero_sockaddr, remoteAddress = zero_sockaddr,
     totalRecvPosted = 0, totalSendPosted = 0, totalReadPosted = 0, totalWritePosted = 0,
     initiated_connection = False, srq = 0\<rparr>"

definition init :: "('c, 'a, unit) conn" where
  "init = this_mod (\<lambda>c. c\<lparr>eventChannel := 0, event := None, localAddress := zero_sockaddr,
     remoteAddress := zero_sockaddr, tag := ''[QP ?] '', totalRecvPosted := 0, totalSendPosted := 0,
     totalReadPosted := 0, totalWritePosted := 0, initiated_connection := False\<rparr>)"

section \<open>Addresses\<close>

text \<open>\<open>atoi\<close> of a decimal port number: leading digits, anything else ends the number.\<close>

fun atoi_digits :: "nat \<Rightarrow> string \<Rightarrow> nat" where
  "atoi_digits n [] = n"
| "atoi_digits n (c # cs) =
     (if 48 \<le> (of_char c :: nat) \<and> (of_char c :: nat) < 58
      then atoi_digits (10 * n + (of_char c - 48)) cs else n)"

text \<open>
  The port is stored as the number it is, not in network order.  \<open>Inl\<close> is the error
  returned, \<open>Inr\<close> the address written.
\<close>

definition stringToAddress ::
    "env \<Rightarrow> string \<Rightarrow> string \<Rightarrow> ('a world_scheme, int + sockaddr_in) M" where
  "stringToAddress E addrString portString =
     bindM (ext_addr E (Conn (Getaddrinfo addrString portString))) (\<lambda>res. case res of
       Inl err \<Rightarrow> returnM (Inl err)
     | Inr ai \<Rightarrow>
         if sin_family ai \<noteq> PF_INET then returnM (Inl EINVAL)
         else returnM (Inr (ai\<lparr>sin_port := of_nat (atoi_digits 0 portString)\<rparr>)))"

definition addressToString :: "sockaddr_in \<Rightarrow> string" where
  "addressToString a = butlast (ipaddress (sin_addr a)) @ '':'' @ dec_int (uint (sin_port a))"

definition getLocalIPv4Address :: "'c connection_scheme \<Rightarrow> u32" where
  "getLocalIPv4Address c = sin_addr (localAddress c)"

definition getRemoteIPv4Address :: "'c connection_scheme \<Rightarrow> u32" where
  "getRemoteIPv4Address c = sin_addr (remoteAddress c)"

definition getRemotePort :: "'c connection_scheme \<Rightarrow> u16" where
  "getRemotePort c = sin_port (remoteAddress c)"

definition getLocalAddressString :: "'c connection_scheme \<Rightarrow> string" where
  "getLocalAddressString c = addressToString (localAddress c)"

definition getRemoteAddressString :: "'c connection_scheme \<Rightarrow> string" where
  "getRemoteAddressString c = addressToString (remoteAddress c)"

definition setTag :: "string \<Rightarrow> ('c, 'a, unit) conn" where
  "setTag s = this_mod (\<lambda>c. c\<lparr>tag := s\<rparr>)"

definition setInitiatedConnection :: "bool \<Rightarrow> ('c, 'a, unit) conn" where
  "setInitiatedConnection i = this_mod (\<lambda>c. c\<lparr>initiated_connection := i\<rparr>)"

section \<open>Identifier and queue pair\<close>

definition createId :: "env \<Rightarrow> ('c, 'a, unit) conn" where
  "createId E =
     bindM (on_world (ext_ptr E (CM Rdma_create_event_channel))) (\<lambda>ch.
     thenM (this_mod (\<lambda>c. c\<lparr>eventChannel := ch\<rparr>))
     (if ch = 0 then throwM (RdmaError EINVAL ''rdma_create_event_channel() failed'')
      else bindM (on_world (ext_id E (CM (Rdma_create_id ch)))) (\<lambda>(err, i).
        if err \<noteq> 0 then throwM (RdmaError err ''rdma_create_id() failed'')
        else this_mod (\<lambda>c. c\<lparr>cmId := i\<rparr>))))"

text \<open>\<open>get_SRQ\<close> of a connection: the queue of its shared receive queue object, if it has one.\<close>

definition conn_get_SRQ :: "env \<Rightarrow> ('c, 'a, u64) conn" where
  "conn_get_SRQ E = bindM this_get (\<lambda>c.
     if srq c = 0 then returnM 0 else on_world (on_srq (srq c) (get_SRQ E)))"

definition getQpNum :: "env \<Rightarrow> ('c, 'a, u32) conn" where
  "getQpNum E = bindM this_get (\<lambda>c.
     bindM (on_world (read_ext (\<lambda>t. qp_of E t (cmId c)))) (\<lambda>qp. case qp of
       None \<Rightarrow> faultM NullDeref
     | Some n \<Rightarrow> returnM n))"

definition createQp :: "env \<Rightarrow> u64 \<Rightarrow> ptr \<Rightarrow> ptr \<Rightarrow> u32 \<Rightarrow> bool \<Rightarrow> ('c, 'a, unit) conn" where
  "createQp E domain sendCompletionQ recvCompletionQ maxWorkRequests signalSendQueue =
     bindM this_get (\<lambda>c.
     bindM (on_world (on_cq sendCompletionQ this_get)) (\<lambda>sq.
     bindM (on_world (on_cq recvCompletionQ this_get)) (\<lambda>rq.
     bindM (conn_get_SRQ E) (\<lambda>s.
     bindM (on_world (ext_int E (CM (Rdma_create_qp (cmId c) domain
        \<lparr>qa_max_send_wr = 4096, qa_max_recv_wr = 4096, qa_max_send_sge = 6, qa_max_recv_sge = 6,
          qa_sq_sig_all = signalSendQueue, qa_send_cq = completionQ sq, qa_recv_cq = completionQ rq,
          qa_srq = s\<rparr>)))) (\<lambda>rc.
     if rc \<noteq> 0 then bindM (on_world (errno E)) (\<lambda>e. throwM (RdmaError e ''rdma_create_qp() failed''))
     else bindM (getQpNum E) (\<lambda>n.
       this_mod (\<lambda>c. c\<lparr>tag := ''[QP '' @ dec_int (uint n) @ ''] ''\<rparr>)))))))"

definition getContext :: "env \<Rightarrow> ('c, 'a, u64) conn" where
  "getContext E = bindM this_get (\<lambda>c. on_world (read_ext (\<lambda>t. verbs_of E t (cmId c))))"

definition getLocalPort :: "env \<Rightarrow> ('c, 'a, u16) conn" where
  "getLocalPort E = bindM this_get (\<lambda>c.
     if sin_port (localAddress c) = 0
     then bindM (on_world (ext_int E (Conn (Rdma_get_src_port (cmId c))))) (\<lambda>p.
       thenM (this_mod (\<lambda>c. c\<lparr>localAddress := (localAddress c)\<lparr>sin_port := of_int p\<rparr>\<rparr>))
             (returnM (of_int p)))
     else returnM (sin_port (localAddress c)))"

text \<open>\<open>create_srq\<close> turns an exception into the result 0.\<close>

definition create_srq :: "env \<Rightarrow> u64 \<Rightarrow> ('c, 'a, int) conn" where
  "create_srq E domain =
     catchM
      (bindM this_get (\<lambda>c.
       bindM (on_world (RdmaSharedReceiveQueue E (cmId c) domain)) (\<lambda>s.
       bindM (on_world getM) (\<lambda>w.
       thenM (on_world (modifyM (\<lambda>w. w\<lparr>srqs := heap_new s (srqs w)\<rparr>)))
      (thenM (this_mod (\<lambda>c. c\<lparr>srq := Suc (length (srqs w))\<rparr>)) (returnM 1))))))
      (\<lambda>e. returnM 0)"

section \<open>Events\<close>

definition waitForEvent :: "env \<Rightarrow> ('c, 'a, int) conn" where
  "waitForEvent E = bindM this_get (\<lambda>c.
     thenM (whenM (logging E \<and> eventChannel c = 0) (faultM NullDeref))
    (bindM (on_world (ext_event E (CM (Rdma_get_cm_event (eventChannel c))))) (\<lambda>(rc, ev).
     if rc \<noteq> 0 then on_world (errno E)
     else thenM (this_mod (\<lambda>c. c\<lparr>event := ev\<rparr>)) (returnM 0))))"

definition ackEvent :: "env \<Rightarrow> ('c, 'a, int) conn" where
  "ackEvent E = bindM this_get (\<lambda>c. case event c of
       None \<Rightarrow> returnM ENOENT
     | Some ev \<Rightarrow> bindM (on_world (ext_int E (CM (Rdma_ack_cm_event ev)))) (\<lambda>err.
         if err \<noteq> 0 then returnM (abs err)
         else thenM (this_mod (\<lambda>c. c\<lparr>event := None\<rparr>)) (returnM 0)))"

text \<open>The getters read through \<open>_event\<close> and \<open>_eventChannel\<close> unchecked.\<close>

definition getEventChannelFd :: "env \<Rightarrow> ('c, 'a, int) conn" where
  "getEventChannelFd E = bindM this_get (\<lambda>c.
     if eventChannel c = 0 then faultM NullDeref else returnM (fd_of E (eventChannel c)))"

definition through_event :: "(cm_event \<Rightarrow> ('c, 'a, 'b) conn) \<Rightarrow> ('c, 'a, 'b) conn" where
  "through_event f = bindM this_get (\<lambda>c. case event c of
       None \<Rightarrow> faultM NullDeref
     | Some ev \<Rightarrow> f ev)"

definition getEventType :: "('c, 'a, cm_event_type) conn" where
  "getEventType = through_event (\<lambda>ev. returnM (ev_type ev))"

definition getEventId :: "('c, 'a, u64) conn" where
  "getEventId = through_event (\<lambda>ev. returnM (ev_id ev))"

definition getEventQpNum :: "env \<Rightarrow> ('c, 'a, u32) conn" where
  "getEventQpNum E = through_event (\<lambda>ev.
     bindM (on_world (read_ext (\<lambda>t. qp_of E t (ev_id ev)))) (\<lambda>qp. case qp of
       None \<Rightarrow> faultM NullDeref
     | Some n \<Rightarrow> returnM n))"

definition getEventContext :: "env \<Rightarrow> ('c, 'a, u64) conn" where
  "getEventContext E = through_event (\<lambda>ev. on_world (read_ext (\<lambda>t. verbs_of E t (ev_id ev))))"

text \<open>\<open>event_channel::get_event\<close>: HPX waits for the event of a type and hands it over.\<close>

definition get_event :: "env \<Rightarrow> cm_event_type \<Rightarrow> ('c, 'a, int) conn" where
  "get_event E ty = bindM this_get (\<lambda>c.
     bindM (on_world (ext_event E (Conn (Hpx_get_event (eventChannel c) ty)))) (\<lambda>(err, ev).
     thenM (this_mod (\<lambda>c. c\<lparr>event := ev\<rparr>)) (returnM err)))"

section \<open>Connecting\<close>

definition resolveAddress :: "env \<Rightarrow> sockaddr_in option \<Rightarrow> sockaddr_in \<Rightarrow> ('c, 'a, int) conn" where
  "resolveAddress E localAddr remoteAddr = bindM this_get (\<lambda>c.
     bindM (on_world (ext_int E (Conn (Rdma_resolve_addr (cmId c) localAddr remoteAddr)))) (\<lambda>rc.
     if rc \<noteq> 0 then bindM (on_world (errno E)) (\<lambda>e. throwM (RdmaError e ''rdma_resolve_addr() failed''))
     else thenM (this_mod (\<lambda>c. c\<lparr>remoteAddress := remoteAddr\<rparr>))
         (thenM (case localAddr of None \<Rightarrow> returnM () | Some a \<Rightarrow> this_mod (\<lambda>c. c\<lparr>localAddress := a\<rparr>))
         (get_event E RDMA_CM_EVENT_ADDR_RESOLVED))))"

definition migrateId :: "env \<Rightarrow> ('c, 'a, int) conn" where
  "migrateId E = bindM this_get (\<lambda>c.
     thenM (whenM (eventChannel c \<noteq> 0)
        (bindM (on_world (ext_int E (CM (Rdma_destroy_event_channel (eventChannel c))))) (\<lambda>_.
         this_mod (\<lambda>c. c\<lparr>eventChannel := 0\<rparr>))))
    (bindM (on_world (ext_ptr E (CM Rdma_create_event_channel))) (\<lambda>ch.
     thenM (this_mod (\<lambda>c. c\<lparr>eventChannel := ch\<rparr>))
     (if ch = 0 then on_world (errno E)
      else bindM (on_world (ext_int E (CM (Rdma_migrate_id (cmId c) ch)))) (\<lambda>err.
        if err \<noteq> 0 then returnM (abs err) else returnM 0)))))"

definition accept_param :: conn_param where
  "accept_param = \<lparr>responder_resources = 1, initiator_depth = 1, retry_count = 0, rnr_retry_count = 7\<rparr>"

definition accept :: "env \<Rightarrow> ('c, 'a, int) conn" where
  "accept E = bindM this_get (\<lambda>c.
     bindM (on_world (ext_int E (Conn (Rdma_accept (cmId c) accept_param)))) (\<lambda>rc.
     if rc \<noteq> 0 then on_world (errno E) else returnM 0))"

definition reject :: "env \<Rightarrow> u64 \<Rightarrow> ('c, 'a, int) conn" where
  "reject E cmid =
     bindM (on_world (ext_int E (Conn (Rdma_reject cmid)))) (\<lambda>rc.
     if rc \<noteq> 0 then on_world (errno E) else returnM 0)"

definition resolveRoute :: "env \<Rightarrow> ('c, 'a, int) conn" where
  "resolveRoute E = bindM this_get (\<lambda>c.
     bindM (on_world (ext_int E (Conn (Rdma_resolve_route (cmId c))))) (\<lambda>rc.
     if rc \<noteq> 0 then on_world (errno E) else get_event E RDMA_CM_EVENT_ROUTE_RESOLVED))"

text \<open>\<open>while (poll_event_channel(fd, ...) == 0) {}\<close>.\<close>

partial_function (option) poll_until_event ::
    "env \<Rightarrow> int \<Rightarrow> 'a world_scheme \<Rightarrow> (unit result \<times> 'a world_scheme) option" where
  "poll_until_event E efd w =
     bindM (ext_int E (Conn (Hpx_poll_event_channel efd))) (\<lambda>r t.
       if r = 0 then poll_until_event E efd t else returnM () t) w"

definition connect_param :: conn_param where
  "connect_param = \<lparr>responder_resources = 1, initiator_depth = 2, retry_count = 7, rnr_retry_count = 7\<rparr>"

definition connect :: "env \<Rightarrow> ('c, 'a, int) conn" where
  "connect E = bindM this_get (\<lambda>c.
     bindM (on_world (ext_int E (Conn (Rdma_connect (cmId c) connect_param)))) (\<lambda>rc.
     if rc \<noteq> 0 then on_world (errno E)
     else if eventChannel c = 0 then faultM NullDeref
     else thenM (on_world (poll_until_event E (fd_of E (eventChannel c))))
         (bindM (get_event E RDMA_CM_EVENT_ESTABLISHED) (\<lambda>err.
          bindM this_get (\<lambda>c. case event c of
            None \<Rightarrow> if err \<noteq> 0 then returnM err else returnM 0
          | Some ev \<Rightarrow>
              if err \<noteq> 0 \<and> ev_type ev \<noteq> RDMA_CM_EVENT_ESTABLISHED then returnM (ev_status ev)
              else returnM 0)))))"

definition disconnect :: "env \<Rightarrow> bool \<Rightarrow> ('c, 'a, int) conn" where
  "disconnect E initiate = bindM this_get (\<lambda>c.
     bindM (on_world (ext_int E (Conn (Rdma_disconnect (cmId c))))) (\<lambda>err.
     if err \<noteq> 0 then returnM (abs err)
     else if initiate then
       bindM (waitForEvent E) (\<lambda>err.
       if err \<noteq> 0 then returnM err
       else bindM this_get (\<lambda>c.
         if event c = None then faultM NullDeref
         else bindM (ackEvent E) (\<lambda>err. if err \<noteq> 0 then returnM err else returnM 0)))
     else returnM 0))"

section \<open>Constructors and destructor\<close>

text \<open>
  The constructors run on a blank object.  An exception leaves them without the
  destructor being run.
\<close>

definition RdmaConnection_id :: "env \<Rightarrow> ('c, 'a, unit) conn" where
  "RdmaConnection_id E = thenM init (createId E)"

definition RdmaConnection_addr ::
    "env \<Rightarrow> string \<Rightarrow> string \<Rightarrow> string \<Rightarrow> string \<Rightarrow> ('c, 'a, unit) conn" where
  "RdmaConnection_addr E localAddr localPort remoteAddr remotePort =
     thenM init (thenM (createId E)
    (bindM (on_world (stringToAddress E localAddr localPort)) (\<lambda>l. case l of
       Inl err \<Rightarrow> throwM (RdmaError err ''failed to generate local address'')
     | Inr la \<Rightarrow> bindM (on_world (stringToAddress E remoteAddr remotePort)) (\<lambda>r. case r of
         Inl err \<Rightarrow> throwM (RdmaError err ''failed to generate remote address'')
       | Inr ra \<Rightarrow> bindM (resolveAddress E (Some la) ra) (\<lambda>_. returnM ())))))"

definition RdmaConnection_accepted ::
    "env \<Rightarrow> u64 \<Rightarrow> u64 \<Rightarrow> ptr \<Rightarrow> ptr \<Rightarrow> ptr \<Rightarrow> bool \<Rightarrow> ('c, 'a, unit) conn" where
  "RdmaConnection_accepted E i domain sendCompletionQ recvCompletionQ SRQ signalSendQueue =
     thenM init
    (thenM (this_mod (\<lambda>c. c\<lparr>cmId := i, srq := SRQ\<rparr>))
    (bindM (on_world (read_ext (\<lambda>t. dst_addr_of E t i))) (\<lambda>ra.
     thenM (this_mod (\<lambda>c. c\<lparr>remoteAddress := ra\<rparr>))
           (createQp E domain sendCompletionQ recvCompletionQ 128 signalSendQueue))))"

text \<open>
  \<open>~RdmaConnection\<close>, then the destructor of the base class.  The member \<open>_srq\<close>, a shared pointer, is
  not let go of: in this model a shared receive queue stays when its last connection ends.  (In the
  source its destructor would run here, after \<open>rdma_destroy_id\<close>, on the identifier that is gone.)
\<close>

definition destroy_connection :: "env \<Rightarrow> ('c, 'a, unit) conn" where
  "destroy_connection E = bindM this_get (\<lambda>c.
     thenM (whenM (cmId c \<noteq> 0)
       (bindM (on_world (read_ext (\<lambda>t. qp_of E t (cmId c)))) (\<lambda>qp.
        thenM (whenM (qp \<noteq> None)
          (bindM (on_world (ext_int E (CM (Rdma_destroy_qp (cmId c))))) (\<lambda>_. returnM ())))
       (bindM (on_world (ext_int E (CM (Rdma_destroy_id (cmId c))))) (\<lambda>rc.
        if rc = 0 then this_mod (\<lambda>c. c\<lparr>cmId := 0\<rparr>) else returnM ())))))
    (thenM (whenM (eventChannel c \<noteq> 0)
       (bindM (on_world (ext_int E (CM (Rdma_destroy_event_channel (eventChannel c))))) (\<lambda>_.
        this_mod (\<lambda>c. c\<lparr>eventChannel := 0\<rparr>))))
     destroy_base))"

section \<open>Posting work requests\<close>

text \<open>The queue pair of the identifier; posting on a null queue pair dereferences it.\<close>

definition post_send :: "env \<Rightarrow> send_wr \<Rightarrow> ('c, 'a, int) conn" where
  "post_send E wr = bindM (getQpNum E) (\<lambda>_. bindM this_get (\<lambda>c.
     on_world (ext_int E (WR (Ibv_post_send (cmId c) wr)))))"

definition post_recv :: "env \<Rightarrow> recv_wr \<Rightarrow> ('c, 'a, int) conn" where
  "post_recv E wr = bindM (getQpNum E) (\<lambda>_. bindM this_get (\<lambda>c.
     on_world (ext_int E (WR (Ibv_post_recv (cmId c) wr)))))"

definition postSendQ :: "env \<Rightarrow> send_wr \<Rightarrow> ('c, 'a, u64) conn" where
  "postSendQ E request = bindM (post_send E request) (\<lambda>err.
     if err \<noteq> 0 then
       (if err = EINVAL then throwM (RdmaError err ''EINVAL postSendQ'')
        else throwM (RdmaError err ''posting to send queue failed''))
     else returnM (swr_id request))"

text \<open>The scatter/gather element of a region: its address, message length and local key.\<close>

definition region_sge :: "ptr \<Rightarrow> ('a nworld_scheme, ibv_sge) M" where
  "region_sge p =
     bindM (on_region p getAddress) (\<lambda>a.
     bindM (on_region p this_get) (\<lambda>r.
     bindM (on_region p getLocalKey) (\<lambda>k.
     returnM \<lparr>sge_addr = a, sge_length = messageLength r, sge_lkey = k\<rparr>)))"

text \<open>The common part of the three send operations.\<close>

definition send_request :: "u64 \<Rightarrow> ibv_sge list \<Rightarrow> int \<Rightarrow> bool \<Rightarrow> bool \<Rightarrow> u32 \<Rightarrow> send_wr" where
  "send_request wr_id sges num signaled withImmediate immediateData =
     (let wr = zero_send_wr\<lparr>swr_sg_list := sges, swr_num_sge := num\<rparr>;
          wr = (if withImmediate
                then wr\<lparr>swr_opcode := IBV_WR_SEND_WITH_IMM, swr_imm_data := immediateData\<rparr>
                else wr\<lparr>swr_opcode := IBV_WR_SEND\<rparr>);
          wr = (if signaled then wr\<lparr>swr_flags := swr_flags wr OR IBV_SEND_SIGNALED\<rparr> else wr)
      in wr\<lparr>swr_id := wr_id\<rparr>)"

text \<open>
  The counter of posted sends is incremented in the argument of a log message: it moves in
  builds with logging only.
\<close>

definition count_send :: "env \<Rightarrow> ('c, 'a, unit) conn" where
  "count_send E = whenM (logging E) (this_mod (\<lambda>c. c\<lparr>totalSendPosted := totalSendPosted c + 1\<rparr>))"

definition postSend :: "env \<Rightarrow> ptr \<Rightarrow> bool \<Rightarrow> bool \<Rightarrow> u32 \<Rightarrow> ('c, 'a, u64) conn" where
  "postSend E p signaled withImmediate immediateData =
     bindM (on_world (region_sge p)) (\<lambda>sge.
     thenM (count_send E)
     (postSendQ E (send_request (of_nat p) [sge] 1 signaled withImmediate immediateData)))"

text \<open>
  The loop of \<open>postSend_xN\<close> over the array of regions, \<open>i\<close> counting up to \<open>N\<close>: the array
  \<open>send_sge\<close> has four elements.
\<close>

fun collect_sges :: "ptr list \<Rightarrow> nat \<Rightarrow> nat \<Rightarrow> ibv_sge list \<Rightarrow> ('a nworld_scheme, ibv_sge list) M" where
  "collect_sges regs i 0 sges = returnM sges"
| "collect_sges regs i (Suc n) sges =
     (if length regs \<le> i \<or> 4 \<le> i then faultM OutOfBounds
      else bindM (region_sge (regs ! i)) (\<lambda>sge. collect_sges regs (Suc i) n (sges @ [sge])))"

definition postSend_xN :: "env \<Rightarrow> ptr list \<Rightarrow> int \<Rightarrow> bool \<Rightarrow> bool \<Rightarrow> u32 \<Rightarrow> ('c, 'a, u64) conn" where
  "postSend_xN E regs N signaled withImmediate immediateData =
     bindM (on_world (collect_sges regs 0 (nat N) [])) (\<lambda>sges.
     if regs = [] then faultM OutOfBounds
     else if logging E \<and> length regs < 2 then faultM OutOfBounds
     else thenM (count_send E)
       (postSendQ E (send_request (of_nat (regs ! 0)) sges N signaled withImmediate immediateData)))"

definition postSend_x0 :: "env \<Rightarrow> ptr \<Rightarrow> bool \<Rightarrow> bool \<Rightarrow> u32 \<Rightarrow> ('c, 'a, u64) conn" where
  "postSend_x0 E p signaled withImmediate immediateData =
     thenM (count_send E)
     (postSendQ E (send_request (of_nat p) [] 0 signaled withImmediate immediateData))"

text \<open>The read and write requests; the length is stored in 32 bits.\<close>

definition rdma_request ::
    "wr_opcode \<Rightarrow> u32 \<Rightarrow> u64 \<Rightarrow> u32 \<Rightarrow> u64 \<Rightarrow> ibv_sge \<Rightarrow> send_wr" where
  "rdma_request op fl wr_id remoteKey remoteAddr sge =
     zero_send_wr\<lparr>swr_sg_list := [sge], swr_num_sge := 1, swr_opcode := op, swr_flags := fl,
       swr_id := wr_id, swr_remote_addr := remoteAddr, swr_rkey := remoteKey\<rparr>"

definition postRead :: "env \<Rightarrow> ptr \<Rightarrow> u32 \<Rightarrow> u64 \<Rightarrow> u64 \<Rightarrow> ('c, 'a, u64) conn" where
  "postRead E p remoteKey remoteAddr len =
     bindM (on_world (on_region p getAddress)) (\<lambda>a.
     bindM (on_world (on_region p getLocalKey)) (\<lambda>k.
     thenM (this_mod (\<lambda>c. c\<lparr>totalReadPosted := totalReadPosted c + 1\<rparr>))
     (postSendQ E (rdma_request IBV_WR_RDMA_READ IBV_SEND_SIGNALED (of_nat p) remoteKey remoteAddr
        \<lparr>sge_addr = a, sge_length = ucast len, sge_lkey = k\<rparr>))))"

definition postRdmaRead :: "env \<Rightarrow> u64 \<Rightarrow> u32 \<Rightarrow> u64 \<Rightarrow> u32 \<Rightarrow> u64 \<Rightarrow> u64 \<Rightarrow> ('c, 'a, int) conn" where
  "postRdmaRead E reqID remoteKey remoteAddr localKey localAddr len =
     thenM (this_mod (\<lambda>c. c\<lparr>totalReadPosted := totalReadPosted c + 1\<rparr>))
     (post_send E (rdma_request IBV_WR_RDMA_READ IBV_SEND_SIGNALED reqID remoteKey remoteAddr
        \<lparr>sge_addr = localAddr, sge_length = ucast len, sge_lkey = localKey\<rparr>))"

text \<open>\<open>postRdmaWrite\<close> increments the counter of reads; the counter of writes is never moved.\<close>

definition postRdmaWrite :: "env \<Rightarrow> u64 \<Rightarrow> u32 \<Rightarrow> u64 \<Rightarrow> u32 \<Rightarrow> u64 \<Rightarrow> u64 \<Rightarrow> u32 \<Rightarrow> ('c, 'a, int) conn" where
  "postRdmaWrite E reqID remoteKey remoteAddr localKey localAddr len fl =
     thenM (this_mod (\<lambda>c. c\<lparr>totalReadPosted := totalReadPosted c + 1\<rparr>))
     (post_send E (rdma_request IBV_WR_RDMA_WRITE fl reqID remoteKey remoteAddr
        \<lparr>sge_addr = localAddr, sge_length = ucast len, sge_lkey = localKey\<rparr>))"

definition recv_request :: "env \<Rightarrow> ptr \<Rightarrow> u32 \<Rightarrow> ('a nworld_scheme, recv_wr) M" where
  "recv_request E p len =
     bindM (on_region p getAddress) (\<lambda>a.
     bindM (on_region p getLocalKey) (\<lambda>k.
     returnM \<lparr>rwr_id = of_nat p,
       rwr_sg_list = [\<lparr>sge_addr = a, sge_length = len, sge_lkey = k\<rparr>], rwr_num_sge = 1\<rparr>))"

text \<open>\<open>RdmaConnection::postRecvRegionAsID\<close>; the counter is in a log message again.\<close>

definition conn_postRecv :: "env \<Rightarrow> ptr \<Rightarrow> u32 \<Rightarrow> bool \<Rightarrow> ('c, 'a, u64) conn" where
  "conn_postRecv E p len expected =
     bindM (on_world (recv_request E p len)) (\<lambda>wr.
     bindM (post_recv E wr) (\<lambda>err.
     if err \<noteq> 0 then throwM (RdmaError err ''postSendNoImmed failed'')
     else thenM (whenM (logging E) (this_mod (\<lambda>c. c\<lparr>totalRecvPosted := totalRecvPosted c + 1\<rparr>)))
               (returnM (rwr_id wr))))"

fun wr_opcode_str :: "wr_opcode \<Rightarrow> string" where
  "wr_opcode_str IBV_WR_RDMA_WRITE = ''IBV_WR_RDMA_WRITE''"
| "wr_opcode_str IBV_WR_RDMA_WRITE_WITH_IMM = ''IBV_WR_RDMA_WRITE_WITH_IMM''"
| "wr_opcode_str IBV_WR_SEND = ''IBV_WR_SEND''"
| "wr_opcode_str IBV_WR_SEND_WITH_IMM = ''IBV_WR_SEND_WITH_IMM''"
| "wr_opcode_str IBV_WR_RDMA_READ = ''IBV_WR_RDMA_READ''"
| "wr_opcode_str IBV_WR_ATOMIC_CMP_AND_SWP = ''IBV_WR_ATOMIC_CMP_AND_SWAP''"
| "wr_opcode_str IBV_WR_ATOMIC_FETCH_AND_ADD = ''IBV_WR_ATOMIC_FETCH_AND_ADD''"

definition opCountersToString :: "'c connection_scheme \<Rightarrow> string" where
  "opCountersToString c =
     ''totalRecvPosted='' @ dec_int (uint (totalRecvPosted c)) @
     '' totalSendPosted='' @ dec_int (uint (totalSendPosted c)) @
     '' totalReadPosted='' @ dec_int (uint (totalReadPosted c)) @
     '' totalWritePosted='' @ dec_int (uint (totalWritePosted c))"

text \<open>\<open>qpToString\<close> has an endless loop after its query.\<close>

definition qpToString :: "env \<Rightarrow> string \<Rightarrow> ('c, 'a, string) conn" where
  "qpToString E label = bindM (getQpNum E) (\<lambda>_. blockM)"

text \<open>\<open>deviceToString\<close>, a line per attribute; \<open>ibv_query_device\<close> is given the device context of
  the identifier.\<close>

definition endl :: string where "endl = [CHR 0x0A]"

definition deviceToString :: "env \<Rightarrow> string \<Rightarrow> ('c, 'a, string) conn" where
  "deviceToString E label = bindM this_get (\<lambda>c.
     bindM (getContext E) (\<lambda>ctx.
     bindM (on_world (ext_int E (Dev (Ibv_query_device ctx)))) (\<lambda>err.
     bindM (on_world (read_ext (\<lambda>t. device_attr_of E t ctx))) (\<lambda>attr.
     if err \<noteq> 0 then returnM (tag c @ '' failed to query device info, error '' @ dec_int err)
     else returnM (concat
       [label @ '':'' @ endl,
        ''firmware version: '' @ fw_ver attr @ endl,
        ''hardware version: '' @ dec_int (uint (hw_ver attr)) @ endl,
        ''node global unique id: 0x'' @ digits 16 (unat (node_guid attr)) @ endl,
        ''system image global unique id: 0x'' @ digits 16 (unat (sys_image_guid attr)) @ endl,
        ''maximum number of protection domains: '' @ dec_int (limits attr ''max_pd'') @ endl,
        ''maximum number of memory regions: '' @ dec_int (limits attr ''max_mr'') @ endl,
        ''maximum memory region size: '' @ dec_int (uint (max_mr_size attr)) @ endl,
        ''maximum number of queue pairs: '' @ dec_int (limits attr ''max_qp'') @ endl,
        ''maximum outstanding work requests per queue: '' @ dec_int (limits attr ''max_qp_wr'') @ endl,
        ''maximum sge per work request: '' @ dec_int (limits attr ''max_sge'') @ endl,
        ''maximum number of completion queues: '' @ dec_int (limits attr ''max_cq'') @ endl,
        ''maximum cqe per completion queue: '' @ dec_int (limits attr ''max_cqe'') @ endl])))))"

section \<open>Facts\<close>

lemma getQpNum_run [run_simps]:
  "getQpNum E (c, w) = (case qp_of E (trace w) (cmId c) of
     None \<Rightarrow> Some (Fault NullDeref, (c, w)) | Some n \<Rightarrow> Some (Ok n, (c, w)))"
  by (simp add: getQpNum_def run_simps split: option.split)

lemma post_send_run:
  "qp_of E (trace w) (cmId c) = Some n \<Longrightarrow>
   post_send E wr (c, w) = Some (Ok (rc_of E (trace w) (WR (Ibv_post_send (cmId c) wr))),
     (c, w\<lparr>trace := (WR (Ibv_post_send (cmId c) wr),
       R_int (rc_of E (trace w) (WR (Ibv_post_send (cmId c) wr)))) # trace w\<rparr>))"
  by (simp add: post_send_def run_simps)

text \<open>A region of the heap that is registered.\<close>

definition registered :: "'a mworld_scheme \<Rightarrow> ptr \<Rightarrow> bool" where
  "registered w p \<longleftrightarrow> (\<exists>ob mr. heap_get (regions w) p = Some ob \<and> region ob = Some mr)"

definition sge_of :: "'a mworld_scheme \<Rightarrow> ptr \<Rightarrow> ibv_sge" where
  "sge_of w p = (let ob = the (heap_get (regions w) p); mr = the (region ob)
     in \<lparr>sge_addr = mr_addr mr, sge_length = messageLength ob, sge_lkey = mr_lkey mr\<rparr>)"

lemma region_sge_run: "registered w p \<Longrightarrow> region_sge p w = Some (Ok (sge_of w p), w)"
  by (auto simp: registered_def region_sge_def run_simps on_heap_run getAddress_def getLocalKey_def
      through_region_def sge_of_def Let_def)

lemma collect_sges_run:
  "\<lbrakk>i + n \<le> length regs; i + n \<le> 4; \<forall>p \<in> set regs. registered w p\<rbrakk> \<Longrightarrow>
   collect_sges regs i n sges w = Some (Ok (sges @ map (sge_of w) (take n (drop i regs))), w)"
proof (induction n arbitrary: i sges)
  case 0
  then show ?case by simp
next
  case (Suc n)
  then have "i < length regs" "i < 4" "Suc i + n \<le> length regs" "Suc i + n \<le> 4" by auto
  moreover from this(1) have "take (Suc n) (drop i regs) = regs ! i # take n (drop (Suc i) regs)"
    by (simp add: Cons_nth_drop_Suc [symmetric])
  ultimately show ?case
    using Suc.IH [of "Suc i"] Suc.prems(3) by (simp add: region_sge_run)
qed

lemma collect_sges_overrun:
  "\<lbrakk>n \<le> 4 - i; n < m; i + m \<le> length regs; \<forall>p \<in> set regs. registered w p; n = 4 - i; i \<le> 4\<rbrakk> \<Longrightarrow>
   collect_sges regs i m sges w = Some (Fault OutOfBounds, w)"
proof (induction n arbitrary: i m sges)
  case 0
  then obtain k where "m = Suc k" by (cases m) auto
  with 0 show ?case by simp
next
  case (Suc n)
  then obtain k where m: "m = Suc k" by (cases m) auto
  from Suc.prems m have "i < 4" "i < length regs" "n \<le> 4 - Suc i" "n < k" "Suc i + k \<le> length regs"
    "n = 4 - Suc i" "Suc i \<le> 4" by auto
  with Suc.IH [of "Suc i" k] Suc.prems(4) m show ?case by (simp add: region_sge_run)
qed

lemma postSendQ_run:
  fixes wr :: send_wr
  assumes "qp_of E (trace w) (cmId c) = Some n"
  defines "rc \<equiv> rc_of E (trace w) (WR (Ibv_post_send (cmId c) wr))"
  shows "postSendQ E wr (c, w) = Some (if rc = 0 then Ok (swr_id wr)
      else Throw (RdmaError rc (if rc = EINVAL then ''EINVAL postSendQ'' else ''posting to send queue failed'')),
    (c, w\<lparr>trace := (WR (Ibv_post_send (cmId c) wr), R_int rc) # trace w\<rparr>))"
  using post_send_run [OF assms(1), of wr] by (simp add: postSendQ_def rc_def)

lemma count_send_run:
  "count_send E (c, w) = Some (Ok (), (if logging E then c\<lparr>totalSendPosted := totalSendPosted c + 1\<rparr> else c, w))"
  by (simp add: count_send_def)

lemma cmId_counters [simp]:
  "cmId (c\<lparr>totalSendPosted := n\<rparr>) = cmId c" "cmId (c\<lparr>totalReadPosted := n\<rparr>) = cmId c"
  by simp_all

lemma send_request_id [simp]: "swr_id (send_request i sges n s im imm) = i"
  by (simp add: send_request_def Let_def)

text \<open>What \<open>postSendQ\<close> answers.\<close>

definition send_result :: "u64 \<Rightarrow> int \<Rightarrow> u64 result" where
  "send_result i rc = (if rc = 0 then Ok i
     else Throw (RdmaError rc (if rc = EINVAL then ''EINVAL postSendQ'' else ''posting to send queue failed'')))"

definition counted :: "env \<Rightarrow> 'c connection_scheme \<Rightarrow> 'c connection_scheme" where
  "counted E c = (if logging E then c\<lparr>totalSendPosted := totalSendPosted c + 1\<rparr> else c)"

lemma counted_simps [simp]: "cmId (counted E c) = cmId c" "totalReadPosted (counted E c) = totalReadPosted c"
    "totalWritePosted (counted E c) = totalWritePosted c"
  by (simp_all add: counted_def)

lemma postSend_run:
  fixes p :: ptr
  assumes "registered w p" and "qp_of E (trace w) (cmId c) = Some q"
  shows "\<exists>rc. postSend E p s im imm (c, w) = Some (send_result (of_nat p) rc, (counted E c,
    w\<lparr>trace := (WR (Ibv_post_send (cmId c) (send_request (of_nat p) [sge_of w p] 1 s im imm)), R_int rc)
      # trace w\<rparr>))"
proof -
  have "postSend E p s im imm (c, w) =
      postSendQ E (send_request (of_nat p) [sge_of w p] 1 s im imm) (counted E c, w)"
    using assms(1) by (simp add: postSend_def run_simps region_sge_run count_send_run counted_def)
  moreover have "qp_of E (trace w) (cmId (counted E c)) = Some q" using assms(2) by simp
  ultimately show ?thesis
    using postSendQ_run [of E w "counted E c" q "send_request (of_nat p) [sge_of w p] 1 s im imm"]
    by (simp only: send_result_def counted_simps send_request_id) blast
qed

lemma send_request_fields [simp]:
  "swr_sg_list (send_request i sges n s im imm) = sges"
  "swr_num_sge (send_request i sges n s im imm) = n"
  "swr_opcode (send_request i sges n s im imm) = (if im then IBV_WR_SEND_WITH_IMM else IBV_WR_SEND)"
  "im \<Longrightarrow> swr_imm_data (send_request i sges n s im imm) = imm"
  "swr_flags (send_request i sges n s im imm) = (if s then IBV_SEND_SIGNALED else 0)"
  by (simp_all add: send_request_def zero_send_wr_def Let_def)

section \<open>Properties\<close>

text \<open>C34: \<open>postSend\<close> posts exactly one work request, a send of the message length bytes at the
  address of the region under its local key, with the immediate data when asked for, and
  returns the region as the request's identity; a refusal of the device is thrown with its
  error code and the request is the last external call either way.\<close>

theorem postSend_posts:
  assumes "heap_get (regions w) p = Some ob" and "region ob = Some mr"
    and "qp_of E (trace w) (cmId c) = Some q"
  shows "\<exists>wr rc c' w'. postSend E p signaled withImmediate imm (c, w) =
      Some (send_result (of_nat p) rc, (c', w')) \<and>
    trace w' = (WR (Ibv_post_send (cmId c) wr), R_int rc) # trace w \<and>
    swr_sg_list wr = [\<lparr>sge_addr = mr_addr mr, sge_length = messageLength ob, sge_lkey = mr_lkey mr\<rparr>] \<and>
    swr_num_sge wr = 1 \<and> swr_id wr = of_nat p \<and>
    swr_opcode wr = (if withImmediate then IBV_WR_SEND_WITH_IMM else IBV_WR_SEND) \<and>
    (withImmediate \<longrightarrow> swr_imm_data wr = imm) \<and>
    swr_flags wr = (if signaled then IBV_SEND_SIGNALED else 0)"
proof -
  have "registered w p" using assms(1,2) by (simp add: registered_def)
  from postSend_run [OF this assms(3), of signaled withImmediate imm] obtain rc where
    "postSend E p signaled withImmediate imm (c, w) = Some (send_result (of_nat p) rc, (counted E c,
      w\<lparr>trace := (WR (Ibv_post_send (cmId c)
        (send_request (of_nat p) [sge_of w p] 1 signaled withImmediate imm)), R_int rc) # trace w\<rparr>))" ..
  moreover have "sge_of w p = \<lparr>sge_addr = mr_addr mr, sge_length = messageLength ob, sge_lkey = mr_lkey mr\<rparr>"
    using assms(1,2) by (simp add: sge_of_def)
  ultimately show ?thesis
    by (intro exI [of _ "send_request (of_nat p) [sge_of w p] 1 signaled withImmediate imm"]
        exI [of _ rc] exI [of _ "counted E c"] exI conjI) (assumption | simp)+
qed

definition conn_3 :: connection where
  "conn_3 = blank_connection\<lparr>cmId := 3, eventChannel := 6\<rparr>"

definition world_reg :: nworld where
  "world_reg = init_nworld\<lparr>regions := [Some (empty_region\<lparr>region := Some mr_4k, messageLength := 100\<rparr>)]\<rparr>"

lemma world_reg_get: "heap_get (regions world_reg) 1 =
    Some (empty_region\<lparr>region := Some mr_4k, messageLength := 100\<rparr>)"
  "trace world_reg = []"
  by (simp_all add: world_reg_def heap_get_def)

theorem postSend_posts_witness:
  "\<exists>rc c' w'. postSend env_ok 1 True False 0 (conn_3, world_reg) = Some (send_result 1 rc, (c', w'))"
proof -
  have h: "region (empty_region\<lparr>region := Some mr_4k, messageLength := 100\<rparr>) = Some mr_4k"
    "qp_of env_ok (trace world_reg) (cmId conn_3) = Some 17"
    by simp_all
  from postSend_posts [OF world_reg_get(1) h, of True False 0] show ?thesis by auto
qed

text \<open>\<open>postSend_xN\<close> gathers the regions of the array in order into one request, as long as
  they are at most four; with five or more it writes past its array of four elements.\<close>

theorem postSend_xN_bounds:
  assumes "\<forall>p \<in> set regs. registered w p" and "qp_of E (trace w) (cmId c) = Some q"
    and "0 < N" and "nat N \<le> length regs" and "logging E \<longrightarrow> 2 \<le> length regs"
  shows "(N \<le> 4 \<longrightarrow> (\<exists>rc wr c' w'. postSend_xN E regs N signaled withImmediate imm (c, w) =
        Some (send_result (of_nat (hd regs)) rc, (c', w')) \<and>
      trace w' = (WR (Ibv_post_send (cmId c) wr), R_int rc) # trace w \<and>
      swr_sg_list wr = map (sge_of w) (take (nat N) regs) \<and> swr_num_sge wr = N \<and>
      swr_id wr = of_nat (hd regs))) \<and>
    (4 < N \<longrightarrow> (\<exists>s. postSend_xN E regs N signaled withImmediate imm (c, w) = Some (Fault OutOfBounds, s)))"
proof (intro conjI impI)
  assume "N \<le> 4"
  have ne: "regs \<noteq> []" using assms(3,4) by auto
  let ?sges = "map (sge_of w) (take (nat N) regs)"
  let ?wr = "send_request (of_nat (hd regs)) ?sges N signaled withImmediate imm"
  have "collect_sges regs 0 (nat N) [] w = Some (Ok ?sges, w)"
    using collect_sges_run [of 0 "nat N" regs w "[]"] assms(1,4) \<open>N \<le> 4\<close> by simp
  then have run: "postSend_xN E regs N signaled withImmediate imm (c, w) =
      postSendQ E ?wr (counted E c, w)"
    using ne assms(5) by (auto simp: postSend_xN_def run_simps count_send_run counted_def hd_conv_nth)
  have "qp_of E (trace w) (cmId (counted E c)) = Some q" using assms(2) by simp
  from postSendQ_run [OF this, of ?wr] obtain rc where
    "postSendQ E ?wr (counted E c, w) = Some (send_result (of_nat (hd regs)) rc,
      (counted E c, w\<lparr>trace := (WR (Ibv_post_send (cmId c) ?wr), R_int rc) # trace w\<rparr>))"
    by (simp only: send_result_def counted_simps send_request_id)
  then show "\<exists>rc wr c' w'. postSend_xN E regs N signaled withImmediate imm (c, w) =
        Some (send_result (of_nat (hd regs)) rc, (c', w')) \<and>
      trace w' = (WR (Ibv_post_send (cmId c) wr), R_int rc) # trace w \<and>
      swr_sg_list wr = ?sges \<and> swr_num_sge wr = N \<and> swr_id wr = of_nat (hd regs)"
    unfolding run
    by (intro exI [of _ rc] exI [of _ ?wr] exI [of _ "counted E c"] exI conjI) (assumption | simp)+
next
  assume "4 < N"
  then have "collect_sges regs 0 (nat N) [] w = Some (Fault OutOfBounds, w)"
    using collect_sges_overrun [of 4 0 "nat N" regs w "[]"] assms(1,4) by simp
  then show "\<exists>s. postSend_xN E regs N signaled withImmediate imm (c, w) = Some (Fault OutOfBounds, s)"
    by (simp add: postSend_xN_def run_simps)
qed

theorem postSend_xN_bounds_witness:
  "\<exists>s. postSend_xN env_ok [1, 1, 1, 1, 1] 5 True False 0 (conn_3, world_reg) = Some (Fault OutOfBounds, s)"
proof -
  have h: "\<forall>p \<in> set [1, 1, 1, 1, 1]. registered world_reg p"
    "qp_of env_ok (trace world_reg) (cmId conn_3) = Some 17"
    using world_reg_get by (simp_all add: registered_def)
  from postSend_xN_bounds [OF h, of 5 True False 0] show ?thesis by simp
qed

text \<open>The counters do not count what they are named for: a posted write counts as a read,
  the counter of writes stays, and a posted send is counted only in builds with logging.\<close>

theorem counters_miscount:
  assumes "qp_of E (trace w) (cmId c) = Some q" and "registered w p"
  shows "(\<exists>res c' w'. postRdmaWrite E i rk ra lk la n fl (c, w) = Some (res, (c', w')) \<and>
      totalReadPosted c' = totalReadPosted c + 1 \<and> totalWritePosted c' = totalWritePosted c) \<and>
    (\<exists>res c' w'. postSend E p s im imm (c, w) = Some (res, (c', w')) \<and>
      totalSendPosted c' = (if logging E then totalSendPosted c + 1 else totalSendPosted c))"
proof (intro conjI)
  show "\<exists>res c' w'. postRdmaWrite E i rk ra lk la n fl (c, w) = Some (res, (c', w')) \<and>
      totalReadPosted c' = totalReadPosted c + 1 \<and> totalWritePosted c' = totalWritePosted c"
    using assms(1) by (simp add: postRdmaWrite_def post_send_def run_simps)
  from postSend_run [OF assms(2,1), of s im imm] obtain rc w' where
    "postSend E p s im imm (c, w) = Some (send_result (of_nat p) rc, (counted E c, w'))" by blast
  moreover have "totalSendPosted (counted E c) = (if logging E then totalSendPosted c + 1 else totalSendPosted c)"
    by (simp add: counted_def)
  ultimately show "\<exists>res c' w'. postSend E p s im imm (c, w) = Some (res, (c', w')) \<and>
      totalSendPosted c' = (if logging E then totalSendPosted c + 1 else totalSendPosted c)" by blast
qed

theorem counters_miscount_witness:
  "\<exists>res c' w'. postRdmaWrite env_ok 5 6 7 8 9 10 0 (conn_3, world_reg) = Some (res, (c', w')) \<and>
     totalWritePosted c' = 0 \<and> totalReadPosted c' = 1"
proof -
  have "qp_of env_ok (trace world_reg) (cmId conn_3) = Some 17" by simp
  moreover have "registered world_reg 1" using world_reg_get by (simp add: registered_def)
  ultimately obtain res c' w' where
    "postRdmaWrite env_ok 5 6 7 8 9 10 0 (conn_3, world_reg) = Some (res, (c', w'))"
    "totalReadPosted c' = totalReadPosted conn_3 + 1" "totalWritePosted c' = totalWritePosted conn_3"
    using counters_miscount [of env_ok world_reg conn_3 17 1 5 6 7 8 9 10 0] by blast
  then show ?thesis by (auto simp: conn_3_def blank_connection_def)
qed

subsection \<open>Connecting and disconnecting\<close>

text \<open>\<open>connect\<close> can report success for a connection that was not established: when the
  event channel delivers another event with an error and the status of that event is 0,
  the result is 0.\<close>

theorem connect_unreported_failure:
  assumes "rc_of E (trace w) (Conn (Rdma_connect (cmId c) connect_param)) = 0"
    and "eventChannel c \<noteq> 0"
    and "poll_until_event E (fd_of E (eventChannel c))
      (w\<lparr>trace := (Conn (Rdma_connect (cmId c) connect_param), R_int 0) # trace w\<rparr>) = Some (Ok (), w1)"
    and "event_of E (trace w1) (Conn (Hpx_get_event (eventChannel c) RDMA_CM_EVENT_ESTABLISHED)) = (err, Some ev)"
    and "err \<noteq> 0" and "ev_type ev \<noteq> RDMA_CM_EVENT_ESTABLISHED"
  shows "\<exists>c' w'. connect E (c, w) = Some (Ok (ev_status ev), (c', w')) \<and> event c' = Some ev"
  using assms by (simp add: connect_def get_event_def run_simps)

definition env_rej :: env where
  "env_rej = env_ok\<lparr>rc_of := (\<lambda>t c. case c of Conn (Hpx_poll_event_channel efd) \<Rightarrow> 1 | _ \<Rightarrow> 0),
     event_of := (\<lambda>t c. (-1, Some \<lparr>ev_handle = 1, ev_type = RDMA_CM_EVENT_OTHER 8, ev_id = 3,
       ev_status = 0, ev_private_data_len = 0\<rparr>))\<rparr>"

theorem connect_unreported_failure_witness:
  "\<exists>c' w'. connect env_rej (conn_3, init_nworld) = Some (Ok 0, (c', w')) \<and> event c' \<noteq> None"
proof -
  let ?w = "init_nworld\<lparr>trace := (Conn (Rdma_connect 3 connect_param), R_int 0) # trace init_nworld\<rparr>"
  have rc: "rc_of env_rej (trace init_nworld) (Conn (Rdma_connect (cmId conn_3) connect_param)) = 0"
    and ch: "eventChannel conn_3 \<noteq> 0"
    by (simp_all add: env_rej_def conn_3_def)
  have "\<exists>w1. poll_until_event env_rej (fd_of env_rej (eventChannel conn_3)) ?w = Some (Ok (), w1)"
    by (subst poll_until_event.simps) (simp add: run_simps env_rej_def)
  then obtain w1 where p: "poll_until_event env_rej (fd_of env_rej (eventChannel conn_3))
      (init_nworld\<lparr>trace := (Conn (Rdma_connect (cmId conn_3) connect_param), R_int 0) # trace init_nworld\<rparr>)
      = Some (Ok (), w1)"
    by (auto simp: conn_3_def)
  let ?ev = "\<lparr>ev_handle = 1, ev_type = RDMA_CM_EVENT_OTHER 8, ev_id = 3,
       ev_status = 0, ev_private_data_len = 0\<rparr>"
  have ev: "event_of env_rej (trace w1) (Conn (Hpx_get_event (eventChannel conn_3) RDMA_CM_EVENT_ESTABLISHED))
      = (-1, Some ?ev)" by (simp add: env_rej_def)
  from connect_unreported_failure [OF rc ch p ev] show ?thesis by auto
qed

text \<open>Connection manager events taken and not acknowledged yet.\<close>

fun cm_unacked :: "trace \<Rightarrow> int" where
  "cm_unacked [] = 0"
| "cm_unacked ((CM c, r) # t) = (case c of
       Rdma_get_cm_event ch \<Rightarrow> (case r of R_event (rc, ev) \<Rightarrow> if rc = 0 then 1 else 0 | _ \<Rightarrow> 0)
     | Rdma_ack_cm_event ev \<Rightarrow> (case r of R_int rc \<Rightarrow> if rc = 0 then -1 else 0 | _ \<Rightarrow> 0)
     | _ \<Rightarrow> 0) + cm_unacked t"
| "cm_unacked (_ # t) = cm_unacked t"

fun cm_taken :: "trace \<Rightarrow> nat" where
  "cm_taken [] = 0"
| "cm_taken ((CM (Rdma_get_cm_event ch), R_event (rc, ev)) # t) = (if rc = 0 then Suc (cm_taken t) else cm_taken t)"
| "cm_taken (_ # t) = cm_taken t"

text \<open>The books of a trace: the events still to be acknowledged and all that were taken, the
  registrations and the mappings that are held.\<close>

definition cm_tally :: "trace \<Rightarrow> int \<times> nat" where
  "cm_tally t = (cm_unacked t, cm_taken t)"

type_synonym books = "(int \<times> nat) \<times> ibv_mr multiset \<times> (u64 \<times> u64) multiset"

definition ledger :: "trace \<Rightarrow> books" where
  "ledger t = (cm_tally t, live_mrs t, live_maps t)"

lemma cm_tally_mem [simp]: "cm_tally ((Mem m, r) # t) = cm_tally t"
  by (simp add: cm_tally_def)

lemma ledger_simps [simp]:
  "ledger ((CQ q, r) # t) = ledger t" "ledger ((WR x, r) # t) = ledger t"
  "ledger ((Conn c, r) # t) = ledger t" "ledger ((Chan h, r) # t) = ledger t"
  "ledger ((CM (Rdma_create_qp i d a), r) # t) = ledger t"
  "ledger ((CM (Rdma_destroy_qp i), r) # t) = ledger t"
  "ledger ((CM (Rdma_destroy_id i), r) # t) = ledger t"
  "ledger ((CM (Rdma_destroy_event_channel i), r) # t) = ledger t"
  by (simp_all add: ledger_def cm_tally_def)

section \<open>Receives in flight\<close>

text \<open>
  What the trace says of the receives: the identifiers posted on a queue pair since it was made,
  the identifiers of the receives taken from a completion queue since it was made, and the queue
  that a queue pair delivers to.
\<close>

definition recv_ids :: "ibv_wc list \<Rightarrow> u64 list" where
  "recv_ids wcs = map wc_wr_id (filter (\<lambda>wc. wc_op wc = IBV_WC_RECV) wcs)"

lemma recv_ids_simps [simp]:
  "recv_ids [] = []"
  "recv_ids (wc # wcs) = (if wc_op wc = IBV_WC_RECV then [wc_wr_id wc] else []) @ recv_ids wcs"
  by (simp_all add: recv_ids_def)

fun flights :: "trace \<Rightarrow> u64 \<Rightarrow> u64 multiset" where
  "flights [] = (\<lambda>i. {#})"
| "flights ((c, r) # t) = (case c of
     WR (Ibv_post_recv i wr) \<Rightarrow> if r = R_int 0 then (flights t)(i := add_mset (rwr_id wr) (flights t i)) else flights t
   | CM (Rdma_create_qp i d a) \<Rightarrow> if r = R_int 0 then (flights t)(i := {#}) else flights t
   | _ \<Rightarrow> flights t)"

fun taken :: "trace \<Rightarrow> u64 \<Rightarrow> u64 multiset" where
  "taken [] = (\<lambda>h. {#})"
| "taken ((c, r) # t) = (case c of
     CQ (Ibv_poll_cq h n) \<Rightarrow>
       (case r of R_wcs (Inr wcs) \<Rightarrow> (taken t)(h := taken t h + mset (recv_ids wcs)) | _ \<Rightarrow> taken t)
   | CQ (Ibv_create_cq x n ch) \<Rightarrow> (case r of R_ptr h \<Rightarrow> (taken t)(h := {#}) | _ \<Rightarrow> taken t)
   | _ \<Rightarrow> taken t)"

fun recv_queue :: "trace \<Rightarrow> u64 \<rightharpoonup> u64" where
  "recv_queue [] = Map.empty"
| "recv_queue ((c, r) # t) = (case c of
     CM (Rdma_create_qp i d a) \<Rightarrow> if r = R_int 0 then (recv_queue t)(i \<mapsto> qa_recv_cq a) else recv_queue t
   | CM (Rdma_destroy_qp i) \<Rightarrow> (recv_queue t)(i := None)
   | _ \<Rightarrow> recv_queue t)"

type_synonym receive_traffic = "(u64 \<Rightarrow> u64 multiset) \<times> (u64 \<Rightarrow> u64 multiset) \<times> (u64 \<rightharpoonup> u64)"

definition traffic :: "trace \<Rightarrow> receive_traffic" where
  "traffic t = (flights t, taken t, recv_queue t)"

text \<open>The traffic when the receives \<open>P\<close> have been posted on \<open>i\<close> as well.\<close>

definition sent :: "u64 \<Rightarrow> u64 multiset \<Rightarrow> receive_traffic \<Rightarrow> receive_traffic" where
  "sent i P = (\<lambda>(f, tk, q). (f(i := f i + P), tk, q))"

lemma sent_simps [simp]: "sent i {#} tr = tr" "sent i Q (sent i P tr) = sent i (P + Q) tr"
  by (auto simp: sent_def fun_eq_iff ac_simps split: prod.splits)

text \<open>The traffic when each \<open>x\<close> of a set has posted \<open>P x\<close> on its identifier.\<close>

definition sent_all :: "('x \<Rightarrow> u64) \<Rightarrow> ('x \<Rightarrow> u64 multiset) \<Rightarrow> 'x set \<Rightarrow> receive_traffic \<Rightarrow> receive_traffic" where
  "sent_all ids P X = (\<lambda>(f, tk, q). (\<lambda>j. f j + (\<Sum>x\<in>X. if ids x = j then P x else {#}), tk, q))"

lemma sent_all_simps:
  "sent_all ids P {} tr = tr"
  "finite X \<Longrightarrow> x \<notin> X \<Longrightarrow> sent_all ids P (insert x X) tr = sent (ids x) (P x) (sent_all ids P X tr)"
  "sent_all ids P X (sent i N tr) = sent i N (sent_all ids P X tr)"
  by (cases tr, auto simp: sent_all_def sent_def fun_eq_iff ac_simps)+

lemma sent_all_cong:
  "\<forall>x \<in> X. ids' x = ids x \<and> P' x = P x \<Longrightarrow> sent_all ids' P' X = sent_all ids P X"
  unfolding sent_all_def by (intro ext) (auto simp: fun_eq_iff intro!: sum.cong)

text \<open>A completion queue \<open>h\<close> is made, and a queue pair for \<open>i\<close> that delivers to \<open>h\<close>.\<close>

definition opened :: "u64 \<Rightarrow> receive_traffic \<Rightarrow> receive_traffic" where
  "opened h = (\<lambda>(f, tk, q). (f, tk(h := {#}), q))"

definition wired :: "u64 \<Rightarrow> u64 \<Rightarrow> receive_traffic \<Rightarrow> receive_traffic" where
  "wired i h = (\<lambda>(f, tk, q). (f(i := {#}), tk, q(i \<mapsto> h)))"

lemma traffic_make [simp]:
  "traffic ((CQ (Ibv_create_cq x n ch), R_ptr h) # t) = opened h (traffic t)"
  "traffic ((CM (Rdma_create_qp i d a), R_int 0) # t) = wired i (qa_recv_cq a) (traffic t)"
  by (simp_all add: traffic_def opened_def wired_def)

text \<open>The traffic when the queue pair of \<open>i\<close> has been destroyed.\<close>

definition hung_up :: "u64 \<Rightarrow> receive_traffic \<Rightarrow> receive_traffic" where
  "hung_up i = (\<lambda>(f, tk, q). (f, tk, q(i := None)))"

lemma traffic_destroy_qp [simp]:
  "traffic ((CM (Rdma_destroy_qp i), r) # t) = hung_up i (traffic t)"
  by (simp add: traffic_def hung_up_def)

lemma traffic_post [simp]:
  "traffic ((WR (Ibv_post_recv i wr), R_int 0) # t) = sent i {#rwr_id wr#} (traffic t)"
  by (simp add: traffic_def sent_def)

lemma traffic_simps [simp]:
  "traffic ((Mem m, r) # t) = traffic t" "traffic ((Conn c, r) # t) = traffic t" "traffic ((Chan h, r) # t) = traffic t"
  "traffic ((CQ (Ibv_req_notify_cq q), r) # t) = traffic t" "traffic ((CQ (Ibv_destroy_cq q), r) # t) = traffic t"
  "traffic ((CM (Rdma_destroy_id i), r) # t) = traffic t" "traffic ((CM (Rdma_destroy_event_channel i), r) # t) = traffic t"
  "traffic ((CM (Rdma_get_cm_event i), r) # t) = traffic t" "traffic ((CM (Rdma_ack_cm_event ev), r) # t) = traffic t"
  by (simp_all add: traffic_def)

lemma waitForEvent_ok:
  "waitForEvent E (c, w) = Some (Ok 0, (c', w')) \<Longrightarrow> errno_set E \<Longrightarrow>
   cm_unacked (trace w') = cm_unacked (trace w) + 1"
  by (cases "event_of E (trace w) (CM (Rdma_get_cm_event (eventChannel c)))")
     (auto simp: waitForEvent_def bindM_run on_world_run errno_set_def split: if_splits)

lemma ackEvent_ok:
  "ackEvent E (c, w) = Some (Ok 0, (c', w')) \<Longrightarrow>
   cm_unacked (trace w') = cm_unacked (trace w) - 1 \<and> event c' = None"
  by (auto simp: ackEvent_def bindM_run on_world_run ENOENT_def split: if_splits option.splits)

text \<open>C38: a disconnect that reports success has acknowledged every event it took, and left no
  event in the connection when it initiated the disconnect.\<close>

theorem disconnect_balanced:
  assumes "disconnect E initiate (c, w) = Some (Ok 0, (c', w'))" and "errno_set E"
  shows "cm_unacked (trace w') = cm_unacked (trace w) \<and>
    (if initiate then event c' = None else c' = c)"
proof (cases initiate)
  case False
  with assms(1) show ?thesis by (auto simp: disconnect_def run_simps split: if_splits)
next
  case True
  let ?d = "Conn (Rdma_disconnect (cmId c))"
  let ?w1 = "w\<lparr>trace := (?d, R_int (rc_of E (trace w) ?d)) # trace w\<rparr>"
  have "rc_of E (trace w) ?d = 0" using assms(1) True
    by (simp add: disconnect_def bindM_run on_world_run split: if_splits)
  with assms(1) True have "bindM (waitForEvent E) (\<lambda>err. if err \<noteq> 0 then returnM err
      else bindM this_get (\<lambda>c. if event c = None then faultM NullDeref
        else bindM (ackEvent E) (\<lambda>err. if err \<noteq> 0 then returnM err else returnM 0))) (c, ?w1) =
      Some (Ok 0, (c', w'))" by (simp add: disconnect_def)
  then obtain err s1 where wait0: "waitForEvent E (c, ?w1) = Some (Ok err, s1)"
    and rest: "(if err \<noteq> 0 then returnM err
      else bindM this_get (\<lambda>c. if event c = None then faultM NullDeref
        else bindM (ackEvent E) (\<lambda>err. if err \<noteq> 0 then returnM err else returnM 0))) s1 =
      Some (Ok 0, (c', w'))" by (rule bindM_OkE)
  obtain c1 w2 where s1: "s1 = (c1, w2)" by fastforce
  from rest have "err = 0" by (auto split: if_splits)
  with wait0 s1 have wait: "waitForEvent E (c, ?w1) = Some (Ok 0, (c1, w2))" by simp
  from rest \<open>err = 0\<close> s1 have "bindM (ackEvent E) (\<lambda>err. if err \<noteq> 0 then returnM err else returnM 0) (c1, w2) =
      Some (Ok 0, (c', w'))" by (simp split: if_splits)
  then have ack: "ackEvent E (c1, w2) = Some (Ok 0, (c', w'))"
    by (elim bindM_OkE) (auto split: if_splits)
  from waitForEvent_ok [OF wait assms(2)] ackEvent_ok [OF ack] True show ?thesis by simp
qed

definition env_disc :: env where
  "env_disc = env_ok\<lparr>event_of := (\<lambda>t c. (0, Some \<lparr>ev_handle = 1, ev_type = RDMA_CM_EVENT_DISCONNECTED,
       ev_id = 3, ev_status = 0, ev_private_data_len = 0\<rparr>))\<rparr>"

theorem disconnect_balanced_witness:
  "\<exists>c' w'. disconnect env_disc True (conn_3, init_nworld) = Some (Ok 0, (c', w')) \<and>
     cm_unacked (trace w') = 0 \<and> event c' = None"
proof -
  have "\<exists>c' w'. disconnect env_disc True (conn_3, init_nworld) = Some (Ok 0, (c', w'))"
    by (simp add: disconnect_def waitForEvent_def ackEvent_def run_simps env_disc_def)
  then obtain c' w' where "disconnect env_disc True (conn_3, init_nworld) = Some (Ok 0, (c', w'))" by blast
  moreover have "errno_set env_disc" by (simp add: errno_set_def env_disc_def)
  ultimately show ?thesis using disconnect_balanced [of env_disc True conn_3 init_nworld c' w'] by auto
qed

subsection \<open>Identifiers and event channels\<close>

text \<open>The event channels and the identifiers that exist.\<close>

fun live_channels :: "trace \<Rightarrow> u64 list" where
  "live_channels [] = []"
| "live_channels ((CM c, r) # t) = (case c of
       Rdma_create_event_channel \<Rightarrow>
         (case r of R_ptr ch \<Rightarrow> if ch = 0 then live_channels t else ch # live_channels t | _ \<Rightarrow> live_channels t)
     | Rdma_destroy_event_channel ch \<Rightarrow> remove1 ch (live_channels t)
     | _ \<Rightarrow> live_channels t)"
| "live_channels (_ # t) = live_channels t"

fun live_ids :: "trace \<Rightarrow> u64 list" where
  "live_ids [] = []"
| "live_ids ((CM c, r) # t) = (case c of
       Rdma_create_id ch \<Rightarrow>
         (case r of R_id (rc, i) \<Rightarrow> if rc = 0 then i # live_ids t else live_ids t | _ \<Rightarrow> live_ids t)
     | Rdma_destroy_id i \<Rightarrow>
         (case r of R_int rc \<Rightarrow> if rc = 0 then remove1 i (live_ids t) else live_ids t | _ \<Rightarrow> live_ids t)
     | _ \<Rightarrow> live_ids t)"
| "live_ids (_ # t) = live_ids t"

text \<open>C37: a connection that was constructed with its own identifier gives its event channel
  and its identifier back when it is destroyed.  When the identifier cannot be created the
  constructor throws, and the event channel it has just made stays behind.\<close>

theorem connection_lifecycle:
  assumes "ptr_of E (trace w) (CM Rdma_create_event_channel) = ch" and "ch \<noteq> 0"
    and "id_of E ((CM Rdma_create_event_channel, R_ptr ch) # trace w) (CM (Rdma_create_id ch)) = (rc, i)"
    and "\<And>t j. rc_of E t (CM (Rdma_destroy_id j)) = 0"
  shows "if rc = 0 then
      \<exists>c1 w1 c2 w2. RdmaConnection_id E (c, w) = Some (Ok (), (c1, w1)) \<and> cmId c1 = i \<and> eventChannel c1 = ch \<and>
        (i \<noteq> 0 \<longrightarrow> destroy_connection E (c1, w1) = Some (Ok (), (c2, w2)) \<and>
          live_channels (trace w2) = live_channels (trace w) \<and> live_ids (trace w2) = live_ids (trace w))
    else \<exists>e c1 w1. RdmaConnection_id E (c, w) = Some (Throw e, (c1, w1)) \<and> errcode e = rc \<and>
        live_channels (trace w1) = ch # live_channels (trace w)"
proof (cases "rc = 0")
  case False
  with assms show ?thesis
    by (simp add: RdmaConnection_id_def init_def createId_def run_simps RdmaError_def)
next
  case True
  let ?c1 = "c\<lparr>eventChannel := ch, event := None, localAddress := zero_sockaddr,
     remoteAddress := zero_sockaddr, tag := ''[QP ?] '', totalRecvPosted := 0, totalSendPosted := 0,
     totalReadPosted := 0, totalWritePosted := 0, initiated_connection := False, cmId := i\<rparr>"
  let ?w1 = "w\<lparr>trace := (CM (Rdma_create_id ch), R_id (rc, i)) # (CM Rdma_create_event_channel, R_ptr ch) # trace w\<rparr>"
  have "\<exists>c1. RdmaConnection_id E (c, w) = Some (Ok (), (c1, ?w1)) \<and> cmId c1 = i \<and> eventChannel c1 = ch"
    using assms True by (simp add: RdmaConnection_id_def init_def createId_def run_simps)
  then obtain c1 where c1: "RdmaConnection_id E (c, w) = Some (Ok (), (c1, ?w1))" "cmId c1 = i" "eventChannel c1 = ch"
    by blast
  moreover have "\<exists>c2 w2. destroy_connection E (c1, ?w1) = Some (Ok (), (c2, w2)) \<and>
      live_channels (trace w2) = live_channels (trace w) \<and> live_ids (trace w2) = live_ids (trace w)" if "i \<noteq> 0"
    using that assms(2,4) True c1(2,3)
    by (simp add: destroy_connection_def destroy_base_def run_simps)
  ultimately show ?thesis using True by (cases "i = 0") auto
qed

theorem connection_lifecycle_witness:
  "\<exists>c1 w1 c2 w2. RdmaConnection_id env_ok (blank_connection, init_nworld) = Some (Ok (), (c1, w1)) \<and>
     destroy_connection env_ok (c1, w1) = Some (Ok (), (c2, w2)) \<and>
     live_channels (trace w2) = [] \<and> live_ids (trace w2) = []"
proof -
  have h: "ptr_of env_ok (trace init_nworld) (CM Rdma_create_event_channel) = 4096" "(4096 :: u64) \<noteq> 0"
    "id_of env_ok ((CM Rdma_create_event_channel, R_ptr 4096) # trace init_nworld) (CM (Rdma_create_id 4096)) = (0, 8192)"
    "\<And>t j. rc_of env_ok t (CM (Rdma_destroy_id j)) = 0" by simp_all
  from connection_lifecycle [OF h, of blank_connection] show ?thesis by simp blast
qed

end
