(* ===== verification/ClientServer.thy ===== *)
theory ClientServer
  imports Connection
begin

text \<open>
  \<open>RdmaClient\<close> and \<open>RdmaServer\<close> (\<open>include\<close> and \<open>src\<close> files of these names), the two classes
  over \<open>RdmaConnection\<close>: a client has two message regions and counts its receives, a server
  binds and listens and posts its receives to a shared queue.
\<close>

section \<open>Clients\<close>

text \<open>\<open>_outMessageRegionAux\<close> is not used by the code.\<close>

record client = connection +
  client_domain :: u64
  inMessageRegion :: ptr
  outMessageRegion :: ptr
  client_completionQ :: ptr
  uniqueId :: u64
  numRecvBlocks :: int
  sizeBlock :: int
  usingBlocking :: bool

type_synonym ('a, 'b) client_m = "(client \<times> 'a nworld_scheme, 'b) M"

definition blank_client :: client where
  "blank_client = \<lparr>memoryPool = 0, waitingReceives = 0, tag = '''', cmId = 0, eventChannel = 0,
     event = None, localAddress = zero_sockaddr, remoteAddress = zero_sockaddr,
     totalRecvPosted = 0, totalSendPosted = 0, totalReadPosted = 0, totalWritePosted = 0,
     initiated_connection = False, srq = 0, client_domain = 0, inMessageRegion = 0,
     outMessageRegion = 0, client_completionQ = 0, uniqueId = 0, numRecvBlocks = 0,
     sizeBlock = 0, usingBlocking = False\<rparr>"

text \<open>The last shared pointer to a message region goes away.\<close>

definition drop_ptr :: "env \<Rightarrow> ptr \<Rightarrow> ('a, unit) client_m" where
  "drop_ptr E p = whenM (p \<noteq> 0) (on_world (delete_region E p))"

definition createRegions :: "env \<Rightarrow> u64 \<Rightarrow> ('a, unit) client_m" where
  "createRegions E domain = bindM this_get (\<lambda>old.
     bindM (on_world (new_region empty_region)) (\<lambda>p.
     thenM (this_mod (\<lambda>c. c\<lparr>inMessageRegion := p\<rparr>))
    (thenM (drop_ptr E (inMessageRegion old))
    (bindM (on_world (on_region p (allocate64kB E domain))) (\<lambda>err.
     if err \<noteq> 0 then throwM (RdmaError err ''allocating inbound memory region failed'')
     else bindM (on_world (new_region empty_region)) (\<lambda>q.
       thenM (this_mod (\<lambda>c. c\<lparr>outMessageRegion := q\<rparr>))
      (thenM (drop_ptr E (outMessageRegion old))
      (bindM (on_world (on_region q (allocate64kB E domain))) (\<lambda>err.
       if err \<noteq> 0 then throwM (RdmaError err ''allocating outbound memory region failed'')
       else returnM ())))))))))"

text \<open>The body of \<open>~RdmaClient\<close>, and the members in the order C++ destroys them.\<close>

definition reset_regions :: "env \<Rightarrow> ('a, unit) client_m" where
  "reset_regions E = bindM this_get (\<lambda>c.
     thenM (this_mod (\<lambda>c. c\<lparr>inMessageRegion := 0\<rparr>))
    (thenM (drop_ptr E (inMessageRegion c))
    (thenM (this_mod (\<lambda>c. c\<lparr>outMessageRegion := 0\<rparr>))
           (drop_ptr E (outMessageRegion c)))))"

definition drop_members :: "env \<Rightarrow> ('a, unit) client_m" where
  "drop_members E = bindM this_get (\<lambda>c.
     thenM (this_mod (\<lambda>c. c\<lparr>outMessageRegion := 0\<rparr>))
    (thenM (drop_ptr E (outMessageRegion c))
    (thenM (this_mod (\<lambda>c. c\<lparr>inMessageRegion := 0\<rparr>))
           (drop_ptr E (inMessageRegion c)))))"

text \<open>
  The whole destructor: the body, the members, the base classes.  The completion queue and
  the memory pool are shared with others; what happens when the client lets go of them is
  given by \<open>rel_cq\<close> and \<open>rel_pool\<close>.  The completion queue goes before the queue pair.
\<close>

definition destroy_client ::
    "env \<Rightarrow> (ptr \<Rightarrow> ('a nworld_scheme, unit) M) \<Rightarrow> (ptr \<Rightarrow> ('a nworld_scheme, unit) M) \<Rightarrow> ('a, unit) client_m"
where
  "destroy_client E rel_cq rel_pool = bindM this_get (\<lambda>c.
     thenM (reset_regions E)
    (thenM (this_mod (\<lambda>c. c\<lparr>client_completionQ := 0\<rparr>))
    (thenM (whenM (client_completionQ c \<noteq> 0) (on_world (rel_cq (client_completionQ c))))
    (thenM (drop_members E)
    (thenM (destroy_connection E)
           (whenM (memoryPool c \<noteq> 0) (on_world (rel_pool (memoryPool c)))))))))"

definition RdmaClient_default :: "env \<Rightarrow> ('a nworld_scheme, client) M" where
  "RdmaClient_default E = construct blank_client
     (thenM (RdmaConnection_id E)
            (this_mod (\<lambda>c. c\<lparr>numRecvBlocks := 0, sizeBlock := 512, usingBlocking := False\<rparr>)))"

definition RdmaClient_addr :: "env \<Rightarrow> string \<Rightarrow> string \<Rightarrow> string \<Rightarrow> string \<Rightarrow> ('a nworld_scheme, client) M" where
  "RdmaClient_addr E localAddr localPort remoteAddr remotePort = construct blank_client
     (thenM (RdmaConnection_addr E localAddr localPort remoteAddr remotePort)
            (this_mod (\<lambda>c. c\<lparr>uniqueId := - 1, numRecvBlocks := 0, sizeBlock := 512, usingBlocking := False\<rparr>)))"

text \<open>
  The constructor for an accepted connection.  When \<open>createRegions\<close> throws, the members
  and the base class are complete and are destroyed; the body of the destructor is not run.
\<close>

definition RdmaClient_accepted ::
    "env \<Rightarrow> u64 \<Rightarrow> u64 \<Rightarrow> ptr \<Rightarrow> ptr \<Rightarrow> ptr \<Rightarrow> ('a nworld_scheme, client) M" where
  "RdmaClient_accepted E i domain cq pool SRQ = construct blank_client
     (thenM (RdmaConnection_accepted E i domain cq cq SRQ False)
     (thenM (catchM (createRegions E domain) (\<lambda>e.
          thenM (drop_members E) (thenM (destroy_connection E) (throwM e))))
            (this_mod (\<lambda>c. c\<lparr>client_completionQ := cq, memoryPool := pool, uniqueId := - 1,
               numRecvBlocks := 0, sizeBlock := 512, usingBlocking := False\<rparr>))))"

text \<open>\<open>makePeer\<close>: exceptions become error codes.\<close>

definition makePeer :: "env \<Rightarrow> u64 \<Rightarrow> ptr \<Rightarrow> ('a, int) client_m" where
  "makePeer E domain cq =
     thenM (this_mod (\<lambda>c. c\<lparr>client_domain := domain, client_completionQ := cq\<rparr>))
    (bindM (catchM (thenM (createRegions E domain) (returnM None)) (\<lambda>e. returnM (Some (errcode e)))) (\<lambda>r1.
     case r1 of Some err \<Rightarrow> returnM err
     | None \<Rightarrow>
     bindM (catchM (thenM (createQp E domain cq cq 1 False) (returnM None))
        (\<lambda>e. returnM (Some (errcode e)))) (\<lambda>r2.
     case r2 of Some err \<Rightarrow> returnM err
     | None \<Rightarrow>
     bindM (resolveRoute E) (\<lambda>err.
     if err \<noteq> 0 then returnM err
     else bindM (connect E) (\<lambda>err.
     if err \<noteq> 0 then returnM err else returnM 0)))))"

definition client_postRecv :: "env \<Rightarrow> ptr \<Rightarrow> u32 \<Rightarrow> bool \<Rightarrow> ('c, 'a, u64) conn" where
  "client_postRecv E p len expected =
     bindM (conn_postRecv E p len expected) (\<lambda>i. thenM pushReceive (returnM i))"

section \<open>Servers\<close>

definition ntohs :: "u16 \<Rightarrow> u16" where
  "ntohs p = push_bit 8 p OR drop_bit 8 p"

definition bind_server :: "env \<Rightarrow> u32 \<Rightarrow> u16 \<Rightarrow> ('c, 'a, int) conn" where
  "bind_server E addr port =
     (let a = zero_sockaddr\<lparr>sin_family := PF_INET, sin_addr := addr, sin_port := port\<rparr> in
     thenM (this_mod (\<lambda>c. c\<lparr>localAddress := a\<rparr>))
    (bindM this_get (\<lambda>c.
     bindM (on_world (ext_int E (Conn (Rdma_bind_addr (cmId c) a)))) (\<lambda>err.
     if err \<noteq> 0 then faultM Aborted
     else thenM
       (whenM (port = 0)
         (bindM (on_world (ext_int E (Conn (Rdma_get_src_port (cmId c))))) (\<lambda>p.
          this_mod (\<lambda>c. c\<lparr>tag := ''[CM '' @ dec_int (uint (ntohs (of_int p))) @ ''] ''\<rparr>))))
       (returnM 0)))))"

definition listen :: "env \<Rightarrow> int \<Rightarrow> ('c, 'a, int) conn" where
  "listen E backlog = bindM this_get (\<lambda>c.
     bindM (on_world (ext_int E (Conn (Rdma_listen (cmId c) backlog)))) (\<lambda>err.
     if err \<noteq> 0 then returnM (abs err) else returnM 0))"

definition RdmaServer :: "env \<Rightarrow> u32 \<Rightarrow> u16 \<Rightarrow> ('a nworld_scheme, connection) M" where
  "RdmaServer E addr port = construct blank_connection
     (thenM (RdmaConnection_id E)
     (thenM (this_mod (\<lambda>c. c\<lparr>tag := ''[CM '' @ dec_int (uint port) @ ''] ''\<rparr>))
     (bindM (bind_server E addr port) (\<lambda>err.
      if err \<noteq> 0
      then thenM (destroy_connection E) (throwM (RdmaError err ''bind() failed''))
      else returnM ()))))"

text \<open>
  \<open>RdmaServer::postRecvRegionAsID\<close>: \<open>_srq\<close> is dereferenced without a check.  Here the
  counter is incremented outside the log message.
\<close>

definition server_postRecv :: "env \<Rightarrow> ptr \<Rightarrow> u32 \<Rightarrow> bool \<Rightarrow> ('c, 'a, u64) conn" where
  "server_postRecv E p len expected = bindM this_get (\<lambda>c.
     bindM (on_world (on_srq (srq c) (get_SRQ E))) (\<lambda>s.
     if s = 0 then conn_postRecv E p len expected
     else bindM (on_world (recv_request E p len)) (\<lambda>wr.
       thenM (this_mod (\<lambda>c. c\<lparr>totalRecvPosted := totalRecvPosted c + 1\<rparr>))
      (bindM (on_world (ext_int E (WR (Ibv_post_srq_recv s wr)))) (\<lambda>err.
       if err \<noteq> 0 then throwM (RdmaError err ''postSendNoImmed failed'')
       else returnM (rwr_id wr))))))"

section \<open>Posting receives\<close>

lemma recv_request_run:
  "heap_get (regions w) p = Some ob \<Longrightarrow> region ob = Some mr \<Longrightarrow>
   recv_request E p len w = Some (Ok \<lparr>rwr_id = of_nat p,
     rwr_sg_list = [\<lparr>sge_addr = mr_addr mr, sge_length = len, sge_lkey = mr_lkey mr\<rparr>], rwr_num_sge = 1\<rparr>, w)"
  by (simp add: recv_request_def run_simps on_heap_run getAddress_def getLocalKey_def through_region_def)

text \<open>A connection with a queue pair on a device that accepts receive requests.\<close>

definition ready_conn :: "env \<Rightarrow> 'c connection_scheme \<Rightarrow> bool" where
  "ready_conn E c \<longleftrightarrow> (\<forall>t. qp_of E t (cmId c) \<noteq> None) \<and>
     (\<forall>t wr. rc_of E t (WR (Ibv_post_recv (cmId c) wr)) = 0)"

text \<open>Everything of a connection that posting a receive leaves as it is.\<close>

definition conn_core :: "'c connection_scheme \<Rightarrow> 'c connection_scheme" where
  "conn_core c = c\<lparr>waitingReceives := 0, totalRecvPosted := 0\<rparr>"

lemma conn_core_cmId [simp]: "cmId (conn_core c) = cmId c"
  by (simp add: conn_core_def)

lemma client_postRecv_ok:
  assumes "ready_conn E c" and "heap_get (regions w) p = Some ob" and "region ob = Some mr"
  shows "\<exists>c' w'. client_postRecv E p len expected (c, w) = Some (Ok (of_nat p), (c', w')) \<and>
    ready_conn E c' \<and> waitingReceives c' = waitingReceives c + 1 \<and> memoryPool c' = memoryPool c \<and>
    regions w' = regions w \<and> pools w' = pools w \<and> cqs w' = cqs w \<and> srqs w' = srqs w \<and>
    nworld.more w' = nworld.more w \<and> conn_core c' = conn_core c \<and> ledger (trace w') = ledger (trace w) \<and>
    traffic (trace w') = sent (cmId c) {#of_nat p#} (traffic (trace w))"
proof -
  let ?wr = "\<lparr>rwr_id = of_nat p,
     rwr_sg_list = [\<lparr>sge_addr = mr_addr mr, sge_length = len, sge_lkey = mr_lkey mr\<rparr>], rwr_num_sge = 1\<rparr>"
  let ?w' = "w\<lparr>trace := (WR (Ibv_post_recv (cmId c) ?wr), R_int 0) # trace w\<rparr>"
  from assms(1) obtain q where "qp_of E (trace w) (cmId c) = Some q"
    and "rc_of E (trace w) (WR (Ibv_post_recv (cmId c) ?wr)) = 0"
    unfolding ready_conn_def by blast
  then have post: "post_recv E ?wr (c, w) = Some (Ok 0, (c, ?w'))"
    by (simp add: post_recv_def run_simps)
  have req: "on_world (recv_request E p len) (c, w) = Some (Ok ?wr, (c, w))"
    using recv_request_run [OF assms(2,3)] by simp
  show ?thesis
  proof (cases "logging E")
    case True
    let ?c = "c\<lparr>totalRecvPosted := totalRecvPosted c + 1, waitingReceives := waitingReceives c + 1\<rparr>"
    have "client_postRecv E p len expected (c, w) = Some (Ok (of_nat p), (?c, ?w'))"
      using req post True by (simp add: client_postRecv_def conn_postRecv_def pushReceive_def bindM_assoc)
    moreover have "ready_conn E ?c" using assms(1) by (simp add: ready_conn_def)
    ultimately show ?thesis by (intro exI [of _ ?c] exI [of _ ?w']) (simp add: conn_core_def)
  next
    case False
    let ?c = "c\<lparr>waitingReceives := waitingReceives c + 1\<rparr>"
    have "client_postRecv E p len expected (c, w) = Some (Ok (of_nat p), (?c, ?w'))"
      using req post False by (simp add: client_postRecv_def conn_postRecv_def pushReceive_def bindM_assoc)
    moreover have "ready_conn E ?c" using assms(1) by (simp add: ready_conn_def)
    ultimately show ?thesis by (intro exI [of _ ?c] exI [of _ ?w']) (simp add: conn_core_def)
  qed
qed

text \<open>Posting a receive leaves the rest of the connection and the books alone; \<open>P\<close> has been posted
  since the traffic was \<open>tr\<close>.\<close>

interpretation client_receives: receive_poster
    "\<lambda>P c w. ready_conn E c \<and> conn_core c = core \<and> ledger (trace w) = books \<and>
       traffic (trace w) = sent (cmId core) P tr" "client_postRecv E"
  for E :: env and core :: "'c connection_scheme" and books :: books and tr :: receive_traffic
proof
  fix P and c :: "'c connection_scheme" and w :: "'b nworld_scheme" and p ob mr n b
  assume "ready_conn E c \<and> conn_core c = core \<and> ledger (trace w) = books \<and> traffic (trace w) = sent (cmId core) P tr"
    "heap_get (regions w) p = Some ob" "region ob = Some mr"
  then have c: "ready_conn E c" "conn_core c = core \<and> ledger (trace w) = books \<and> traffic (trace w) = sent (cmId core) P tr"
    "heap_get (regions w) p = Some ob" "region ob = Some mr" by simp_all
  then have "cmId c = cmId core" by (auto simp: conn_core_def)
  with c(2) client_postRecv_ok [OF c(1,3,4), of n b]
  show "\<exists>i c' w'. client_postRecv E p n b (c, w) = Some (Ok i, (c', w')) \<and>
      (ready_conn E c' \<and> conn_core c' = core \<and> ledger (trace w') = books \<and>
        traffic (trace w') = sent (cmId core) (add_mset (of_nat p) P) tr) \<and>
      waitingReceives c' = waitingReceives c + 1 \<and> memoryPool c' = memoryPool c \<and>
      regions w' = regions w \<and> pools w' = pools w \<and> cqs w' = cqs w \<and> srqs w' = srqs w \<and>
      nworld.more w' = nworld.more w" by fastforce
qed simp

section \<open>The message regions of a client\<close>

text \<open>What a client relies on below: honest registration, deregistration that succeeds, errors
  with a code, and no debug messages.\<close>

definition fair_env :: "env \<Rightarrow> bool" where
  "fair_env E \<longleftrightarrow> honest_reg E \<and> dereg_ok E \<and> errno_set E \<and> \<not> logging E"

text \<open>A region whose destruction gives back what it holds.\<close>

definition tidy :: "mregion \<Rightarrow> bool" where
  "tidy ob \<longleftrightarrow> flags ob = 0 \<and> (\<forall>mr. region ob = Some mr \<longrightarrow> unat (mr_length mr) < 2 ^ 32)"

lemma delete_region_fair:
  assumes "fair_env E" and "heap_get (regions w) p = Some ob" and "tidy ob"
  shows "\<exists>w'. delete_region E p w = Some (Ok (), w') \<and>
    (\<forall>q. heap_get (regions w') q = (if q = p then None else heap_get (regions w) q)) \<and>
    live_maps (trace w') = live_maps (trace w) - fp w p \<and>
    live_mrs (trace w') = live_mrs (trace w) - mrp w p"
proof -
  from assms(1) have e: "\<not> logging E" "dereg_ok E" by (auto simp: fair_env_def)
  have heap: "heap_get (heap_free p (heap_put p ob' (regions w))) q =
      (if q = p then None else heap_get (regions w) q)" for q ob'
    using assms(2) by (simp add: heap_get_free heap_get_put)
  show ?thesis
  proof (cases "region ob")
    case None
    let ?w' = "w\<lparr>regions := heap_free p (heap_put p ob (regions w))\<rparr>"
    have "delete_region E p w = Some (Ok (), ?w')"
      using assms(2) None e by (simp add: delete_region_def on_heap_run run_simps)
    then show ?thesis using heap [of ob] assms(2) None
      by (intro exI [of _ ?w']) (simp add: fp_def mrp_def)
  next
    case (Some mr)
    with assms(3) have len: "ucast (mr_length32 mr) = mr_length mr" "\<not> isUserRegion ob"
      by (auto simp: tidy_def mr_length32_def ucast_ucast_small)
    from release_gives_back' [OF e Some, of w] len obtain w1 where
      rel: "release E (ob, w) = Some (Ok 0, (ob\<lparr>region := None\<rparr>, w1))"
      and maps: "live_mrs (trace w1) = live_mrs (trace w) - {#mr#}"
        "live_maps (trace w1) = live_maps (trace w) - {#footprint mr#}" by auto
    from release_regions [OF rel] have rg: "regions w1 = regions w" .
    let ?w' = "w1\<lparr>regions := heap_free p (heap_put p (ob\<lparr>region := None\<rparr>) (regions w))\<rparr>"
    have "delete_region E p w = Some (Ok (), ?w')"
      using rel assms(2) rg by (simp add: delete_region_def on_heap_run run_simps)
    then show ?thesis using heap [of "ob\<lparr>region := None\<rparr>"] assms(2) Some maps
      by (intro exI [of _ ?w']) (simp add: fp_def mrp_def)
  qed
qed

lemma allocate64kB_fair:
  assumes "fair_env E" and "region r = None" and "flags r = 0"
  shows "\<exists>err r' w'. allocate64kB E pd (r, w) = Some (Ok err, (r', w')) \<and> tidy r' \<and>
    world.more w' = world.more w \<and>
    (case region r' of
       None \<Rightarrow> err \<noteq> 0 \<and> live_mrs (trace w') = live_mrs (trace w) \<and> live_maps (trace w') = live_maps (trace w)
     | Some mr \<Rightarrow> err = 0 \<and> live_mrs (trace w') = add_mset mr (live_mrs (trace w)) \<and>
         live_maps (trace w') = add_mset (footprint mr) (live_maps (trace w)))"
proof -
  let ?b = "ptr_of E (trace w) (Mem (Mmap 65536))"
  let ?m = "mr_of E ((Mem (Mmap 65536), R_ptr ?b) # trace w) (Mem (Ibv_reg_mr pd ?b 65536))"
  from assms(1) have e: "honest_reg E" "errno_set E" by (auto simp: fair_env_def)
  show ?thesis
  proof (cases "?b = MAP_FAILED \<or> ?m = None")
    case True
    with e(2) assms(2,3) show ?thesis
      by (auto simp: allocate64kB_def run_simps Let_def errno_set_def tidy_def)
  next
    case False
    then obtain mr where mr: "?m = Some mr" "?b \<noteq> MAP_FAILED" by auto
    with e(1) have "footprint mr = (?b, 65536)" by (auto simp: honest_reg_def)
    with mr assms(3) show ?thesis
      by (simp add: allocate64kB_def run_simps Let_def tidy_def)
  qed
qed

text \<open>A new region object with its buffer.\<close>

lemma new_64kB:
  fixes w :: "'a nworld_scheme"
  assumes "fair_env E"
  defines "p \<equiv> Suc (length (regions w))"
  shows "\<exists>err ob w'. on_region p (allocate64kB E pd) (w\<lparr>regions := heap_new empty_region (regions w)\<rparr>) =
      Some (Ok err, w') \<and> tidy ob \<and> (err = 0 \<longleftrightarrow> region ob \<noteq> None) \<and>
    (\<forall>q. heap_get (regions w') q = (if q = p then Some ob else heap_get (regions w) q)) \<and>
    live_mrs (trace w') = live_mrs (trace w) + mrp w' p \<and>
    live_maps (trace w') = live_maps (trace w) + fp w' p"
proof -
  let ?w1 = "w\<lparr>regions := heap_new empty_region (regions w)\<rparr>"
  have "region empty_region = None" "flags empty_region = 0" by (simp_all add: empty_region_def)
  from allocate64kB_fair [OF assms(1) this, of pd ?w1] obtain err r' w2 where
    al: "allocate64kB E pd (empty_region, ?w1) = Some (Ok err, (r', w2))" "tidy r'"
    "world.more w2 = world.more ?w1"
    and res0: "case region r' of
       None \<Rightarrow> err \<noteq> 0 \<and> live_mrs (trace w2) = live_mrs (trace ?w1) \<and> live_maps (trace w2) = live_maps (trace ?w1)
     | Some mr \<Rightarrow> err = 0 \<and> live_mrs (trace w2) = add_mset mr (live_mrs (trace ?w1)) \<and>
         live_maps (trace w2) = add_mset (footprint mr) (live_maps (trace ?w1))" by blast
  note res = res0 [simplified]
  from more_regions [OF al(3)] have rg: "regions w2 = heap_new empty_region (regions w)" by simp
  let ?w' = "w2\<lparr>regions := heap_put p r' (regions w2)\<rparr>"
  have heap: "heap_get (regions ?w') q = (if q = p then Some r' else heap_get (regions w) q)" for q
    using rg by (simp add: heap_get_put heap_get_new p_def)
  have "on_region p (allocate64kB E pd) ?w1 = Some (Ok err, ?w')"
    using al(1) by (simp add: on_heap_run heap_get_new p_def)
  moreover have "err = 0 \<longleftrightarrow> region r' \<noteq> None" using res by (cases "region r'") auto
  moreover have "live_mrs (trace ?w') = live_mrs (trace w) + mrp ?w' p"
      "live_maps (trace ?w') = live_maps (trace w) + fp ?w' p"
    using res heap [of p] by (cases "region r'"; simp add: mrp_def fp_def)+
  ultimately show ?thesis using heap al(2) by blast
qed

lemma destroy_connection_frame:
  "\<exists>c' w'. destroy_connection E (c, w) = Some (Ok (), (c', w')) \<and> regions w' = regions w \<and>
    live_mrs (trace w') = live_mrs (trace w) \<and> live_maps (trace w') = live_maps (trace w)"
  by (simp add: destroy_connection_def destroy_base_def run_simps)

text \<open>The world \<open>w'\<close> has the regions \<open>ps\<close> on top of \<open>w\<close>, with what they hold.\<close>

definition regions_plus :: "'a mworld_scheme \<Rightarrow> ptr list \<Rightarrow> 'a mworld_scheme \<Rightarrow> bool" where
  "regions_plus w ps w' \<longleftrightarrow> distinct ps \<and>
     (\<forall>p \<in> set ps. heap_get (regions w) p = None \<and> (\<exists>ob. heap_get (regions w') p = Some ob \<and> tidy ob)) \<and>
     (\<forall>q. q \<notin> set ps \<longrightarrow> heap_get (regions w') q = heap_get (regions w) q) \<and>
     live_mrs (trace w') = live_mrs (trace w) + (\<Sum>p\<leftarrow>ps. mrp w' p) \<and>
     live_maps (trace w') = live_maps (trace w) + (\<Sum>p\<leftarrow>ps. fp w' p)"

lemma regions_plus_refl: "regions_plus w [] w"
  by (simp add: regions_plus_def)

lemma region_cong:
  assumes "heap_get (regions w') q = heap_get (regions w) q"
  shows "mrp w' q = mrp w q" "fp w' q = fp w q"
  using assms by (simp_all add: mrp_def fp_def)

lemma regions_plus_new:
  fixes w1 :: "'a nworld_scheme"
  assumes "fair_env E" and "regions_plus w ps w1"
  defines "p \<equiv> Suc (length (regions w1))"
  shows "\<exists>err w2. on_region p (allocate64kB E pd) (w1\<lparr>regions := heap_new empty_region (regions w1)\<rparr>) =
      Some (Ok err, w2) \<and> regions_plus w (ps @ [p]) w2"
proof -
  from new_64kB [OF assms(1), of w1 pd, folded p_def] obtain err ob w2 where
    run: "on_region p (allocate64kB E pd) (w1\<lparr>regions := heap_new empty_region (regions w1)\<rparr>) = Some (Ok err, w2)"
    and ob: "tidy ob"
    and heap: "\<forall>q. heap_get (regions w2) q = (if q = p then Some ob else heap_get (regions w1) q)"
    and mr: "live_mrs (trace w2) = live_mrs (trace w1) + mrp w2 p"
    and fp: "live_maps (trace w2) = live_maps (trace w1) + fp w2 p" by blast
  have fresh: "heap_get (regions w1) p = None" by (simp add: p_def)
  with assms(2) have p: "p \<notin> set ps" by (auto simp: regions_plus_def)
  have same: "heap_get (regions w2) q = heap_get (regions w1) q" if "q \<in> set ps" for q
    using heap that p by auto
  have cong: "mrp w2 q = mrp w1 q" "fp w2 q = fp w1 q" if "q \<in> set ps" for q
    using region_cong [OF same [OF that]] by blast+
  then have sums: "(\<Sum>q\<leftarrow>ps. mrp w2 q) = (\<Sum>q\<leftarrow>ps. mrp w1 q)" "(\<Sum>q\<leftarrow>ps. fp w2 q) = (\<Sum>q\<leftarrow>ps. fp w1 q)"
    by (simp_all cong: map_cong)
  have none: "heap_get (regions w) p = None" using assms(2) p fresh by (auto simp: regions_plus_def)
  have "regions_plus w (ps @ [p]) w2"
    using assms(2) p none heap ob mr fp sums unfolding regions_plus_def
    by (simp add: add.assoc)
  with run show ?thesis by blast
qed

lemma regions_plus_delete:
  assumes "fair_env E" and "regions_plus w (p # ps) w1"
  shows "\<exists>w2. drop_ptr E p (c, w1) = Some (Ok (), (c, w2)) \<and> regions_plus w ps w2"
proof -
  from assms(2) obtain ob where ob: "heap_get (regions w1) p = Some ob" "tidy ob"
    and p: "heap_get (regions w) p = None" "p \<notin> set ps" "distinct ps"
    by (auto simp: regions_plus_def)
  from delete_region_fair [OF assms(1) ob] obtain w2 where
    del: "delete_region E p w1 = Some (Ok (), w2)"
    and heap: "\<forall>q. heap_get (regions w2) q = (if q = p then None else heap_get (regions w1) q)"
    and live: "live_maps (trace w2) = live_maps (trace w1) - fp w1 p"
      "live_mrs (trace w2) = live_mrs (trace w1) - mrp w1 p" by blast
  have "p \<noteq> 0" using ob(1) by (cases "p = 0") auto
  then have run: "drop_ptr E p (c, w1) = Some (Ok (), (c, w2))"
    using del by (simp add: drop_ptr_def)
  have same: "heap_get (regions w2) q = heap_get (regions w1) q" if "q \<in> set ps" for q
    using heap that p by auto
  have cong: "mrp w2 q = mrp w1 q" "fp w2 q = fp w1 q" if "q \<in> set ps" for q
    using region_cong [OF same [OF that]] by blast+
  then have sums: "(\<Sum>q\<leftarrow>ps. mrp w2 q) = (\<Sum>q\<leftarrow>ps. mrp w1 q)" "(\<Sum>q\<leftarrow>ps. fp w2 q) = (\<Sum>q\<leftarrow>ps. fp w1 q)"
    by (simp_all cong: map_cong)
  have "heap_get (regions w2) q = heap_get (regions w) q" if "q \<notin> set ps" for q
    using heap assms(2) p that by (auto simp: regions_plus_def)
  moreover have "\<exists>ob. heap_get (regions w2) q = Some ob \<and> tidy ob" "heap_get (regions w) q = None"
    if "q \<in> set ps" for q using heap assms(2) p that by (auto simp: regions_plus_def)
  moreover have "live_mrs (trace w2) = live_mrs (trace w) + (\<Sum>q\<leftarrow>ps. mrp w2 q)"
      "live_maps (trace w2) = live_maps (trace w) + (\<Sum>q\<leftarrow>ps. fp w2 q)"
    using live sums assms(2) by (simp_all add: regions_plus_def)
  ultimately have "regions_plus w ps w2" using p by (simp add: regions_plus_def)
  with run show ?thesis by blast
qed

lemma createRegions_plus:
  assumes "fair_env E" and "inMessageRegion c = 0" and "outMessageRegion c = 0"
  shows "\<exists>res c1 w1. createRegions E pd (c, w) = Some (res, (c1, w1)) \<and>
    (res = Ok () \<or> (\<exists>e. res = Throw e)) \<and>
    (outMessageRegion c1 = 0 \<and> inMessageRegion c1 \<noteq> 0 \<and> regions_plus w [inMessageRegion c1] w1 \<or>
     outMessageRegion c1 \<noteq> 0 \<and> inMessageRegion c1 \<noteq> 0 \<and>
     regions_plus w [inMessageRegion c1, outMessageRegion c1] w1)"
proof -
  let ?p = "Suc (length (regions w))"
  from regions_plus_new [OF assms(1) regions_plus_refl [of w], of pd] obtain err w1 where
    a1: "on_region ?p (allocate64kB E pd) (w\<lparr>regions := heap_new empty_region (regions w)\<rparr>) = Some (Ok err, w1)"
      "regions_plus w [?p] w1" by auto
  let ?q = "Suc (length (regions w1))"
  from regions_plus_new [OF assms(1) a1(2), of pd] obtain err' w2 where
    a2: "on_region ?q (allocate64kB E pd) (w1\<lparr>regions := heap_new empty_region (regions w1)\<rparr>) = Some (Ok err', w2)"
      "regions_plus w [?p, ?q] w2" by auto
  show ?thesis
  proof (cases "err = 0")
    case False
    with a1 assms(2,3) show ?thesis by (simp add: createRegions_def drop_ptr_def)
  next
    case True
    with a1 a2 assms(2,3) show ?thesis by (cases "err' = 0") (simp_all add: createRegions_def drop_ptr_def)
  qed
qed

text \<open>C24: The message regions of a client balance: whether \<open>createRegions\<close> succeeds or throws
  half way, the destructor of the client then deregisters and unmaps exactly what was
  made, and deletes the region objects.\<close>

theorem client_regions_balanced:
  assumes "fair_env E" and "inMessageRegion c = 0" and "outMessageRegion c = 0"
  shows "\<exists>res c1 w1 c2 w2. createRegions E pd (c, w) = Some (res, (c1, w1)) \<and>
    (res = Ok () \<or> (\<exists>e. res = Throw e)) \<and> reset_regions E (c1, w1) = Some (Ok (), (c2, w2)) \<and>
    inMessageRegion c2 = 0 \<and> outMessageRegion c2 = 0 \<and>
    (\<forall>q. heap_get (regions w2) q = heap_get (regions w) q) \<and>
    live_mrs (trace w2) = live_mrs (trace w) \<and> live_maps (trace w2) = live_maps (trace w)"
proof -
  from createRegions_plus [OF assms, of pd w] obtain res c1 w1 where
    create: "createRegions E pd (c, w) = Some (res, (c1, w1))" "res = Ok () \<or> (\<exists>e. res = Throw e)"
    and plus: "outMessageRegion c1 = 0 \<and> inMessageRegion c1 \<noteq> 0 \<and> regions_plus w [inMessageRegion c1] w1 \<or>
     outMessageRegion c1 \<noteq> 0 \<and> inMessageRegion c1 \<noteq> 0 \<and>
     regions_plus w [inMessageRegion c1, outMessageRegion c1] w1" by blast
  let ?c2 = "c1\<lparr>inMessageRegion := 0\<rparr>" and ?c3 = "c1\<lparr>inMessageRegion := 0, outMessageRegion := 0\<rparr>"
  have "\<exists>w3. reset_regions E (c1, w1) = Some (Ok (), (?c3, w3)) \<and> regions_plus w [] w3"
    using plus
  proof (elim disjE conjE)
    assume "outMessageRegion c1 = 0" and "regions_plus w [inMessageRegion c1] w1"
    from regions_plus_delete [OF assms(1) this(2), of ?c2] this(1) show ?thesis
      by (auto simp: reset_regions_def drop_ptr_def)
  next
    assume "regions_plus w [inMessageRegion c1, outMessageRegion c1] w1"
    from regions_plus_delete [OF assms(1) this, of ?c2] obtain w2 where
      d1: "drop_ptr E (inMessageRegion c1) (?c2, w1) = Some (Ok (), (?c2, w2))"
      "regions_plus w [outMessageRegion c1] w2" by blast
    from regions_plus_delete [OF assms(1) d1(2), of ?c3] d1(1) show ?thesis
      by (auto simp: reset_regions_def)
  qed
  then obtain w3 where "reset_regions E (c1, w1) = Some (Ok (), (?c3, w3))" "regions_plus w [] w3" by blast
  with create show ?thesis
    by (intro exI [of _ res] exI [of _ c1] exI [of _ w1] exI [of _ ?c3] exI [of _ w3])
       (simp add: regions_plus_def)
qed

lemma fair_env_ok: "fair_env env_ok"
  by (simp add: fair_env_def honest_reg_def dereg_ok_def)

theorem client_regions_balanced_witness:
  "\<exists>res c1 w1 c2 w2. createRegions env_ok 9 (blank_client, init_nworld) = Some (res, (c1, w1)) \<and>
     reset_regions env_ok (c1, w1) = Some (Ok (), (c2, w2)) \<and> live_maps (trace w2) = {#}"
proof -
  have "inMessageRegion blank_client = 0" "outMessageRegion blank_client = 0"
    by (simp_all add: blank_client_def)
  from client_regions_balanced [OF fair_env_ok this, of 9 init_nworld] show ?thesis
    by simp blast
qed

text \<open>A client whose pool has enough small blocks gets its receives: \<open>refill_preposts\<close>
  returns, exactly the number asked for is posted, each with a block of its own, and the
  pool has lost exactly the missing number of blocks and is as consistent as before.\<close>

theorem client_refill:
  assumes "ready_conn E c" and "heap_get (pools w) (memoryPool c) = Some mp" and "mp_inv (mp, w)"
    and "unat (waitingReceives c) + k = unat preposts" and "k \<le> length (free_list (small mp))"
  shows "\<exists>c' w' mp'. refill_preposts E (client_postRecv E) preposts (c, w) = Some (Ok (), (c', w')) \<and>
    getNumReceives c' = preposts \<and> memoryPool c' = memoryPool c \<and>
    heap_get (pools w') (memoryPool c) = Some mp' \<and> mp_inv (mp', w') \<and>
    length (free_list (small mp')) + k = length (free_list (small mp))"
  using client_receives.refill_returns [of E c "conn_core c" w "ledger (trace w)" "{#}" "traffic (trace w)", OF _ assms(2-5)] assms(1)
  by (simp only: sent_simps) blast

definition client_world :: nworld where
  "client_world = init_nworld\<lparr>regions := regions (snd fresh_pool), pools := [Some (fst fresh_pool)]\<rparr>"

theorem client_refill_witness:
  "\<exists>c' w'. refill_preposts env_ok (client_postRecv env_ok) 32 (blank_client\<lparr>memoryPool := 1\<rparr>, client_world) =
     Some (Ok (), (c', w')) \<and> getNumReceives c' = 32"
proof -
  obtain mp w where f: "fresh_pool = (mp, w)" "mp_inv (mp, w)"
    "\<forall>c. length (free_list (container c mp)) = count_of c" by (rule fresh_pool_facts)
  let ?c = "blank_client\<lparr>memoryPool := 1\<rparr>"
  have "ready_conn env_ok ?c" by (simp add: ready_conn_def)
  moreover have "heap_get (pools client_world) (memoryPool ?c) = Some mp"
    by (simp add: client_world_def f(1) heap_get_def)
  moreover have "regions w = regions client_world" by (simp add: client_world_def f(1))
  then have "mp_inv (mp, client_world)" using f(2) mp_inv_cong by metis
  moreover have "unat (waitingReceives ?c) + 32 = unat (32 :: u32)" by (simp add: blank_client_def)
  moreover have "32 \<le> length (free_list (small mp))"
    using f(3) [rule_format, of Small] by simp
  ultimately show ?thesis by (blast dest: client_refill)
qed

section \<open>Connecting to a peer\<close>

lemma poll_until_event_no_throw:
  assumes "poll_until_event E efd w = Some y"
  shows "\<forall>e. fst y \<noteq> Throw e"
proof (rule poll_until_event.raw_induct [where P = "\<lambda>E efd w y. \<forall>e. fst y \<noteq> Throw e", OF _ assms], goal_cases)
  case (1 rec E efd w y)
  then show ?case by (cases y) (fastforce simp: run_simps split: if_splits)
qed

lemma connect_no_throw: "connect E s \<noteq> Some (Throw e, t)"
proof
  assume "connect E s = Some (Throw e, t)"
  then show False
    by (cases s) (auto simp: connect_def get_event_def run_simps dest: poll_until_event_no_throw
        split: if_splits option.splits result.splits prod.splits)
qed

lemma resolveRoute_no_throw: "resolveRoute E s \<noteq> Some (Throw e, t)"
  by (cases s) (auto simp: resolveRoute_def get_event_def run_simps split: prod.splits)

lemma allocate64kB_no_throw: "allocate64kB E pd s \<noteq> Some (Throw e, t)"
  by (cases s) (auto simp: allocate64kB_def run_simps Let_def split: option.splits)

lemma on_region_throw:
  "on_region p m w = Some (Throw e, t) \<Longrightarrow> \<exists>ob ob' w'. m (ob, w) = Some (Throw e, (ob', w'))"
  by (auto simp: on_heap_def split: if_splits option.splits)

lemma createRegions_throws:
  assumes "inMessageRegion c = 0" and "outMessageRegion c = 0"
    and "createRegions E pd (c, w) = Some (Throw e, s)"
  shows "errcode e \<noteq> 0"
  using assms
  by (auto simp: createRegions_def drop_ptr_def run_simps RdmaError_def
      dest!: on_region_throw simp: allocate64kB_no_throw split: option.splits result.splits if_splits)

lemma createQp_throws:
  assumes "errno_set E" and "createQp E pd scq rcq n sig s = Some (Throw e, t)"
  shows "errcode e \<noteq> 0"
  using assms errno_set_ne
  by (cases s) (auto simp: createQp_def run_simps RdmaError_def conn_get_SRQ_def get_SRQ_def on_heap_def
      split: option.splits result.splits if_splits)

text \<open>C35: \<open>makePeer\<close> turns every exception of its steps into an error code, and it reports success
  only when the regions and the queue pair were created, the route was resolved and
  \<open>connect\<close> reported success, in this order.\<close>

theorem makePeer_result:
  assumes "errno_set E" and "inMessageRegion c = 0" and "outMessageRegion c = 0"
    and "makePeer E domain cq (c, w) = Some (res, s)"
  shows "(\<forall>e. res \<noteq> Throw e) \<and> (res = Ok 0 \<longrightarrow> (\<exists>s1 s2 s3.
    createRegions E domain (c\<lparr>client_domain := domain, client_completionQ := cq\<rparr>, w) = Some (Ok (), s1) \<and>
    createQp E domain cq cq 1 False s1 = Some (Ok (), s2) \<and>
    resolveRoute E s2 = Some (Ok 0, s3) \<and> connect E s3 = Some (Ok 0, s)))"
proof -
  let ?c = "c\<lparr>client_domain := domain, client_completionQ := cq\<rparr>"
  have "inMessageRegion ?c = 0" "outMessageRegion ?c = 0" using assms(2,3) by simp_all
  note regions = createRegions_throws [OF this]
  show ?thesis
    using assms(4)
    by (auto simp: makePeer_def bindM_run catchM_run connect_no_throw resolveRoute_no_throw
        dest: regions createQp_throws [OF assms(1)]
        split: option.splits result.splits if_splits prod.splits)
qed

definition env_peer :: env where
  "env_peer = env_ok\<lparr>rc_of := (\<lambda>t c. case c of Conn (Rdma_resolve_route i) \<Rightarrow> - 1 | _ \<Rightarrow> 0)\<rparr>"

definition peer_world :: nworld where
  "peer_world = init_nworld\<lparr>cqs := [Some (blank_cq 3)]\<rparr>"

theorem makePeer_result_witness:
  "\<exists>s. makePeer env_peer 9 1 (blank_client, peer_world) = Some (Ok 5, s)"
proof -
  have run: "\<exists>s. makePeer env_peer 9 1 (blank_client, peer_world) = Some (Ok 5, s)"
    by (simp add: makePeer_def createRegions_def drop_ptr_def createQp_def conn_get_SRQ_def getQpNum_run
        resolveRoute_def run_simps on_heap_run allocate64kB_def env_peer_def peer_world_def blank_client_def
        heap_get_def heap_new_def heap_put_def empty_region_def MAP_FAILED_def Let_def)
  then obtain s where s: "makePeer env_peer 9 1 (blank_client, peer_world) = Some (Ok 5, s)" by blast
  have "errno_set env_peer" by (simp add: errno_set_def env_peer_def)
  moreover have "inMessageRegion blank_client = 0" "outMessageRegion blank_client = 0"
    by (simp_all add: blank_client_def)
  ultimately have "(\<forall>e. Ok 5 \<noteq> (Throw e :: int result))" using makePeer_result s by blast
  with s show ?thesis by blast
qed

section \<open>Servers\<close>

text \<open>A server never reports a failed \<open>bind\<close> as the error code its documentation promises: the
  program is aborted.  A server that binds records the address and, for port 0, the port the
  system chose in its tag.\<close>

theorem server_bind:
  "\<exists>c' w'. bind_server E addr port (c, w) =
     Some (if rc_of E (trace w) (Conn (Rdma_bind_addr (cmId c)
              \<lparr>sin_family = PF_INET, sin_port = port, sin_addr = addr\<rparr>)) = 0 then Ok 0 else Fault Aborted, (c', w')) \<and>
     localAddress c' = \<lparr>sin_family = PF_INET, sin_port = port, sin_addr = addr\<rparr> \<and> cmId c' = cmId c"
  by (auto simp: bind_server_def run_simps Let_def zero_sockaddr_def)

text \<open>\<open>RdmaServer\<close> posts its receives to the shared queue when there is one, and to its own
  queue pair when the shared queue object has none; without the object, which nothing
  requires to exist, the first receive dereferences a null pointer.\<close>

theorem server_receives:
  assumes "heap_get (regions w) p = Some ob" and "region ob = Some mr"
  shows "if srq c = 0 then server_postRecv E p len b (c, w) = Some (Fault NullDeref, (c, w))
    else \<forall>s. heap_get (srqs w) (srq c) = Some s \<longrightarrow> qp_of E (trace w) (srq_cmId s) \<noteq> None \<longrightarrow>
      qp_srq_of E (trace w) (srq_cmId s) \<noteq> 0 \<longrightarrow>
      (\<exists>res w'. server_postRecv E p len b (c, w) =
         Some (res, (c\<lparr>totalRecvPosted := totalRecvPosted c + 1\<rparr>, w')) \<and>
       (case res of Ok i \<Rightarrow> i = of_nat p | Throw e \<Rightarrow> errcode e \<noteq> 0 | Fault q \<Rightarrow> False) \<and>
       (\<exists>rc. hd (trace w') = (WR (Ibv_post_srq_recv (qp_srq_of E (trace w) (srq_cmId s))
          \<lparr>rwr_id = of_nat p, rwr_sg_list = [\<lparr>sge_addr = mr_addr mr, sge_length = len, sge_lkey = mr_lkey mr\<rparr>],
            rwr_num_sge = 1\<rparr>), R_int rc)))"
proof (cases "srq c = 0")
  case True
  then show ?thesis by (simp add: server_postRecv_def run_simps)
next
  case False
  note req = recv_request_run [OF assms, of E len]
  have "\<exists>res w'. server_postRecv E p len b (c, w) =
         Some (res, (c\<lparr>totalRecvPosted := totalRecvPosted c + 1\<rparr>, w')) \<and>
       (case res of Ok i \<Rightarrow> i = of_nat p | Throw e \<Rightarrow> errcode e \<noteq> 0 | Fault q \<Rightarrow> False) \<and>
       (\<exists>rc. hd (trace w') = (WR (Ibv_post_srq_recv (qp_srq_of E (trace w) (srq_cmId s))
          \<lparr>rwr_id = of_nat p, rwr_sg_list = [\<lparr>sge_addr = mr_addr mr, sge_length = len, sge_lkey = mr_lkey mr\<rparr>],
            rwr_num_sge = 1\<rparr>), R_int rc))"
    if "heap_get (srqs w) (srq c) = Some s" "qp_of E (trace w) (srq_cmId s) \<noteq> None"
      "qp_srq_of E (trace w) (srq_cmId s) \<noteq> 0" for s
    using that req by (auto simp: server_postRecv_def run_simps on_heap_run get_SRQ_def RdmaError_def)
  with False show ?thesis by simp
qed

definition env_srq :: env where
  "env_srq = env_ok\<lparr>qp_srq_of := (\<lambda>t i. 77)\<rparr>"

definition server_world :: nworld where
  "server_world = init_nworld\<lparr>regions := [Some (wrap_region (Some mr_4k) 0)],
     srqs := [Some \<lparr>srq_domain = 9, srq_max_wr = 4096, srq_max_sge = 6, srq_cmId = 8\<rparr>]\<rparr>"

theorem server_receives_witness:
  "\<exists>res w'. server_postRecv env_srq 1 256 False (blank_connection\<lparr>srq := 1\<rparr>, server_world) =
     Some (res, (blank_connection\<lparr>srq := 1, totalRecvPosted := 1\<rparr>, w'))"
proof -
  have "heap_get (regions server_world) 1 = Some (wrap_region (Some mr_4k) 0)"
    "region (wrap_region (Some mr_4k) 0) = Some mr_4k"
    by (simp_all add: server_world_def heap_get_def wrap_region_def)
  from server_receives [OF this, of "blank_connection\<lparr>srq := 1\<rparr>" env_srq 256 False] show ?thesis
    by (simp add: server_world_def env_srq_def heap_get_def blank_connection_def) blast
qed

end
