(* ===== verification/Device.thy ===== *)
theory Device
  imports Logging Verbs
begin

unbundle bit_operations_syntax

text \<open>
  \<open>RdmaDevice\<close> (\<open>include/RdmaDevice.h\<close>, \<open>src/RdmaDevice.cpp\<close>): the search for an InfiniBand
  device by name and for a network interface by name, and what can be read from them.  The
  flag \<open>bgvrnic_device\<close> of the class is a field of the world; \<open>RdmaMemoryRegion\<close> reads it.
\<close>

section \<open>State and operations\<close>

text \<open>
  The lists belong to the object until its destructor frees them: the devices with their
  names, and the interfaces, the empty list when it is not there.
\<close>

record device =
  deviceList :: "(u64 \<times> string) list"
  myDevice :: u64
  dev_context :: u64
  interfaceList :: "(string \<times> (u16 \<times> u32) option) list"
  myInterface :: "(string \<times> (u16 \<times> u32) option) option"

definition blank_device :: device where
  "blank_device = \<lparr>deviceList = [], myDevice = 0, dev_context = 0, interfaceList = [],
     myInterface = None\<rparr>"

definition AF_INET :: u16 where "AF_INET = 2"

text \<open>\<open>strstr(s, p) != NULL\<close>.\<close>

fun strstr :: "string \<Rightarrow> string \<Rightarrow> bool" where
  "strstr [] p = (p = [])"
| "strstr (c # s) p = (take (length p) (c # s) = p \<or> strstr s p)"

text \<open>The loop over the devices: the first one of the name.\<close>

fun find_device :: "(u64 \<times> string) list \<Rightarrow> string \<Rightarrow> u64 option" where
  "find_device [] name = None"
| "find_device ((d, n) # ds) name = (if n = name then Some d else find_device ds name)"

text \<open>
  The loop over the interfaces.  The family is read through \<open>ifa_addr\<close>, which is null for an
  interface without an address, once the name matches.
\<close>

fun find_interface ::
    "(string \<times> (u16 \<times> u32) option) list \<Rightarrow> string \<Rightarrow>
     ('w, (string \<times> (u16 \<times> u32) option) option) M" where
  "find_interface [] name = returnM None"
| "find_interface ((n, addr) # ifs) name =
     (if n = name
      then (case addr of
          None \<Rightarrow> faultM NullDeref
        | Some (family, a) \<Rightarrow> if family = AF_INET then returnM (Some (n, addr))
                             else find_interface ifs name)
      else find_interface ifs name)"

text \<open>\<open>ibv_get_device_list\<close>: a list, or null.\<close>

definition ext_devices :: "env \<Rightarrow> ('a world_scheme, (u64 \<times> string) list option) M" where
  "ext_devices E = external (Dev Ibv_get_device_list) (devices_of E)
     (\<lambda>ds. R_ptr (case ds of None \<Rightarrow> 0 | Some _ \<Rightarrow> 1))"

lemma ext_devices_run [simp, run_simps]:
  "ext_devices E w = Some (Ok (devices_of E (trace w)), w\<lparr>trace := (Dev Ibv_get_device_list,
     R_ptr (case devices_of E (trace w) of None \<Rightarrow> 0 | Some _ \<Rightarrow> 1)) # trace w\<rparr>)"
  by (simp add: ext_devices_def external_def Let_def)

text \<open>The part of the constructor that looks for the interface.\<close>

definition open_interface :: "env \<Rightarrow> string \<Rightarrow> (device \<times> 'a world_scheme, unit) M" where
  "open_interface E interface =
     bindM (on_world (ext_int E (Dev Getifaddrs))) (\<lambda>rc.
     if rc \<noteq> 0
     then bindM (on_world (errno E)) (\<lambda>e. throwM (RdmaError e ''getifaddrs() failed''))
     else bindM (on_world (read_ext (ifaddrs_of E))) (\<lambda>ifs.
       thenM (this_mod (\<lambda>d. d\<lparr>interfaceList := ifs\<rparr>))
      (bindM (find_interface ifs interface) (\<lambda>found. case found of
         None \<Rightarrow> throwM (RdmaError ENOENT (''network interface '' @ interface @ '' not found''))
       | Some i \<Rightarrow> this_mod (\<lambda>d. d\<lparr>myInterface := Some i\<rparr>)))))"

text \<open>The constructor.  Its exceptions leave the lists it has obtained behind.\<close>

definition RdmaDevice :: "env \<Rightarrow> string \<Rightarrow> string \<Rightarrow> ('a world_scheme, device) M" where
  "RdmaDevice E name interface = construct blank_device
    (bindM (on_world (ext_devices E)) (\<lambda>list. case list of
       None \<Rightarrow> throwM (RdmaError ENODEV ''no InfiniBand devices available'')
     | Some ds \<Rightarrow>
         thenM (this_mod (\<lambda>d. d\<lparr>deviceList := ds, myDevice := 0\<rparr>))
        (case find_device ds name of
           None \<Rightarrow> throwM (RdmaError ENODEV (''InfiniBand device '' @ name @ '' not found''))
         | Some dev \<Rightarrow>
             thenM (this_mod (\<lambda>d. d\<lparr>myDevice := dev\<rparr>))
            (thenM (whenM (strstr name ''bgvrnic'')
               (on_world (modifyM (\<lambda>w. w\<lparr>bgvrnic_device := True\<rparr>))))
            (thenM (this_mod (\<lambda>d. d\<lparr>myInterface := None, interfaceList := []\<rparr>))
            (whenM (interface \<noteq> []) (open_interface E interface)))))))"

definition destroy_device :: "env \<Rightarrow> (device \<times> 'a world_scheme, unit) M" where
  "destroy_device E = bindM this_get (\<lambda>d.
     bindM (on_world (ext_int E (Dev Ibv_free_device_list))) (\<lambda>_.
     thenM (whenM (interfaceList d \<noteq> [])
       (bindM (on_world (ext_int E (Dev Freeifaddrs))) (\<lambda>_. returnM ())))
     (whenM (dev_context d \<noteq> 0)
       (bindM (on_world (ext_int E (Dev (Ibv_close_device (dev_context d))))) (\<lambda>_. returnM ())))))"

definition getDeviceName :: "device \<Rightarrow> string" where
  "getDeviceName d =
     (if myDevice d \<noteq> 0
      then (case map_of (deviceList d) (myDevice d) of None \<Rightarrow> [] | Some n \<Rightarrow> n) else [])"

definition getGuid :: "env \<Rightarrow> device \<Rightarrow> u64" where
  "getGuid E d = (if myDevice d \<noteq> 0 then guid_of E (myDevice d) else 0)"

definition getInterfaceName :: "device \<Rightarrow> string" where
  "getInterfaceName d = (case myInterface d of None \<Rightarrow> [] | Some (n, addr) \<Rightarrow> n)"

text \<open>The address is read through \<open>ifa_addr\<close>, which the constructor has found to be there.\<close>

definition device_address :: "(device \<times> 'w, u32) M" where
  "device_address = bindM this_get (\<lambda>d. case myInterface d of
       None \<Rightarrow> returnM 0
     | Some (n, None) \<Rightarrow> faultM NullDeref
     | Some (n, Some (family, a)) \<Rightarrow> returnM a)"

definition device_context :: "env \<Rightarrow> (device \<times> 'a world_scheme, u64) M" where
  "device_context E = bindM this_get (\<lambda>d.
     if myDevice d = 0 then returnM 0
     else if dev_context d = 0
     then bindM (on_world (ext_ptr E (Dev (Ibv_open_device (myDevice d))))) (\<lambda>ctx.
       if ctx = 0 then returnM 0
       else thenM (this_mod (\<lambda>d. d\<lparr>dev_context := ctx\<rparr>)) (returnM ctx))
     else returnM (dev_context d))"

section \<open>The printed attributes\<close>

text \<open>\<open>printf\<close> of four groups of four hexadecimal digits.\<close>

definition hex4 :: "u64 \<Rightarrow> string" where
  "hex4 x = pad 4 (digits 16 (unat (x AND 0xFFFF)))"

definition guid_str :: "u64 \<Rightarrow> string" where
  "guid_str g = hex4 (drop_bit 48 g) @ '':'' @ hex4 (drop_bit 32 g) @ '':'' @
     hex4 (drop_bit 16 g) @ '':'' @ hex4 g"

text \<open>A line of the output: a tab, the name, tabs up to the column, the value.\<close>

definition info_line :: "string \<Rightarrow> nat \<Rightarrow> string \<Rightarrow> string" where
  "info_line name tabs val = [CHR 0x09] @ name @ '':'' @ replicate tabs (CHR 0x09) @ val @ [CHR 0x0A]"

definition hex_upper :: "nat \<Rightarrow> string" where
  "hex_upper n = map (\<lambda>c. if 97 \<le> (of_char c :: nat) then char_of (of_char c - 32 :: nat) else c) (digits 16 n)"

definition limit_line :: "ibv_device_attr \<Rightarrow> nat \<Rightarrow> string \<Rightarrow> string" where
  "limit_line attr tabs name = info_line name tabs (dec_int (limits attr name))"

definition verbose_lines :: "ibv_device_attr \<Rightarrow> string list" where
  "verbose_lines attr =
     [info_line ''max_mr_size'' 3 (''0x'' @ digits 16 (unat (max_mr_size attr))),
      info_line ''page_size_cap'' 3 (''0x'' @ digits 16 (unat (page_size_cap attr))),
      limit_line attr 4 ''max_qp'', limit_line attr 4 ''max_qp_wr'',
      info_line ''device_cap_flags'' 2
        (''0x'' @ pad 8 (digits 16 (unat (of_int (limits attr ''device_cap_flags'') :: u32))))] @
     map (limit_line attr 4) [''max_sge''] @
     map (limit_line attr 3) [''max_sge_rd''] @
     map (limit_line attr 4) [''max_cq'', ''max_cqe'', ''max_mr'', ''max_pd''] @
     map (limit_line attr 3) [''max_qp_rd_atom'', ''max_ee_rd_atom''] @
     map (limit_line attr 2)
       [''max_res_rd_atom'', ''max_qp_init_rd_atom'', ''max_ee_init_rd_atom''] @
     map (limit_line attr 4) [''max_ee'', ''max_rdd'', ''max_mw''] @
     map (limit_line attr 2) [''max_raw_ipv6_qp'', ''max_raw_ethy_qp''] @
     map (limit_line attr 3) [''max_mcast_grp''] @
     map (limit_line attr 2) [''max_mcast_qp_attach''] @
     map (limit_line attr 1) [''max_total_mcast_qp_attach''] @
     map (limit_line attr 4) [''max_ah''] @
     map (limit_line attr 3) [''max_fmr''] @
     (if limits attr ''max_fmr'' \<noteq> 0 then map (limit_line attr 2) [''max_map_per_fmr''] else []) @
     map (limit_line attr 3) [''max_srq''] @
     (if limits attr ''max_srq'' \<noteq> 0
      then map (limit_line attr 3) [''max_srq_wr'', ''max_srq_sge''] else []) @
     map (limit_line attr 3) [''max_pkeys''] @
     map (limit_line attr 2) [''local_ca_ack_delay'']"

definition info_lines :: "ibv_device_attr \<Rightarrow> string \<Rightarrow> bool \<Rightarrow> string list" where
  "info_lines attr name verbose =
     (''hca_id:'' @ [CHR 0x09] @ name @ [CHR 0x0A]) #
     (if fw_ver attr \<noteq> [] then [info_line ''fw_ver'' 4 (fw_ver attr)] else []) @
     [info_line ''node_guid'' 3 (guid_str (node_guid attr)),
      info_line ''sys_image_guid'' 3 (guid_str (sys_image_guid attr)),
      info_line ''vendor_id'' 3 (''0x'' @ pad 4 (digits 16 (unat (vendor_id attr)))),
      info_line ''vendor_part_id'' 3 (dec_int (sint (vendor_part_id attr))),
      info_line ''hw_ver'' 4 (''0x'' @ hex_upper (unat (hw_ver attr))),
      info_line ''phys_port_cnt'' 3 (dec_int (uint (phys_port_cnt attr)))] @
     (if verbose then verbose_lines attr else [])"

text \<open>\<open>getDeviceInfo\<close>: the result is 1 in every case; a null context is passed on to the query.\<close>

definition getDeviceInfo :: "env \<Rightarrow> bool \<Rightarrow> (device \<times> 'a world_scheme, u64) M" where
  "getDeviceInfo E verbose =
     bindM (device_context E) (\<lambda>ctx.
     bindM (on_world (ext_int E (Dev (Ibv_query_device ctx)))) (\<lambda>rc.
     bindM (on_world (read_ext (\<lambda>t. device_attr_of E t ctx))) (\<lambda>attr.
     bindM this_get (\<lambda>d.
     thenM (whenM (rc = 0)
       (bindM (on_world (ext_int E (Host (Print (info_lines attr (getDeviceName d) verbose))))) (\<lambda>_.
        returnM ())))
     (returnM 1)))))"

section \<open>What the search finds\<close>

lemma find_device_find: "find_device ds name = map_option fst (find (\<lambda>(d, n). n = name) ds)"
  by (induction ds name rule: find_device.induct) auto

definition ipv4_of :: "string \<Rightarrow> string \<times> (u16 \<times> u32) option \<Rightarrow> bool" where
  "ipv4_of name i = (fst i = name \<and> map_option fst (snd i) = Some AF_INET)"

lemma find_interface_find:
  "find_interface ifs name w = Some (Ok r, w') \<Longrightarrow> w' = w \<and> find (ipv4_of name) ifs = r"
  by (induction ifs name rule: find_interface.induct)
     (auto simp: ipv4_of_def split: option.splits if_splits)

lemma find_interface_no_throw: "find_interface ifs name w \<noteq> Some (Throw e, w')"
  by (induction ifs name rule: find_interface.induct) (auto split: option.splits)

lemma find_interface_some: "find_interface ifs name w \<noteq> None"
  by (induction ifs name rule: find_interface.induct) (auto split: option.splits)

lemma open_interface_returns:
  assumes "open_interface E ifn (d, w) = Some (Ok (), (d', w'))"
  shows "\<exists>i. d' = d\<lparr>interfaceList := ifaddrs_of E ((Dev Getifaddrs, R_int 0) # trace w), myInterface := Some i\<rparr> \<and>
    find (ipv4_of ifn) (ifaddrs_of E ((Dev Getifaddrs, R_int 0) # trace w)) = Some i \<and>
    w' = w\<lparr>trace := (Dev Getifaddrs, R_int 0) # trace w\<rparr>"
  using assms
  by (auto simp: open_interface_def run_simps dest!: find_interface_find
      split: option.splits result.splits if_splits)

text \<open>What the constructor does when it returns.\<close>

lemma RdmaDevice_returns:
  assumes "RdmaDevice E name ifn w = Some (Ok d, w')"
  obtains ds where "devices_of E (trace w) = Some ds"
    "find_device ds name = Some (myDevice d)" "dev_context d = 0" "deviceList d = ds"
    "bgvrnic_device w' \<longleftrightarrow> bgvrnic_device w \<or> strstr name ''bgvrnic''"
    "ifn = [] \<Longrightarrow> myInterface d = None \<and> interfaceList d = [] \<and>
       trace w' = (Dev Ibv_get_device_list, R_ptr 1) # trace w"
    "ifn \<noteq> [] \<Longrightarrow> \<exists>i. myInterface d = Some i \<and> find (ipv4_of ifn) (interfaceList d) = Some i \<and>
       trace w' = (Dev Getifaddrs, R_int 0) #
         (Dev Ibv_get_device_list, R_ptr 1) # trace w"
  using assms
  by (cases "ifn = []")
     (auto simp: RdmaDevice_def run_simps blank_device_def elim!: that
      dest!: open_interface_returns split: option.splits result.splits if_splits)

text \<open>The lists and contexts a trace holds: device lists, interface lists, open devices.\<close>

fun dev_held :: "trace \<Rightarrow> int \<times> int \<times> int" where
  "dev_held [] = (0, 0, 0)"
| "dev_held ((Dev c, r) # t) = (case dev_held t of (l, i, x) \<Rightarrow> (case c of
       Ibv_get_device_list \<Rightarrow> (if r = R_ptr 0 then (l, i, x) else (l + 1, i, x))
     | Ibv_free_device_list \<Rightarrow> (l - 1, i, x)
     | Getifaddrs \<Rightarrow> (if r = R_int 0 then (l, i + 1, x) else (l, i, x))
     | Freeifaddrs \<Rightarrow> (l, i - 1, x)
     | Ibv_open_device d \<Rightarrow> (if r = R_ptr 0 then (l, i, x) else (l, i, x + 1))
     | Ibv_close_device c \<Rightarrow> (l, i, x - 1)
     | _ \<Rightarrow> (l, i, x)))"
| "dev_held (_ # t) = dev_held t"

text \<open>The constructor finds the first device of the given name and, when an interface is
  asked for, the first IPv4 interface of that name; the getters return these names and the
  address of that interface, and the Blue Gene flag is set when the name of the device says
  so and otherwise kept, also when it was set by an earlier device.\<close>

theorem device_search:
  assumes "RdmaDevice E name ifn w = Some (Ok d, w')"
  shows "\<exists>dev. find (\<lambda>(p, n). n = name) (deviceList d) = Some (dev, name) \<and> myDevice d = dev \<and>
    (ifn = [] \<longrightarrow> device_address (d, w') = Some (Ok 0, (d, w'))) \<and>
    (ifn \<noteq> [] \<longrightarrow> (\<exists>a. find (ipv4_of ifn) (interfaceList d) = Some (ifn, Some (AF_INET, a)) \<and>
       getInterfaceName d = ifn \<and> device_address (d, w') = Some (Ok a, (d, w')))) \<and>
    (bgvrnic_device w' \<longleftrightarrow> bgvrnic_device w \<or> strstr name ''bgvrnic'')"
proof -
  from assms obtain ds where ds: "find_device ds name = Some (myDevice d)" "deviceList d = ds"
    and flag: "bgvrnic_device w' \<longleftrightarrow> bgvrnic_device w \<or> strstr name ''bgvrnic''"
    and none: "ifn = [] \<Longrightarrow> myInterface d = None"
    and some: "ifn \<noteq> [] \<Longrightarrow> \<exists>i. myInterface d = Some i \<and> find (ipv4_of ifn) (interfaceList d) = Some i"
    by (rule RdmaDevice_returns) blast
  from ds obtain x where x: "find (\<lambda>(p, n). n = name) ds = Some x" "myDevice d = fst x"
    by (auto simp: find_device_find)
  then have "snd x = name" by (auto simp: find_Some_iff)
  with x ds have dev: "find (\<lambda>(p, n). n = name) (deviceList d) = Some (myDevice d, name)"
    by (cases x) simp
  have "\<exists>a. find (ipv4_of ifn) (interfaceList d) = Some (ifn, Some (AF_INET, a)) \<and>
      getInterfaceName d = ifn \<and> device_address (d, w') = Some (Ok a, (d, w'))" if "ifn \<noteq> []"
  proof -
    from some [OF that] obtain i where i: "myInterface d = Some i" "find (ipv4_of ifn) (interfaceList d) = Some i"
      by blast
    then have "ipv4_of ifn i" by (auto simp: find_Some_iff)
    then obtain a where "i = (ifn, Some (AF_INET, a))" by (cases i) (auto simp: ipv4_of_def)
    with i show ?thesis by (simp add: getInterfaceName_def device_address_def)
  qed
  with dev flag none show ?thesis by (auto simp: device_address_def)
qed

definition env_dev :: env where
  "env_dev = env_ok\<lparr>devices_of := (\<lambda>t. Some [(5, ''mlx4''), (6, ''bgvrnic0''), (7, ''bgvrnic0'')]),
     ifaddrs_of := (\<lambda>t. [(''lo'', Some (AF_INET, 1)), (''roq0'', Some (10, 2)), (''roq0'', Some (AF_INET, 3))])\<rparr>"

definition dev_trace :: trace where
  "dev_trace = [(Dev Getifaddrs, R_int 0), (Dev Ibv_get_device_list, R_ptr 1)]"

definition dev_6 :: device where
  "dev_6 = \<lparr>deviceList = [(5, ''mlx4''), (6, ''bgvrnic0''), (7, ''bgvrnic0'')], myDevice = 6, dev_context = 0,
     interfaceList = [(''lo'', Some (AF_INET, 1)), (''roq0'', Some (10, 2)), (''roq0'', Some (AF_INET, 3))],
     myInterface = Some (''roq0'', Some (AF_INET, 3))\<rparr>"

lemma dev_6_run: "RdmaDevice env_dev ''bgvrnic0'' ''roq0'' init_world =
    Some (Ok dev_6, \<lparr>trace = dev_trace, bgvrnic_device = True\<rparr>)"
  by (simp add: RdmaDevice_def open_interface_def env_dev_def dev_6_def dev_trace_def blank_device_def
      run_simps init_world_def AF_INET_def)

theorem device_search_witness:
  "device_address (dev_6, \<lparr>trace = dev_trace, bgvrnic_device = True\<rparr>) =
     Some (Ok 3, (dev_6, \<lparr>trace = dev_trace, bgvrnic_device = True\<rparr>))"
  using device_search [OF dev_6_run] by (auto simp: dev_6_def device_address_def)

lemma device_context_run:
  assumes "myDevice d \<noteq> 0" and "dev_context d = 0" and "c = Dev (Ibv_open_device (myDevice d))"
  shows "device_context E (d, w) =
    Some (Ok (ptr_of E (trace w) c), (d\<lparr>dev_context := ptr_of E (trace w) c\<rparr>,
      w\<lparr>trace := (c, R_ptr (ptr_of E (trace w) c)) # trace w\<rparr>))"
  using assms by (cases d) (simp add: device_context_def run_simps)

lemma destroy_device_held:
  "\<exists>d' w'. destroy_device E (d, w) = Some (Ok (), (d', w')) \<and>
    dev_held (trace w') = (case dev_held (trace w) of (l, i, x) \<Rightarrow>
      (l - 1, if interfaceList d = [] then i else i - 1, if dev_context d = 0 then x else x - 1))"
  by (auto simp: destroy_device_def run_simps split: prod.split)

lemma open_interface_throws:
  assumes "open_interface E ifn (d, w) = Some (Throw e, (d', w'))"
  shows "fst (dev_held (trace w')) = fst (dev_held (trace w))"
  using assms
  by (auto simp: open_interface_def run_simps find_interface_no_throw dest!: find_interface_find
      split: option.splits result.splits if_splits prod.splits)

text \<open>An exception leaves the device list behind.\<close>

lemma RdmaDevice_throws:
  assumes "RdmaDevice E name ifn w = Some (Throw e, w1)"
  shows "fst (dev_held (trace w1)) = fst (dev_held (trace w)) + (if devices_of E (trace w) = None then 0 else 1)"
proof (cases "devices_of E (trace w)")
  case None
  with assms show ?thesis by (auto simp: RdmaDevice_def run_simps split: prod.split)
next
  case (Some ds)
  note dl = Some
  show ?thesis
  proof (cases "find_device ds name")
    case None
    with assms dl show ?thesis by (auto simp: RdmaDevice_def run_simps split: prod.split)
  next
    case (Some dev)
    let ?w = "w\<lparr>trace := (Dev Ibv_get_device_list, R_ptr 1) # trace w,
      bgvrnic_device := bgvrnic_device w \<or> strstr name ''bgvrnic''\<rparr>"
    let ?d = "\<lparr>deviceList = ds, myDevice = dev, dev_context = 0, interfaceList = [], myInterface = None\<rparr>"
    have "ifn \<noteq> []" using assms dl Some 
      by (cases "strstr name ''bgvrnic''") (auto simp: RdmaDevice_def run_simps blank_device_def)
    with assms dl Some obtain d' where "open_interface E ifn (?d, ?w) = Some (Throw e, (d', w1))"
      by (cases "strstr name ''bgvrnic''")
         (auto simp: RdmaDevice_def run_simps blank_device_def split: option.splits result.splits)
    from open_interface_throws [OF this] \<open>devices_of E (trace w) = Some ds\<close> show ?thesis
      by (auto split: prod.split)
  qed
qed

text \<open>The life of a device is balanced: after the constructor, any number of requests for the
  context (the first opens it, the others return it without a call), and the destructor,
  every list is freed and the context is closed.  A constructor that throws after the list
  of devices was obtained leaves that list behind.\<close>

theorem device_lifecycle:
  assumes "RdmaDevice E name ifn w = Some (res, w1)"
  shows "case res of
      Ok d \<Rightarrow> (myDevice d \<noteq> 0 \<longrightarrow> (\<exists>ctx d2 w2 d3 w3. device_context E (d, w1) = Some (Ok ctx, (d2, w2)) \<and>
        (ctx \<noteq> 0 \<longrightarrow> device_context E (d2, w2) = Some (Ok ctx, (d2, w2))) \<and>
        destroy_device E (d2, w2) = Some (Ok (), (d3, w3)) \<and> dev_held (trace w3) = dev_held (trace w)))
    | Throw e \<Rightarrow> fst (dev_held (trace w1)) = fst (dev_held (trace w)) +
        (if devices_of E (trace w) = None then 0 else 1)
    | Fault q \<Rightarrow> True"
proof (cases res)
  case (Ok d)
  let ?c = "Dev (Ibv_open_device (myDevice d))"
  let ?ctx = "ptr_of E (trace w1) ?c"
  let ?d2 = "d\<lparr>dev_context := ?ctx\<rparr>" and ?w2 = "w1\<lparr>trace := (?c, R_ptr ?ctx) # trace w1\<rparr>"
  from assms Ok have d: "dev_context d = 0" and
    none: "ifn = [] \<Longrightarrow> interfaceList d = [] \<and>
       trace w1 = (Dev Ibv_get_device_list, R_ptr 1) # trace w" and
    some: "ifn \<noteq> [] \<Longrightarrow> interfaceList d \<noteq> [] \<and> trace w1 = (Dev Getifaddrs, R_int 0) #
         (Dev Ibv_get_device_list, R_ptr 1) # trace w"
    by (auto elim!: RdmaDevice_returns)
  have held: "dev_held (trace w1) = (case dev_held (trace w) of (l, i, x) \<Rightarrow>
      (l + 1, if interfaceList d = [] then i else i + 1, x))"
    using none some by (cases "ifn = []") (auto split: prod.split)
  have "\<exists>d2 w2 d3 w3. device_context E (d, w1) = Some (Ok ?ctx, (d2, w2)) \<and>
        (?ctx \<noteq> 0 \<longrightarrow> device_context E (d2, w2) = Some (Ok ?ctx, (d2, w2))) \<and>
        destroy_device E (d2, w2) = Some (Ok (), (d3, w3)) \<and> dev_held (trace w3) = dev_held (trace w)"
    if "myDevice d \<noteq> 0"
  proof -
    from destroy_device_held [of E ?d2 ?w2] obtain d3 w3 where
      "destroy_device E (?d2, ?w2) = Some (Ok (), (d3, w3))"
      "dev_held (trace w3) = dev_held (trace w)"
      using held by (auto split: prod.splits if_splits)
    moreover have "device_context E (d, w1) = Some (Ok ?ctx, (?d2, ?w2))"
      by (rule device_context_run [OF that d refl])
    moreover have "?ctx \<noteq> 0 \<longrightarrow> device_context E (?d2, ?w2) = Some (Ok ?ctx, (?d2, ?w2))"
      using that by (simp add: device_context_def run_simps)
    ultimately show ?thesis by blast
  qed
  with Ok show ?thesis by auto
next
  case (Throw e)
  with assms have "RdmaDevice E name ifn w = Some (Throw e, w1)" by simp
  from RdmaDevice_throws [OF this] Throw show ?thesis by simp
qed simp

theorem device_lifecycle_witness:
  "\<exists>ctx d2 w2 d3 w3. device_context env_dev (dev_6, \<lparr>trace = dev_trace, bgvrnic_device = True\<rparr>) =
       Some (Ok ctx, (d2, w2)) \<and>
     destroy_device env_dev (d2, w2) = Some (Ok (), (d3, w3)) \<and> dev_held (trace w3) = (0, 0, 0)"
  using device_lifecycle [OF dev_6_run] by (auto simp: dev_6_def)

end
