(* ===== verification/Controller.thy ===== *)
theory Controller
  imports ClientServer Device
begin

text \<open>
  \<open>RdmaController\<close> (\<open>include/RdmaController.h\<close>, \<open>src/RdmaController.cpp\<close>): the listener, the
  map of the connected clients, and the event loop that accepts, serves and removes them.

  Clients, completion queues and the memory pool are held by shared pointers from several
  places at once: the world counts the uses of each, and the last one to let go destroys the
  object.  The listener, the protection domain and the completion channel belong to the
  controller alone.

  Outside the repository and hence parameters: the concurrent map of HPX (\<open>map_api\<close>), its
  polling of an event channel (\<open>poll_api\<close>), and the functions the user registers, which run
  in the world but cannot reach into the controller.
\<close>

section \<open>Shared objects\<close>

datatype shared = Client_ref ptr | CQ_ref ptr | Pool_ref ptr

record cworld = nworld +
  client_objs :: "client heap"
  uses :: "shared \<Rightarrow> nat"

definition init_cworld :: cworld where
  "init_cworld = \<lparr>trace = [], bgvrnic_device = False, regions = [], cqs = [], pools = [], srqs = [],
     client_objs = [], uses = (\<lambda>_. 0)\<rparr>"

lemma init_cworld_simps [simp]: "trace init_cworld = []" "regions init_cworld = []"
    "cqs init_cworld = []" "pools init_cworld = []" "srqs init_cworld = []"
    "client_objs init_cworld = []" "uses init_cworld r = 0"
  by (simp_all add: init_cworld_def)

abbreviation on_client :: "ptr \<Rightarrow> (client \<times> 'a cworld_scheme, 'b) M \<Rightarrow> ('a cworld_scheme, 'b) M" where
  "on_client \<equiv> on_heap client_objs client_objs_update"

text \<open>A copy of a shared pointer is made, and goes away; the last one runs \<open>destroy\<close>.\<close>

definition share :: "shared \<Rightarrow> ('a cworld_scheme, unit) M" where
  "share r = modifyM (\<lambda>w. w\<lparr>uses := (uses w)(r := uses w r + 1)\<rparr>)"

definition unshare :: "shared \<Rightarrow> ('a cworld_scheme, unit) M \<Rightarrow> ('a cworld_scheme, unit) M" where
  "unshare r destroy = bindM getM (\<lambda>w.
     thenM (modifyM (\<lambda>w. w\<lparr>uses := (uses w)(r := uses w r - 1)\<rparr>))
           (whenM (uses w r = 1) destroy))"

definition drop_cq :: "env \<Rightarrow> ptr \<Rightarrow> ('a cworld_scheme, unit) M" where
  "drop_cq E p = whenM (p \<noteq> 0) (unshare (CQ_ref p)
     (thenM (on_cq p (destroy_cq E)) (modifyM (\<lambda>w. w\<lparr>cqs := heap_free p (cqs w)\<rparr>))))"

definition drop_pool :: "env \<Rightarrow> ptr \<Rightarrow> ('a cworld_scheme, unit) M" where
  "drop_pool E p = whenM (p \<noteq> 0) (unshare (Pool_ref p)
     (thenM (on_pool p (destroy_pool E)) (modifyM (\<lambda>w. w\<lparr>pools := heap_free p (pools w)\<rparr>))))"

definition drop_client :: "env \<Rightarrow> ptr \<Rightarrow> ('a cworld_scheme, unit) M" where
  "drop_client E p = whenM (p \<noteq> 0) (unshare (Client_ref p)
     (thenM (on_client p (destroy_client E (drop_cq E) (drop_pool E)))
            (modifyM (\<lambda>w. w\<lparr>client_objs := heap_free p (client_objs w)\<rparr>))))"

text \<open>\<open>make_shared\<close>: the object and its first use.  A client takes a copy of the pointers it
  stores.\<close>

definition make_cq :: "env \<Rightarrow> u64 \<Rightarrow> int \<Rightarrow> u64 \<Rightarrow> ('a cworld_scheme, ptr) M" where
  "make_cq E ctx n ch = bindM (RdmaCompletionQueue E ctx n ch) (\<lambda>ob.
     bindM (new_cq ob) (\<lambda>p. thenM (share (CQ_ref p)) (returnM p)))"

definition new_client :: "client \<Rightarrow> ('a cworld_scheme, ptr) M" where
  "new_client c = bindM getM (\<lambda>w.
     thenM (modifyM (\<lambda>w. w\<lparr>client_objs := heap_new c (client_objs w)\<rparr>))
    (thenM (share (Client_ref (Suc (length (client_objs w)))))
           (returnM (Suc (length (client_objs w))))))"

definition make_client_accepted ::
    "env \<Rightarrow> u64 \<Rightarrow> u64 \<Rightarrow> ptr \<Rightarrow> ptr \<Rightarrow> ptr \<Rightarrow> ('a cworld_scheme, ptr) M" where
  "make_client_accepted E i domain cq pool SRQ =
     bindM (RdmaClient_accepted E i domain cq pool SRQ) (\<lambda>c.
     thenM (share (CQ_ref cq)) (thenM (whenM (pool \<noteq> 0) (share (Pool_ref pool))) (new_client c)))"

definition make_client_addr ::
    "env \<Rightarrow> string \<Rightarrow> string \<Rightarrow> string \<Rightarrow> string \<Rightarrow> ('a cworld_scheme, ptr) M" where
  "make_client_addr E localAddr localPort remoteAddr remotePort =
     bindM (RdmaClient_addr E localAddr localPort remoteAddr remotePort) new_client"

text \<open>Run \<open>f\<close> at the end of a block, also when an exception leaves it.\<close>

definition finallyM :: "('s, 'a) M \<Rightarrow> ('s, unit) M \<Rightarrow> ('s, 'a) M" where
  "finallyM m f = bindM (catchM m (\<lambda>e. thenM f (throwM e))) (\<lambda>a. thenM f (returnM a))"

text \<open>A local object: it goes out of scope with the call.\<close>

definition with_local :: "'o \<Rightarrow> ('o \<times> 'w, 'a) M \<Rightarrow> ('w, 'a) M" where
  "with_local ob m = (\<lambda>w. map_option (\<lambda>(r, (_, w')). (r, w')) (m (ob, w)))"

section \<open>The controller\<close>

text \<open>
  The map of HPX keeps its contents in the order in which it iterates.  \<open>insert\<close> keeps an
  entry that is there, as \<open>std::unordered_map\<close> does.
\<close>

record map_api =
  map_insert :: "u32 \<Rightarrow> ptr \<Rightarrow> (u32 \<times> ptr) list \<Rightarrow> (u32 \<times> ptr) list"
  map_erase :: "u32 \<Rightarrow> (u32 \<times> ptr) list \<Rightarrow> (u32 \<times> ptr) list"

definition map_laws :: "map_api \<Rightarrow> bool" where
  "map_laws U \<longleftrightarrow> (\<forall>q p m. distinct (map fst m) \<longrightarrow>
     distinct (map fst (map_insert U q p m)) \<and>
     map_of (map_insert U q p m) = (if q \<in> dom (map_of m) then map_of m else (map_of m)(q \<mapsto> p)) \<and>
     distinct (map fst (map_erase U q m)) \<and>
     map_of (map_erase U q m) = (map_of m)(q := None))"

record 'w controller =
  ctl_device :: string
  ctl_interface :: string
  ctl_port :: int
  localAddr :: u32
  localAddrString :: string
  localPortString :: string
  event_poll_count :: u32
  completionFunction :: "(ibv_wc \<Rightarrow> ptr \<Rightarrow> ('w, int) M) option"
  preConnectionFunction :: "('w, int) M option"
  connectionFunction :: "(u32 \<times> u64 \<Rightarrow> ptr \<Rightarrow> ('w, int) M) option"
  disconnectionFunction :: "(ptr \<Rightarrow> ('w, int) M) option"
  rdmaListener :: "connection option"
  protectionDomain :: "rdma_domain option"
  ctl_channel :: "completion_channel option"
  clients :: "(u32 \<times> ptr) list"
  largeRegion :: ptr
  ctl_pool :: ptr

type_synonym ('a, 'b) ctl = "('a cworld_scheme controller \<times> 'a cworld_scheme, 'b) M"

definition RdmaController :: "string \<Rightarrow> string \<Rightarrow> int \<Rightarrow> 'w controller" where
  "RdmaController dev interface p =
     \<lparr>ctl_device = dev, ctl_interface = interface, ctl_port = p, localAddr = 0xFFFFFFFF,
      localAddrString = [], localPortString = [], event_poll_count = 0, completionFunction = None,
      preConnectionFunction = None, connectionFunction = None, disconnectionFunction = None,
      rdmaListener = None, protectionDomain = None, ctl_channel = None, clients = [],
      largeRegion = 0, ctl_pool = 0\<rparr>"

text \<open>Calls through the pointers the controller owns.\<close>

definition on_listener :: "(connection \<times> 'a cworld_scheme, 'b) M \<Rightarrow> ('a, 'b) ctl" where
  "on_listener m = (\<lambda>(k, w). case rdmaListener k of
       None \<Rightarrow> Some (Fault NullDeref, (k, w))
     | Some l \<Rightarrow> map_option (\<lambda>(r, (l', w')). (r, (k\<lparr>rdmaListener := Some l'\<rparr>, w'))) (m (l, w)))"

definition on_channel :: "(completion_channel \<times> 'a cworld_scheme, 'b) M \<Rightarrow> ('a, 'b) ctl" where
  "on_channel m = (\<lambda>(k, w). case ctl_channel k of
       None \<Rightarrow> Some (Fault NullDeref, (k, w))
     | Some l \<Rightarrow> map_option (\<lambda>(r, (l', w')). (r, (k\<lparr>ctl_channel := Some l'\<rparr>, w'))) (m (l, w)))"

definition the_domain :: "('a, u64) ctl" where
  "the_domain = bindM this_get (\<lambda>k. case protectionDomain k of
       None \<Rightarrow> faultM NullDeref
     | Some d \<Rightarrow> returnM (pd_ptr d))"

definition isTerminated :: "'w controller \<Rightarrow> bool" where
  "isTerminated k = (length (clients k) = 0)"

definition num_clients :: "'w controller \<Rightarrow> int" where
  "num_clients k = int (length (clients k))"

text \<open>\<open>_clients[q]\<close>: a key that is not there gets a null entry.\<close>

definition client_at :: "map_api \<Rightarrow> u32 \<Rightarrow> ('a, ptr) ctl" where
  "client_at U q = bindM this_get (\<lambda>k. case map_of (clients k) q of
       Some p \<Rightarrow> returnM p
     | None \<Rightarrow> thenM (this_mod (\<lambda>k. k\<lparr>clients := map_insert U q 0 (clients k)\<rparr>)) (returnM 0))"

definition client_insert :: "map_api \<Rightarrow> u32 \<Rightarrow> ptr \<Rightarrow> ('a, unit) ctl" where
  "client_insert U q p = bindM this_get (\<lambda>k.
     thenM (this_mod (\<lambda>k. k\<lparr>clients := map_insert U q p (clients k)\<rparr>))
           (whenM (map_of (clients k) q = None) (on_world (share (Client_ref p)))))"

definition client_erase :: "env \<Rightarrow> map_api \<Rightarrow> u32 \<Rightarrow> ('a, unit) ctl" where
  "client_erase E U q = bindM this_get (\<lambda>k.
     thenM (this_mod (\<lambda>k. k\<lparr>clients := map_erase U q (clients k)\<rparr>))
           (case map_of (clients k) q of None \<Rightarrow> returnM () | Some p \<Rightarrow> on_world (drop_client E p)))"

text \<open>\<open>getClient\<close> looks up the same way, and the caller gets a use.\<close>

definition getClient :: "map_api \<Rightarrow> u32 \<Rightarrow> ('a, ptr) ctl" where
  "getClient U q = bindM (client_at U q) (\<lambda>p.
     thenM (whenM (p \<noteq> 0) (on_world (share (Client_ref p)))) (returnM p))"

definition for_each_client :: "(u32 \<times> ptr \<Rightarrow> ('a, unit) ctl) \<Rightarrow> ('a, unit) ctl" where
  "for_each_client lambda = bindM this_get (\<lambda>k. iterM lambda (clients k))"

text \<open>The functions of the user; an empty \<open>std::function\<close> is \<open>None\<close>.\<close>

definition setPreConnectionFunction :: "('a cworld_scheme, int) M option \<Rightarrow> ('a, unit) ctl" where
  "setPreConnectionFunction f = this_mod (\<lambda>k. k\<lparr>preConnectionFunction := f\<rparr>)"

definition setConnectionFunction ::
    "(u32 \<times> u64 \<Rightarrow> ptr \<Rightarrow> ('a cworld_scheme, int) M) option \<Rightarrow> ('a, unit) ctl" where
  "setConnectionFunction f = this_mod (\<lambda>k. k\<lparr>connectionFunction := f\<rparr>)"

definition setDisconnectionFunction :: "(ptr \<Rightarrow> ('a cworld_scheme, int) M) option \<Rightarrow> ('a, unit) ctl" where
  "setDisconnectionFunction f = this_mod (\<lambda>k. k\<lparr>disconnectionFunction := f\<rparr>)"

definition setCompletionFunction ::
    "(ibv_wc \<Rightarrow> ptr \<Rightarrow> ('a cworld_scheme, int) M) option \<Rightarrow> ('a, unit) ctl" where
  "setCompletionFunction f = this_mod (\<lambda>k. k\<lparr>completionFunction := f\<rparr>)"

section \<open>Receives and completions\<close>

definition RDMA_MAX_PREPOSTS :: u32 where "RDMA_MAX_PREPOSTS = 32"

definition refill_clients :: "env \<Rightarrow> (u32 \<times> ptr) list \<Rightarrow> ('a cworld_scheme, unit) M" where
  "refill_clients E = iterM (\<lambda>(q, p).
     on_client p (refill_preposts E (client_postRecv E) RDMA_MAX_PREPOSTS))"

definition refill_client_receives :: "env \<Rightarrow> ('a, unit) ctl" where
  "refill_client_receives E = bindM this_get (\<lambda>k. on_world (refill_clients E (clients k)))"

text \<open>
  The loop over the completions of one client: poll, hand over, until the queue is empty.
  \<open>poll_completion\<close> has already ended the program for a completion with an error status.
\<close>

partial_function (option) drain_queue ::
    "env \<Rightarrow> (ibv_wc \<Rightarrow> ptr \<Rightarrow> ('a cworld_scheme, int) M) option \<Rightarrow> ptr \<Rightarrow> ptr \<Rightarrow> int \<Rightarrow> 'a cworld_scheme \<Rightarrow>
     (int result \<times> 'a cworld_scheme) option" where
  "drain_queue E f p q ntot w =
     bindM (on_cq q (poll_completion E)) (\<lambda>(nc, wc).
     bindM (case wc of
         None \<Rightarrow> returnM ()
       | Some completion \<Rightarrow>
           if wc_status completion \<noteq> IBV_WC_SUCCESS then faultM Terminated
           else (case f of None \<Rightarrow> returnM () | Some g \<Rightarrow> bindM (g completion p) (\<lambda>_. returnM ())))
     (\<lambda>_ t. if nc > 0 then drain_queue E f p q (ntot + nc) t else returnM (ntot + nc) t)) w"

fun poll_clients ::
    "env \<Rightarrow> (ibv_wc \<Rightarrow> ptr \<Rightarrow> ('a cworld_scheme, int) M) option \<Rightarrow> (u32 \<times> ptr) list \<Rightarrow> int \<Rightarrow>
     ('a cworld_scheme, int) M" where
  "poll_clients E f [] ntot = returnM ntot"
| "poll_clients E f (c # cs) ntot =
     bindM (on_client (snd c) this_get) (\<lambda>ob.
     bindM (drain_queue E f (snd c) (client_completionQ ob) ntot) (\<lambda>n.
     poll_clients E f cs n))"

definition pollCompletionQueues :: "env \<Rightarrow> ('a, int) ctl" where
  "pollCompletionQueues E = bindM this_get (\<lambda>k.
     on_world (poll_clients E (completionFunction k) (clients k) 0))"

section \<open>Connection events\<close>

text \<open>A connection request, part 1: the callback; a refusal is sent, and the code goes on.\<close>

definition pre_connection :: "env \<Rightarrow> ('a, unit) ctl" where
  "pre_connection E = bindM this_get (\<lambda>k. case preConnectionFunction k of
       None \<Rightarrow> returnM ()
     | Some f \<Rightarrow> bindM (on_listener getEventId) (\<lambda>_.
         bindM (on_world f) (\<lambda>ok.
         whenM (ok = 0) (bindM (on_listener getEventId) (\<lambda>i.
           bindM (on_listener (reject E i)) (\<lambda>_. returnM ()))))))"

text \<open>
  Part 2, with the new completion queue \<open>cq\<close> and client \<open>p\<close>: enter the client into the map,
  give every client its receives, accept.  When accepting fails the client is taken out of
  the map and the request is rejected.
\<close>

definition add_client :: "env \<Rightarrow> map_api \<Rightarrow> ptr \<Rightarrow> ('a, unit) ctl" where
  "add_client E U p =
     bindM (on_world (on_client p (getQpNum E))) (\<lambda>q.
     thenM (client_insert U q p)
    (thenM (refill_client_receives E)
    (bindM (on_world (on_client p (accept E))) (\<lambda>err.
     if err \<noteq> 0
     then bindM (on_world (on_client p (getQpNum E))) (\<lambda>q.
       thenM (client_erase E U q)
      (bindM (on_listener getEventId) (\<lambda>i.
       bindM (on_world (on_client p (reject E i))) (\<lambda>_. returnM ()))))
     else returnM ()))))"

text \<open>
  The whole case.  The result says whether the function goes on to acknowledge the event: it
  returns early when the queue or the client cannot be made.
\<close>

definition connect_request :: "env \<Rightarrow> map_api \<Rightarrow> ('a, bool) ctl" where
  "connect_request E U =
     thenM (pre_connection E)
    (bindM (catchM (bindM (on_listener (getEventContext E)) (\<lambda>ctx.
              bindM (on_world (make_cq E ctx (int MaxQueueSize) 0)) (\<lambda>p. returnM (Some p))))
            (\<lambda>e. returnM None)) (\<lambda>mcq. case mcq of
       None \<Rightarrow> returnM False
     | Some cq \<Rightarrow>
       bindM (on_listener getEventId) (\<lambda>i.
       bindM (on_listener this_get) (\<lambda>l.
       bindM the_domain (\<lambda>domain.
       bindM this_get (\<lambda>k.
       bindM (catchM (bindM (on_world (make_client_accepted E i domain cq (ctl_pool k) (srq l)))
                (\<lambda>p. returnM (Some p)))
              (\<lambda>e. thenM (on_world (drop_cq E cq)) (returnM None))) (\<lambda>mp. case mp of
         None \<Rightarrow> returnM False
       | Some p \<Rightarrow>
           thenM (finallyM (add_client E U p)
              (thenM (on_world (drop_client E p)) (on_world (drop_cq E cq))))
           (returnM True))))))))"

definition established :: "env \<Rightarrow> map_api \<Rightarrow> ('a, unit) ctl" where
  "established E U =
     bindM (on_listener (getEventQpNum E)) (\<lambda>q.
     bindM (client_at U q) (\<lambda>p.
     thenM (whenM (p \<noteq> 0) (on_world (share (Client_ref p))))
     (finallyM
       (thenM (whenM (logging E) (bindM (on_world (on_client p this_get)) (\<lambda>_. returnM ())))
       (bindM this_get (\<lambda>k. case connectionFunction k of
          None \<Rightarrow> returnM ()
        | Some f \<Rightarrow> bindM (on_world (on_client p (getQpNum E))) (\<lambda>n.
            bindM (on_world (f (n, 0) p)) (\<lambda>_. returnM ())))))
       (on_world (drop_client E p)))))"

text \<open>The acknowledgement is made here, before the identifier goes away with the client.\<close>

definition disconnected :: "env \<Rightarrow> map_api \<Rightarrow> ('a, unit) ctl" where
  "disconnected E U =
     bindM (on_listener (getEventQpNum E)) (\<lambda>q.
     bindM (client_at U q) (\<lambda>p.
     thenM (whenM (p \<noteq> 0) (on_world (share (Client_ref p))))
    (bindM (on_world (on_client p this_get)) (\<lambda>c.
     (let cq = client_completionQ c in
     thenM (whenM (cq \<noteq> 0) (on_world (share (CQ_ref cq))))
    (bindM (on_world (on_client p (disconnect E False))) (\<lambda>_.
     bindM (on_listener (ackEvent E)) (\<lambda>_.
     thenM (client_erase E U q)
    (thenM (on_world (drop_client E p))
    (thenM (whenM (logging E) (bindM (on_world (on_cq cq this_get)) (\<lambda>_. returnM ())))
           (on_world (drop_cq E cq))))))))))))"

definition eventChannelHandler :: "env \<Rightarrow> map_api \<Rightarrow> ('a, unit) ctl" where
  "eventChannelHandler E U =
     bindM (on_listener (waitForEvent E)) (\<lambda>err.
     if err \<noteq> 0 then returnM ()
     else bindM (on_listener getEventType) (\<lambda>ty.
       bindM (case ty of
           RDMA_CM_EVENT_CONNECT_REQUEST \<Rightarrow> connect_request E U
         | RDMA_CM_EVENT_ESTABLISHED \<Rightarrow> thenM (established E U) (returnM True)
         | RDMA_CM_EVENT_DISCONNECTED \<Rightarrow> thenM (disconnected E U) (returnM False)
         | _ \<Rightarrow> returnM True) (\<lambda>ack.
       whenM ack (bindM (on_listener (ackEvent E)) (\<lambda>_. returnM ())))))"

section \<open>The event loop\<close>

text \<open>
  \<open>poll_event_channel(fd, f)\<close> of HPX polls the descriptor and runs the handler \<open>f\<close> when an
  event is there; its result is the number of events.
\<close>

type_synonym 's poll_api = "int \<Rightarrow> ('s, unit) M \<Rightarrow> ('s, int) M"

definition pollEventChannel ::
    "env \<Rightarrow> map_api \<Rightarrow> ('a cworld_scheme controller \<times> 'a cworld_scheme) poll_api \<Rightarrow> ('a, int) ctl" where
  "pollEventChannel E U poll =
     bindM (on_listener (getEventChannelFd E)) (\<lambda>fd. poll fd (eventChannelHandler E U))"

definition eventMonitor ::
    "env \<Rightarrow> map_api \<Rightarrow> ('a cworld_scheme controller \<times> 'a cworld_scheme) poll_api \<Rightarrow> int \<Rightarrow> ('a, int) ctl" where
  "eventMonitor E U poll Nevents =
     bindM (pollCompletionQueues E) (\<lambda>n.
     bindM this_get (\<lambda>k.
     thenM (this_mod (\<lambda>k. k\<lparr>event_poll_count := event_poll_count k + 1\<rparr>))
     (if event_poll_count k mod 10 = 0
      then bindM (pollEventChannel E U poll) (\<lambda>m. returnM (n + m))
      else returnM n)))"

text \<open>
  \<open>completionChannelHandler\<close>: one completion is taken per round; the client is looked up and
  then not used.  Errors of the channel and the queue are reported and swallowed.
\<close>

partial_function (option) drain_channel ::
    "env \<Rightarrow> map_api \<Rightarrow> ptr \<Rightarrow> 'a cworld_scheme controller \<times> 'a cworld_scheme \<Rightarrow>
     (unit result \<times> 'a cworld_scheme controller \<times> 'a cworld_scheme) option" where
  "drain_channel E U q s =
     bindM (on_world (on_cq q (removeCompletions E 1))) (\<lambda>n t.
       if n \<noteq> 0
       then bindM (bindM (on_world (on_cq q popCompletion)) (\<lambda>i. case i of
              None \<Rightarrow> faultM NullDeref
            | Some j \<Rightarrow> bindM (on_world (on_cq q this_get)) (\<lambda>cq.
                bindM (client_at U (wc_qp_num (completions cq ! j))) (\<lambda>_. returnM ()))))
            (\<lambda>_. drain_channel E U q) t
       else returnM () t) s"

definition completionChannelHandler :: "env \<Rightarrow> map_api \<Rightarrow> u64 \<Rightarrow> ('a, bool) ctl" where
  "completionChannelHandler E U requestId =
     thenM (catchM (bindM (on_channel (getEvent E)) (drain_channel E U)) (\<lambda>e. returnM ()))
           (returnM True)"

section \<open>Connections between servers\<close>

text \<open>
  A failure to make the queue or the client is reported, and the code goes on with a null
  pointer.  The new client is returned with the use that the local pointer had.
\<close>

definition makeServerToServerConnection :: "env \<Rightarrow> map_api \<Rightarrow> u32 \<Rightarrow> u32 \<Rightarrow> ('a, ptr) ctl" where
  "makeServerToServerConnection E U remote_ip remote_port =
     bindM (catchM (bindM (on_listener (getContext E)) (\<lambda>ctx.
              on_world (make_cq E ctx (int MaxQueueSize) 0))) (\<lambda>e. returnM 0)) (\<lambda>cq0.
     bindM this_get (\<lambda>k.
     bindM (catchM (bindM (on_world (make_client_addr E (localAddrString k) (localPortString k)
                (butlast (ipaddress remote_ip)) (dec_int (uint remote_port)))) (\<lambda>p. returnM (p, cq0)))
              (\<lambda>e. thenM (on_world (drop_cq E cq0)) (returnM (0, 0)))) (\<lambda>(p, cq).
     bindM the_domain (\<lambda>domain.
     bindM (on_world (on_client p this_get)) (\<lambda>_.
     thenM (whenM (cq \<noteq> 0) (on_world (share (CQ_ref cq))))
    (bindM (on_world (on_client p (makePeer E domain cq))) (\<lambda>_.
     bindM (on_world (on_client p (getQpNum E))) (\<lambda>q.
     thenM (client_insert U q p)
    (bindM this_get (\<lambda>k.
     thenM (whenM (ctl_pool k \<noteq> 0) (on_world (share (Pool_ref (ctl_pool k)))))
    (thenM (on_world (on_client p (setMemoryPool (ctl_pool k))))
    (thenM (on_world (on_client p (setInitiatedConnection True)))
    (thenM (catchM (refill_client_receives E)
              (\<lambda>e. thenM (on_world (drop_client E p)) (thenM (on_world (drop_cq E cq)) (throwM e))))
    (thenM (on_world (drop_cq E cq))
    (returnM p)))))))))))))))"

text \<open>The client is passed by value: a use for the call, given back at \<open>client.reset()\<close>.\<close>

definition removeServerToServerConnection :: "env \<Rightarrow> map_api \<Rightarrow> ptr \<Rightarrow> ('a, unit) ctl" where
  "removeServerToServerConnection E U p =
     thenM (whenM (p \<noteq> 0) (on_world (share (Client_ref p))))
    (bindM (on_world (on_client p this_get)) (\<lambda>c.
     (let cq = client_completionQ c in
     thenM (whenM (cq \<noteq> 0) (on_world (share (CQ_ref cq))))
    (bindM (on_world (on_client p (getQpNum E))) (\<lambda>q.
     bindM (on_world (on_client p (disconnect E True))) (\<lambda>_.
     thenM (client_erase E U q)
    (thenM (on_world (drop_client E p))
    (thenM (whenM (logging E) (bindM (on_world (on_cq cq this_get)) (\<lambda>_. returnM ())))
           (on_world (drop_cq E cq))))))))))"

fun count_initiated :: "(u32 \<times> ptr) list \<Rightarrow> ('a cworld_scheme, nat) M" where
  "count_initiated [] = returnM 0"
| "count_initiated (c # cs) =
     bindM (on_client (snd c) this_get) (\<lambda>ob.
     bindM (count_initiated cs) (\<lambda>n.
     returnM (if initiated_connection ob then n + 1 else n)))"

text \<open>
  The inner loop \<open>while (c != _clients.end())\<close>: the iterator \<open>c\<close> is an argument, \<open>None\<close> the end
  of the map.  The body leaves the loop when it has removed the client, and goes round again with
  the same iterator when the client is not an initiated one: the source has no \<open>++c\<close>.
\<close>

partial_function (option) removeFirstInitiated ::
    "env \<Rightarrow> map_api \<Rightarrow> (u32 \<times> ptr) option \<Rightarrow> 'a cworld_scheme controller \<times> 'a cworld_scheme \<Rightarrow>
     (unit result \<times> 'a cworld_scheme controller \<times> 'a cworld_scheme) option" where
  "removeFirstInitiated E U c s = (case c of
       None \<Rightarrow> returnM () s
     | Some x \<Rightarrow> bindM (on_world (on_client (snd x) this_get)) (\<lambda>ob t.
         if initiated_connection ob
         then removeServerToServerConnection E U (snd x) t
         else removeFirstInitiated E U c t) s)"

partial_function (option) removeAllInitiatedConnections ::
    "env \<Rightarrow> map_api \<Rightarrow> 'a cworld_scheme controller \<times> 'a cworld_scheme \<Rightarrow>
     (unit result \<times> 'a cworld_scheme controller \<times> 'a cworld_scheme) option" where
  "removeAllInitiatedConnections E U s =
     bindM (bindM this_get (\<lambda>k. on_world (count_initiated (clients k)))) (\<lambda>n t.
       if n > 0
       then bindM (bindM this_get (\<lambda>k. removeFirstInitiated E U (case clients k of [] \<Rightarrow> None | c # _ \<Rightarrow> Some c)))
              (\<lambda>_. removeAllInitiatedConnections E U) t
       else returnM () t) s"

section \<open>Start and end\<close>

text \<open>
  The rank comes from \<open>SLURM_PROCID\<close>; a value that is no number is reported and taken as 0.
  Rank 0 writes its port to a file, the others wait a second and read it.
\<close>

definition slurm_rank :: "env \<Rightarrow> ('a world_scheme, int) M" where
  "slurm_rank E = bindM (ext_int E (Host (Getenv ''SLURM_PROCID''))) (\<lambda>_.
     returnM (case getenv_of E ''SLURM_PROCID'' of
       None \<Rightarrow> 0
     | Some val \<Rightarrow> (case lexical_int_of E val of None \<Rightarrow> 0 | Some r \<Rightarrow> r)))"

definition new_listener :: "env \<Rightarrow> u32 \<Rightarrow> ('a, unit) ctl" where
  "new_listener E addr = bindM this_get (\<lambda>k.
     bindM (on_world (RdmaServer E addr (of_int (ctl_port k)))) (\<lambda>l.
     this_mod (\<lambda>k. k\<lparr>rdmaListener := Some l\<rparr>)))"

definition create_listener :: "env \<Rightarrow> u32 \<Rightarrow> ('a, unit) ctl" where
  "create_listener E addr =
     bindM (on_world (slurm_rank E)) (\<lambda>rank.
     thenM
      (if rank = 0
       then thenM (new_listener E addr)
           (bindM (on_listener (getLocalPort E)) (\<lambda>p.
            bindM (on_world (ext_int E (Host (Write_port_file p)))) (\<lambda>_. returnM ())))
       else bindM (on_world (ext_int E (Host (Sleep 1)))) (\<lambda>_.
            bindM (on_world (ext_int E (Host Read_port_file))) (\<lambda>p.
            thenM (this_mod (\<lambda>k. k\<lparr>ctl_port := p\<rparr>)) (new_listener E addr))))
     (bindM (on_listener (getLocalPort E)) (\<lambda>p.
      bindM this_get (\<lambda>k.
      if uint p \<noteq> ctl_port k
      then bindM (on_listener (getLocalPort E)) (\<lambda>p. this_mod (\<lambda>k. k\<lparr>ctl_port := uint p\<rparr>))
      else returnM ()))))"

text \<open>Each \<open>try\<close> block of \<open>startup\<close>: an exception is an early return of its code.\<close>

definition or_return :: "('s, unit) M \<Rightarrow> ('s, int) M \<Rightarrow> ('s, int) M" where
  "or_return m rest =
     bindM (catchM (thenM m (returnM None)) (\<lambda>e. returnM (Some (errcode e)))) (\<lambda>r. case r of
       Some err \<Rightarrow> returnM err
     | None \<Rightarrow> rest)"

definition LargeRegionSize :: u64 where "LargeRegionSize = 8192"

definition make_domain :: "env \<Rightarrow> ('a, unit) ctl" where
  "make_domain E = bindM (on_listener (getContext E)) (\<lambda>ctx.
     bindM (on_world (RdmaProtectionDomain E ctx)) (\<lambda>d.
     this_mod (\<lambda>k. k\<lparr>protectionDomain := Some d\<rparr>)))"

definition make_channel :: "env \<Rightarrow> ('a, unit) ctl" where
  "make_channel E = bindM (on_listener (getContext E)) (\<lambda>ctx.
     bindM (on_world (RdmaCompletionChannel E ctx False 1)) (\<lambda>ch.
     this_mod (\<lambda>k. k\<lparr>ctl_channel := Some ch\<rparr>)))"

definition make_pool :: "env \<Rightarrow> u64 \<Rightarrow> ('a, unit) ctl" where
  "make_pool E domain = bindM (on_world (RdmaMemoryPool E domain 0x1000 32 64)) (\<lambda>mp.
     bindM (on_world getM) (\<lambda>w.
     thenM (on_world (modifyM (\<lambda>w. w\<lparr>pools := heap_new mp (pools w)\<rparr>)))
    (thenM (on_world (share (Pool_ref (Suc (length (pools w))))))
           (this_mod (\<lambda>k. k\<lparr>ctl_pool := Suc (length (pools w))\<rparr>)))))"

text \<open>The part after the device is known; \<open>shared_queue\<close> is \<open>USE_SHARED_RECEIVE_QUEUE\<close>.\<close>

definition start_services :: "env \<Rightarrow> bool \<Rightarrow> u32 \<Rightarrow> ('a, int) ctl" where
  "start_services E shared_queue addr =
     thenM (this_mod (\<lambda>k. k\<lparr>localAddr := addr, localAddrString := butlast (ipaddress addr)\<rparr>))
    (or_return (create_listener E addr)
    (or_return (make_domain E)
    (or_return (make_channel E)
    (bindM the_domain (\<lambda>domain.
     thenM (make_pool E domain)
    (thenM (whenM shared_queue (bindM (on_listener (create_srq E domain)) (\<lambda>_. returnM ())))
    (bindM (on_listener (listen E 256)) (\<lambda>err.
     if err \<noteq> 0 then returnM err
     else bindM (on_world (new_region empty_region)) (\<lambda>p.
       thenM (this_mod (\<lambda>k. k\<lparr>largeRegion := p\<rparr>))
      (bindM (on_world (on_region p (allocate E domain LargeRegionSize))) (\<lambda>err.
       if err \<noteq> 0 then returnM err else returnM 0)))))))))))"

definition startup :: "env \<Rightarrow> bool \<Rightarrow> ('a, int) ctl" where
  "startup E shared_queue = bindM this_get (\<lambda>k.
     bindM (catchM (bindM (on_world (RdmaDevice E (ctl_device k) (ctl_interface k))) (\<lambda>d. returnM (Inr d)))
              (\<lambda>e. returnM (Inl (errcode e)))) (\<lambda>r. case r of
       Inl err \<Rightarrow> returnM err
     | Inr d \<Rightarrow> finallyM
         (bindM (on_world (with_local d device_address)) (start_services E shared_queue))
         (on_world (with_local d (destroy_device E)))))"

definition cleanup :: "('a, int) ctl" where
  "cleanup = returnM 0"

text \<open>\<open>freeRegion\<close> has lost its body.\<close>

definition freeRegion :: "ptr \<Rightarrow> ('a, unit) ctl" where
  "freeRegion p = returnM ()"

text \<open>
  \<open>~RdmaController\<close>.  The pool goes when the controller has the last use of it.  The protection
  domain is destroyed here in any case; in the source the pool and the clients that the server
  has made itself hold it too, so that this is the last use only when they are gone.
\<close>

definition destroy_controller :: "env \<Rightarrow> ('a, unit) ctl" where
  "destroy_controller E = bindM this_get (\<lambda>k.
     thenM (on_world (iterM (\<lambda>c. drop_client E (snd c)) (clients k)))
    (thenM (this_mod (\<lambda>k. k\<lparr>clients := []\<rparr>))
    (thenM (case rdmaListener k of None \<Rightarrow> returnM ()
        | Some l \<Rightarrow> on_listener (destroy_connection E))
    (thenM (this_mod (\<lambda>k. k\<lparr>rdmaListener := None\<rparr>))
    (thenM (on_world (whenM (largeRegion k \<noteq> 0) (delete_region E (largeRegion k))))
    (thenM (this_mod (\<lambda>k. k\<lparr>largeRegion := 0\<rparr>))
    (thenM (on_world (drop_pool E (ctl_pool k)))
    (thenM (this_mod (\<lambda>k. k\<lparr>ctl_pool := 0\<rparr>))
    (thenM (case protectionDomain k of None \<Rightarrow> returnM ()
        | Some d \<Rightarrow> on_world (with_local d (destroy_domain E)))
    (thenM (this_mod (\<lambda>k. k\<lparr>protectionDomain := None\<rparr>))
    (thenM (case ctl_channel k of None \<Rightarrow> returnM ()
        | Some ch \<Rightarrow> on_world (with_local ch (destroy_channel E)))
           (this_mod (\<lambda>k. k\<lparr>ctl_channel := None\<rparr>)))))))))))))"

section \<open>Running the combinators\<close>

lemma on_listener_run:
  "rdmaListener k = Some l \<Longrightarrow> on_listener m (k, w) =
     (case m (l, w) of None \<Rightarrow> None | Some (r, (l', w')) \<Rightarrow> Some (r, (k\<lparr>rdmaListener := Some l'\<rparr>, w')))"
  by (simp add: on_listener_def split: option.split)

lemma finallyM_run:
  "finallyM m f s = (case m s of
       None \<Rightarrow> None
     | Some (r, t) \<Rightarrow> (case r of
           Ok a \<Rightarrow> bindM f (\<lambda>_. returnM a) t
         | Throw e \<Rightarrow> bindM f (\<lambda>_. throwM e) t
         | Fault q \<Rightarrow> Some (Fault q, t)))"
  by (auto simp: finallyM_def run_simps split: option.split result.split)

end
