(* ===== verification/CNK.thy ===== *)
theory CNK
  imports ConnectionBase
begin

text \<open>
  The variants for the compute nodes of Blue Gene/Q (\<open>include/CNKMemoryRegion.h\<close>,
  \<open>src/CNKMemoryRegion.cpp\<close>, \<open>include/CNKClient.h\<close>, \<open>src/CNKClient.cpp\<close>), where the RDMA
  calls are system calls of the node's kernel.  They replace \<open>RdmaMemoryRegion\<close> and
  \<open>RdmaClient\<close> in that build.
\<close>

section \<open>Memory regions\<close>

text \<open>The three parts of \<open>Kernel_RDMARegion_t\<close> that are used, and the fields of the class.\<close>

record cnk_region =
  cnk_address :: u64
  cnk_length :: u64
  cnk_lkey :: u32
  cnk_frags :: int
  cnk_region_fd :: int
  cnk_messageLength :: u32

type_synonym ('a, 'b) cnk_m = "(cnk_region \<times> 'a world_scheme, 'b) M"

text \<open>The default constructor leaves the length and the key of its storage \<open>m\<close> as they are.\<close>

definition cnk_empty :: "cnk_region \<Rightarrow> cnk_region" where
  "cnk_empty m = m\<lparr>cnk_address := 0, cnk_messageLength := 0, cnk_frags := 0, cnk_region_fd := - 1\<rparr>"

definition cnk_isAllocated :: "cnk_region \<Rightarrow> bool" where
  "cnk_isAllocated r = (cnk_address r \<noteq> 0)"

definition cnk_getLength :: "cnk_region \<Rightarrow> u32" where
  "cnk_getLength r = ucast (cnk_length r)"

definition cnk_setMessageLength :: "u32 \<Rightarrow> cnk_region \<Rightarrow> cnk_region" where
  "cnk_setMessageLength n r = r\<lparr>cnk_messageLength := n\<rparr>"

definition cnk_isMessageReady :: "cnk_region \<Rightarrow> bool" where
  "cnk_isMessageReady r = (cnk_messageLength r > 0)"

text \<open>\<open>Kernel_RDMARegisterMem\<close> reads address and length and writes the key.\<close>

definition registerMem :: "env \<Rightarrow> int \<Rightarrow> ('a, int) cnk_m" where
  "registerMem E rdma_fd = bindM this_get (\<lambda>r.
     (let c = CNK (Kernel_RDMARegisterMem rdma_fd (cnk_address r) (cnk_length r)) in
      bindM (on_world (read_ext (\<lambda>t. cnk_lkey_of E t c))) (\<lambda>key.
      bindM (on_world (ext_int E c)) (\<lambda>rc.
      thenM (whenM (rc = 0) (this_mod (\<lambda>r. r\<lparr>cnk_lkey := key\<rparr>))) (returnM rc)))))"

text \<open>
  The constructor for a buffer of the user.  It does not store the length of the buffer, so
  the kernel is given whatever the storage held; a failure is only reported.
\<close>

definition cnk_user_region :: "env \<Rightarrow> cnk_region \<Rightarrow> int \<Rightarrow> u64 \<Rightarrow> u64 \<Rightarrow> ('a world_scheme, cnk_region) M" where
  "cnk_user_region E m rdma_fd buffer len = construct m
    (thenM (this_mod (\<lambda>r. r\<lparr>cnk_address := buffer, cnk_messageLength := ucast len, cnk_frags := - 1,
       cnk_region_fd := - 1\<rparr>))
    (bindM (registerMem E rdma_fd) (\<lambda>_. returnM ())))"

definition cnk_allocate :: "env \<Rightarrow> int \<Rightarrow> u64 \<Rightarrow> ('a, int) cnk_m" where
  "cnk_allocate E rdma_fd len =
     bindM (on_world (ext_ptr E (Mem (Mmap len)))) (\<lambda>buffer.
     if buffer = MAP_FAILED then on_world (errno E)
     else thenM (this_mod (\<lambda>r. r\<lparr>cnk_address := buffer, cnk_length := len\<rparr>))
         (bindM (registerMem E rdma_fd) (\<lambda>success. if success \<noteq> 0 then returnM success else returnM 0)))"

text \<open>The body of \<open>release\<close> is commented out.\<close>

definition cnk_release :: "('a, int) cnk_m" where
  "cnk_release = returnM 0"

definition destroy_cnk_region :: "('a, unit) cnk_m" where
  "destroy_cnk_region = bindM cnk_release (\<lambda>_. returnM ())"

section \<open>Clients\<close>

text \<open>The message regions are never created and stay null.\<close>

record cnk_client = connection_base +
  cnk_in :: ptr
  cnk_out :: ptr
  Rdma_FD :: int
  cnk_port :: int

type_synonym ('a, 'b) cnkc_m = "(cnk_client \<times> 'a world_scheme, 'b) M"

definition blank_cnk_client :: cnk_client where
  "blank_cnk_client = \<lparr>memoryPool = 0, waitingReceives = 0, cnk_in = 0, cnk_out = 0, Rdma_FD = 0,
     cnk_port = 0\<rparr>"

text \<open>The three address arguments are not used; a port that is no number, or a failure of the
  kernel, is no \<open>RdmaError\<close>.\<close>

definition CNKClient :: "env \<Rightarrow> string \<Rightarrow> string \<Rightarrow> string \<Rightarrow> string \<Rightarrow> ('a world_scheme, cnk_client) M" where
  "CNKClient E localAddr localPort remoteAddr remotePort = construct blank_cnk_client
     (case lexical_int_of E localPort of
        None \<Rightarrow> faultM (OtherException ''bad_lexical_cast'')
      | Some p \<Rightarrow> thenM (this_mod (\<lambda>c. c\<lparr>cnk_port := p\<rparr>))
         (bindM (on_world (ext_id E (CNK Kernel_RDMAOpen))) (\<lambda>(rc, f).
          if rc \<noteq> 0 then faultM (OtherException ''RDMA failed initialization'')
          else this_mod (\<lambda>c. c\<lparr>Rdma_FD := uint f\<rparr>))))"

definition destroy_cnk_client :: "('a, unit) cnkc_m" where
  "destroy_cnk_client = thenM (this_mod (\<lambda>c. c\<lparr>cnk_in := 0\<rparr>))
     (thenM (this_mod (\<lambda>c. c\<lparr>cnk_out := 0\<rparr>))
     (thenM (this_mod (\<lambda>c. c\<lparr>memoryPool := 0\<rparr>)) destroy_base))"

definition cnk_createRegions :: "('a, unit) cnkc_m" where
  "cnk_createRegions = returnM ()"

definition cnk_makePeer :: "env \<Rightarrow> ('a, int) cnkc_m" where
  "cnk_makePeer E =
     bindM (catchM (thenM cnk_createRegions (returnM None)) (\<lambda>e. returnM (Some (errcode e)))) (\<lambda>r. case r of
       Some err \<Rightarrow> returnM err
     | None \<Rightarrow> bindM this_get (\<lambda>c.
         bindM (on_world (ext_int E (CNK (Kernel_RDMAConnect (Rdma_FD c) (cnk_port c))))) (\<lambda>rc.
         if rc \<noteq> 0 then faultM (OtherException ''Kernel_RDMAConnect failed'') else returnM 0)))"

definition cnk_disconnect :: "bool \<Rightarrow> ('a, int) cnkc_m" where
  "cnk_disconnect initiate = returnM 0"

text \<open>The region is given with its pointer, which becomes the identity of the request.\<close>

definition cnk_postSend :: "env \<Rightarrow> ptr \<Rightarrow> cnk_region \<Rightarrow> ('a, u64) cnkc_m" where
  "cnk_postSend E p r = bindM this_get (\<lambda>c.
     bindM (on_world (ext_int E (CNK (Kernel_RDMASend (Rdma_FD c) (cnk_address r)
        (cnk_messageLength r) (cnk_lkey r))))) (\<lambda>success.
     if success \<noteq> 0 then faultM (OtherException ''Kernel_RDMASend failed'') else returnM (of_nat p)))"

text \<open>\<open>pushReceive_\<close> is declared nowhere in the repository: it is a parameter.\<close>

definition cnk_postRecv ::
    "env \<Rightarrow> (u64 \<Rightarrow> ('a, unit) cnkc_m) \<Rightarrow> ptr \<Rightarrow> cnk_region \<Rightarrow> u32 \<Rightarrow> ('a, u64) cnkc_m" where
  "cnk_postRecv E push_recv p r len = bindM this_get (\<lambda>c.
     bindM (on_world (ext_int E (CNK (Kernel_RDMARecv (Rdma_FD c) (cnk_address r) len (cnk_lkey r))))) (\<lambda>success.
     if success \<noteq> 0 then faultM (OtherException ''Kernel_RDMARecv failed'')
     else thenM (push_recv (of_nat p)) (returnM (of_nat p))))"

section \<open>What is given back\<close>

text \<open>C40: On the compute node nothing is given back: whatever \<open>allocate\<close> returns, the destructor
  of the region makes no call, so a mapping that was made stays; and when the registration
  fails the object still counts as allocated although \<open>allocate\<close> reported an error.\<close>

theorem cnk_region_leaks:
  assumes "ptr_of E (trace w) (Mem (Mmap len)) = a" and "a \<noteq> MAP_FAILED" and "a \<noteq> 0"
  shows "\<exists>rc r' w'. cnk_allocate E rdma_fd len (r, w) = Some (Ok rc, (r', w')) \<and>
    cnk_isAllocated r' \<and> cnk_address r' = a \<and> cnk_length r' = len \<and>
    (\<exists>e. hd (trace w') = (CNK (Kernel_RDMARegisterMem rdma_fd a len), R_int e) \<and> rc = e) \<and>
    destroy_cnk_region (r', w') = Some (Ok (), (r', w')) \<and>
    live_maps (trace w') = add_mset (a, len) (live_maps (trace w))"
  using assms
  by (auto simp: cnk_allocate_def registerMem_def run_simps Let_def cnk_isAllocated_def
      destroy_cnk_region_def cnk_release_def)

definition cnk_raw :: cnk_region where
  "cnk_raw = \<lparr>cnk_address = 1, cnk_length = 2, cnk_lkey = 0, cnk_frags = 0, cnk_region_fd = 0,
     cnk_messageLength = 0\<rparr>"

theorem cnk_region_leaks_witness:
  "\<exists>rc r' w'. cnk_allocate env_ok 3 8192 (cnk_empty cnk_raw, init_world) = Some (Ok rc, (r', w')) \<and>
     cnk_isAllocated r' \<and> live_maps (trace w') = {#(4096, 8192)#}"
proof -
  have "ptr_of env_ok (trace init_world) (Mem (Mmap 8192)) = 4096" "(4096 :: u64) \<noteq> MAP_FAILED" "(4096 :: u64) \<noteq> 0"
    by (simp_all add: MAP_FAILED_def)
  from cnk_region_leaks [OF this, of 3 "cnk_empty cnk_raw"] obtain rc r' w' where
    "cnk_allocate env_ok 3 8192 (cnk_empty cnk_raw, init_world) = Some (Ok rc, (r', w'))"
    "cnk_isAllocated r'" "live_maps (trace w') = add_mset (4096, 8192) (live_maps (trace init_world))"
    by blast
  then show ?thesis by (intro exI [of _ rc] exI [of _ r'] exI [of _ w']) simp
qed

text \<open>A buffer of the user is registered under a length that has nothing to do with it: the
  kernel is given the length that happens to be in the storage of the object.\<close>

theorem cnk_user_length:
  "\<exists>r w'. cnk_user_region E m rdma_fd buffer len w = Some (Ok r, w') \<and>
     fst (hd (trace w')) = CNK (Kernel_RDMARegisterMem rdma_fd buffer (cnk_length m)) \<and>
     cnk_length r = cnk_length m"
  by (simp add: cnk_user_region_def registerMem_def run_simps Let_def)

end
