(* ===== verification/Reports.thy ===== *)
theory Reports
  imports Controller Logging CNK
begin

text \<open>
  What the classes say about themselves: the getters that hand out a field, the texts of
  \<open>writeTo\<close> and \<open>idToString\<close>, and the lines of the log.  How a stream prints a pointer is left to
  the implementation of the standard library; it is the parameter \<open>show\<close>.  The lemmas show that
  a log line can be taken apart again, and what the names of the events are worth.
\<close>

section \<open>Getters\<close>

definition getMessageLength :: "(mregion \<times> 'w, u32) M" where
  "getMessageLength = bindM this_get (\<lambda>r. returnM (messageLength r))"

definition getDomain :: "(rdma_domain \<times> 'w, u64) M" where
  "getDomain = bindM this_get (\<lambda>d. returnM (pd_ptr d))"

definition getQueue :: "(completion_queue \<times> 'w, u64) M" where
  "getQueue = bindM this_get (\<lambda>q. returnM (completionQ q))"

definition getChannel :: "(completion_channel \<times> 'w, u64) M" where
  "getChannel = bindM this_get (\<lambda>c. returnM (completionChannel c))"

definition getChannelFd :: "env \<Rightarrow> (completion_channel \<times> 'w, int) M" where
  "getChannelFd E = bindM this_get (\<lambda>c.
     if completionChannel c = 0 then faultM NullDeref else returnM (fd_of E (completionChannel c)))"

definition getCmId :: "('c connection_scheme \<times> 'w, u64) M" where
  "getCmId = bindM this_get (\<lambda>c. returnM (cmId c))"

definition getTag :: "('c connection_scheme \<times> 'w, string) M" where
  "getTag = bindM this_get (\<lambda>c. returnM (tag c))"

definition SRQ :: "('c connection_scheme \<times> 'w, ptr) M" where
  "SRQ = bindM this_get (\<lambda>c. returnM (srq c))"

definition getInitiatedConnection :: "('c connection_scheme \<times> 'w, bool) M" where
  "getInitiatedConnection = bindM this_get (\<lambda>c. returnM (initiated_connection c))"

definition getCompletionQ :: "(client \<times> 'w, ptr) M" where
  "getCompletionQ = bindM this_get (\<lambda>c. returnM (client_completionQ c))"

definition getServer :: "('a, connection option) ctl" where
  "getServer = bindM this_get (\<lambda>k. returnM (rdmaListener k))"

definition getProtectionDomain :: "('a, rdma_domain option) ctl" where
  "getProtectionDomain = bindM this_get (\<lambda>k. returnM (protectionDomain k))"

definition getMemoryPool :: "('a, ptr) ctl" where
  "getMemoryPool = bindM this_get (\<lambda>k. returnM (ctl_pool k))"

definition GetCompletionChannel :: "('a, completion_channel option) ctl" where
  "GetCompletionChannel = bindM this_get (\<lambda>k. returnM (ctl_channel k))"

text \<open>The port is kept as an \<open>int\<close> and handed out as \<open>unsigned int\<close>.\<close>

definition getPort :: "('a, u32) ctl" where
  "getPort = bindM this_get (\<lambda>k. returnM (word_of_int (ctl_port k)))"

definition cnk_getAddress :: "(cnk_region \<times> 'w, u64) M" where
  "cnk_getAddress = bindM this_get (\<lambda>r. returnM (cnk_address r))"

definition cnk_getLocalKey :: "(cnk_region \<times> 'w, u32) M" where
  "cnk_getLocalKey = bindM this_get (\<lambda>r. returnM (cnk_lkey r))"

definition cnk_getMessageLength :: "(cnk_region \<times> 'w, u32) M" where
  "cnk_getMessageLength = bindM this_get (\<lambda>r. returnM (cnk_messageLength r))"

definition getFD :: "(cnk_client \<times> 'w, int) M" where
  "getFD = bindM this_get (\<lambda>c. returnM (Rdma_FD c))"

section \<open>Texts\<close>

definition dec_u32 :: "u32 \<Rightarrow> string" where
  "dec_u32 x = digits 10 (unat x)"

text \<open>The message length is the only value without a blank in front.\<close>

definition region_writeTo :: "(u64 \<Rightarrow> string) \<Rightarrow> (mregion \<times> 'w, string) M" where
  "region_writeTo show =
     bindM getAddress (\<lambda>a. bindM getLength (\<lambda>n. bindM getLocalKey (\<lambda>k. bindM getRemoteKey (\<lambda>rk.
     bindM getMessageLength (\<lambda>m. returnM (''addr='' @ show a @ '' length='' @ dec_u32 n @ '' lkey='' @ dec_u32 k @
       '' rkey='' @ dec_u32 rk @ ''msglen= '' @ dec_u32 m))))))"

definition cnk_writeTo :: "(u64 \<Rightarrow> string) \<Rightarrow> cnk_region \<Rightarrow> string" where
  "cnk_writeTo show r = ''addr='' @ show (cnk_address r) @ '' length='' @ dec_u32 (cnk_getLength r) @
     '' lkey='' @ dec_u32 (cnk_lkey r) @ ''msglen= '' @ dec_u32 (cnk_messageLength r)"

text \<open>\<open>context\<close>, \<open>refcnt\<close> are fields of the library's structs, given by \<open>ctx_of\<close> and \<open>refcnt_of\<close>.\<close>

definition domain_writeTo :: "env \<Rightarrow> (u64 \<Rightarrow> string) \<Rightarrow> (u64 \<Rightarrow> u64) \<Rightarrow> (rdma_domain \<times> 'w, string) M" where
  "domain_writeTo E show ctx_of = bindM this_get (\<lambda>d.
     if pd_ptr d = 0 then faultM NullDeref
     else returnM (''context='' @ show (ctx_of (pd_ptr d)) @ '' handle='' @ dec_u32 (handle_of E (pd_ptr d))))"

definition channel_writeTo :: "env \<Rightarrow> (u64 \<Rightarrow> int) \<Rightarrow> nat \<Rightarrow> (completion_channel \<times> 'w, string) M" where
  "channel_writeTo E refcnt_of num = bindM this_get (\<lambda>c.
     if completionChannel c = 0 then faultM NullDeref
     else returnM (''fd='' @ dec_int (fd_of E (completionChannel c)) @ '' refcnt='' @
       dec_int (refcnt_of (completionChannel c)) @ '' num_cq='' @ digits 10 num))"

text \<open>The fields of the identifier that \<open>idToString\<close> prints.\<close>

record cm_id =
  id_verbs :: u64
  id_channel :: u64
  id_context :: u64
  id_qp :: u64
  id_ps :: nat
  id_port_num :: u8
  id_src :: sockaddr_in
  id_dst :: sockaddr_in

definition idToString :: "(u64 \<Rightarrow> string) \<Rightarrow> (u64 \<Rightarrow> cm_id) \<Rightarrow> string \<Rightarrow> ('c connection_scheme \<times> 'w, string) M" where
  "idToString show ids label = bindM this_get (\<lambda>c.
     if cmId c = 0 then faultM NullDeref
     else let i = ids (cmId c) in returnM (concat
       [label @ '':'' @ endl,
        ''verbs: '' @ show (id_verbs i) @ endl,
        ''channel: '' @ show (id_channel i) @ endl,
        ''context: '' @ show (id_context i) @ endl,
        ''qp: '' @ show (id_qp i) @ endl,
        ''port space: 0x'' @ digits 16 (id_ps i) @ endl,
        ''port num: 0x'' @ digits 16 (unat (id_port_num i)) @ endl,
        ''source address: '' @ addressToString (id_src i) @ '' ('' @ digits 16 (unat (sin_addr (id_src i))) @
          '':'' @ digits 10 (unat (sin_port (id_src i))) @ '')'' @ endl,
        ''remote address: '' @ digits 16 (unat (sin_addr (id_dst i))) @ '':'' @
          digits 10 (unat (sin_port (id_dst i))) @ endl]))"
section \<open>The lines of the log\<close>

datatype severity = trace_level | debug_level | info_level | warning_level | error_level | fatal_level

text \<open>The format of the console log: a running number, the severity (printed by boost as
  \<open>sev_name\<close>), the message.\<close>

definition log_line :: "(severity \<Rightarrow> string) \<Rightarrow> nat \<Rightarrow> severity \<Rightarrow> string \<Rightarrow> string" where
  "log_line sev_name n s msg = digits 10 n @ '': <'' @ sev_name s @ ''> '' @ msg"

text \<open>The macros put the identifier of the thread, which is empty without HPX, and a blank before the message.\<close>

definition log_message :: "string \<Rightarrow> string \<Rightarrow> string" where
  "log_message thread_id x = thread_id @ '' '' @ x"

text \<open>Without logging an error alone is printed, with its place in the source.\<close>

definition error_line :: "string \<Rightarrow> string \<Rightarrow> nat \<Rightarrow> string" where
  "error_line x file line = x @ '' '' @ file @ '' '' @ digits 10 line @ endl"

definition enter_message :: "string \<Rightarrow> string" where
  "enter_message func = ''**************** Enter '' @ func"

definition exit_message :: "string \<Rightarrow> string" where
  "exit_message func = ''################ Exit  '' @ func"

datatype BGCIOS_type = BGV_RDMADROP | BGV_RDMA_REG | BGV_RDMA_RMV | BGV_WORK_CMP | BGV_RECV_EVT

text \<open>\<open>ToString\<close> takes any value of the enumeration's integer type.\<close>

definition BGCIOS_of :: "nat \<Rightarrow> BGCIOS_type option" where
  "BGCIOS_of n = (if n < 5 then Some ([BGV_RDMADROP, BGV_RDMA_REG, BGV_RDMA_RMV, BGV_WORK_CMP, BGV_RECV_EVT] ! n) else None)"

fun ToString :: "BGCIOS_type option \<Rightarrow> string" where
  "ToString (Some BGV_RDMADROP) = ''BGV_RDMADROP''"
| "ToString (Some BGV_RDMA_REG) = ''BGV_RDMA_REG''"
| "ToString (Some BGV_RDMA_RMV) = ''BGV_RDMA_RMV''"
| "ToString (Some BGV_WORK_CMP) = ''BGV_WORK_CMP''"
| "ToString (Some BGV_RECV_EVT) = ''BGV_RECV_EVT''"
| "ToString None = ''[Unknown BGCIOS_type]''"

definition rdma_req_message :: "(u64 \<Rightarrow> string) \<Rightarrow> nat \<Rightarrow> u64 \<Rightarrow> int \<Rightarrow> int \<Rightarrow> string" where
  "rdma_req_message show ty reg n d = ''CIOSLOGRDMA_REQ '' @ ToString (BGCIOS_of ty) @ '' '' @ show reg @ '' '' @
     dec_int n @ '' '' @ dec_int d"

definition wc_message :: "nat \<Rightarrow> ibv_wc \<Rightarrow> string" where
  "wc_message ty wc = ''CIOSLOGMSG_WC   '' @ ToString (BGCIOS_of ty) @ '' '' @ hexpointer (wc_wr_id wc)"

definition event_message :: "(u64 \<Rightarrow> string) \<Rightarrow> nat \<Rightarrow> u64 \<Rightarrow> string" where
  "event_message show ty ev = ''CIOSLOGEVT_CH   '' @ ToString (BGCIOS_of ty) @ '' '' @ show ev"

text \<open>The number of a line can be read back, and so can the severity and the message when the
  names of the severities are words.\<close>

definition colon :: char where "colon = CHR '':''"

lemma digits_no_colon: "colon \<notin> set (digits 10 n)"
proof
  assume "colon \<in> set (digits 10 n)"
  then obtain d where d: "d \<in> set (to_base 10 n)" "colon = digit_char d" by (auto simp: digits_def)
  from to_base_less [OF _ d(1)] have "d < 10" by simp
  then have "of_char (digit_char d) = (48 + d :: nat)" by (simp add: digit_char_def)
  then have "of_char colon = (48 + d :: nat)" unfolding d(2) .
  moreover have "of_char colon = (58 :: nat)" by (simp add: colon_def)
  ultimately show False using \<open>d < 10\<close> by simp
qed

lemma append_sep: "xs @ x # ys = xs' @ x # ys' \<Longrightarrow> x \<notin> set xs \<Longrightarrow> x \<notin> set xs' \<Longrightarrow> xs = xs' \<and> ys = ys'"
proof (induction xs arbitrary: xs')
  case Nil
  then show ?case by (cases xs') auto
next
  case (Cons a xs)
  then show ?case by (cases xs') auto
qed

theorem log_line_inj:
  assumes "log_line sev_name n s msg = log_line sev_name n' s' msg'"
    and "\<forall>s. CHR ''>'' \<notin> set (sev_name s)" and "inj sev_name"
  shows "n = n' \<and> s = s' \<and> msg = msg'"
proof -
  have "digits 10 n @ colon # '' <'' @ sev_name s @ ''> '' @ msg = digits 10 n' @ colon # '' <'' @ sev_name s' @ ''> '' @ msg'"
    using assms(1) by (simp add: log_line_def colon_def)
  from append_sep [OF this digits_no_colon digits_no_colon]
  have d: "digits 10 n = digits 10 n'" and rest: "sev_name s @ CHR ''>'' # '' '' @ msg = sev_name s' @ CHR ''>'' # '' '' @ msg'"
    by simp_all
  from append_sep [OF rest] assms(2) have "sev_name s = sev_name s'" "msg = msg'" by simp_all
  moreover have "n = n'" using arg_cong [OF d, of "undigits 10"] by simp
  ultimately show ?thesis using assms(3) by (simp add: inj_eq)
qed

text \<open>The five events have five names; every other number prints the same text.\<close>

theorem event_names:
  "ToString (BGCIOS_of m) = ToString (BGCIOS_of n) \<longleftrightarrow> m = n \<or> 5 \<le> m \<and> 5 \<le> n"
proof -
  have names: "ToString x = ToString y \<longleftrightarrow> x = y" for x y
    by (cases x rule: ToString.cases; cases y rule: ToString.cases) simp_all
  have "BGCIOS_of m = BGCIOS_of n \<longleftrightarrow> m = n" if "m < 5" "n < 5"
  proof -
    have "distinct [BGV_RDMADROP, BGV_RDMA_REG, BGV_RDMA_RMV, BGV_WORK_CMP, BGV_RECV_EVT]" by simp
    from nth_eq_iff_index_eq [OF this, of m n] that show ?thesis by (simp add: BGCIOS_of_def)
  qed
  then show ?thesis unfolding names by (auto simp: BGCIOS_of_def not_less)
qed

end
