(* ===== verification/SystemLock.thy ===== *)
theory SystemLock
  imports Verbs
begin

text \<open>
  \<open>SystemLock\<close> (\<open>include/SystemLock.h\<close>): a lock between processes over a System V semaphore.
  The kernel's semaphore is outside the program; what the lock relies on is stated as
  \<open>semaphore\<close>: a decrement succeeds only when the value allows it.
\<close>

section \<open>State and operations\<close>

record system_lock =
  semid :: int
  semnum :: int

definition SystemLock :: "env \<Rightarrow> int \<Rightarrow> ('a world_scheme, system_lock) M" where
  "SystemLock E key = construct \<lparr>semid = 0, semnum = 0\<rparr>
     (bindM (on_world (ext_int E (Sem (Semget key)))) (\<lambda>i.
      this_mod (\<lambda>l. l\<lparr>semid := i, semnum := 0\<rparr>)))"

definition SEM_UNDO :: int where "SEM_UNDO = 0x1000"

text \<open>\<open>semop\<close> with one operation and the flag \<open>SEM_UNDO\<close>; its failure is reported as \<open>errno\<close>.\<close>

definition sem_op :: "env \<Rightarrow> int \<Rightarrow> (system_lock \<times> 'a world_scheme, int) M" where
  "sem_op E d = bindM this_get (\<lambda>l.
     bindM (on_world (ext_int E (Sem (Semop (semid l) (semnum l) d SEM_UNDO)))) (\<lambda>rc.
     if rc \<noteq> 0 then on_world (errno E) else returnM rc))"

definition lock :: "env \<Rightarrow> (system_lock \<times> 'a world_scheme, int) M" where
  "lock E = sem_op E (- 1)"

definition unlock :: "env \<Rightarrow> (system_lock \<times> 'a world_scheme, int) M" where
  "unlock E = sem_op E 1"

definition getValue :: "env \<Rightarrow> (system_lock \<times> 'a world_scheme, int) M" where
  "getValue E = bindM this_get (\<lambda>l.
     on_world (ext_int E (Sem (Semctl_getval (semid l) (semnum l)))))"

definition setValue :: "env \<Rightarrow> int \<Rightarrow> (system_lock \<times> 'a world_scheme, int) M" where
  "setValue E v = bindM this_get (\<lambda>l.
     bindM (on_world (ext_int E (Sem (Semctl_setval (semid l) (semnum l) v)))) (\<lambda>rc.
     if rc \<noteq> 0 then on_world (errno E) else returnM rc))"

section \<open>The semaphore\<close>

text \<open>The value of a semaphore after a trace: 0 when it is created.\<close>

fun sem_value :: "int \<times> int \<Rightarrow> trace \<Rightarrow> int" where
  "sem_value s [] = 0"
| "sem_value s ((Sem c, r) # t) = (case c of
       Semop i n d flg \<Rightarrow> (if (i, n) = s \<and> r = R_int 0 then sem_value s t + d else sem_value s t)
     | Semctl_setval i n v \<Rightarrow> (if (i, n) = s \<and> r = R_int 0 then v else sem_value s t)
     | Sem_undo i n d \<Rightarrow> (if (i, n) = s then sem_value s t + d else sem_value s t)
     | _ \<Rightarrow> sem_value s t)"
| "sem_value s (_ # t) = sem_value s t"

definition semaphore :: "env \<Rightarrow> int \<times> int \<Rightarrow> bool" where
  "semaphore E s \<longleftrightarrow> (\<forall>t d flg. rc_of E t (Sem (Semop (fst s) (snd s) d flg)) = 0 \<longrightarrow> 0 \<le> sem_value s t + d)"

lemma sem_op_run:
  "sem_op E d (l, w) =
     (let c = Sem (Semop (semid l) (semnum l) d SEM_UNDO); rc = rc_of E (trace w) c;
          w' = w\<lparr>trace := (c, R_int rc) # trace w\<rparr>
      in Some (Ok (if rc = 0 then 0 else errno_of E (trace w')), (l, w')))"
  by (simp add: sem_op_def run_simps Let_def)

section \<open>Mutual exclusion\<close>

text \<open>
  Processes that share the semaphore.  A process that does not hold the lock may ask for it, a
  holder may give it back, and any process may end at any time, also while it holds the lock.
  The kernel keeps for each process what it has to undo at its end: the sum of the operations
  that were made with the flag \<open>SEM_UNDO\<close>, negated.  What a call adds to it is read off the call.
\<close>

definition to_undo :: "call \<times> ret \<Rightarrow> int" where
  "to_undo x = (case x of
       (Sem (Semop i n d flg), r) \<Rightarrow> if r = R_int 0 \<and> flg = SEM_UNDO then - d else 0
     | _ \<Rightarrow> 0)"

record 'a lock_sys =
  lw :: "'a world_scheme"
  holders :: "nat set"
  semadj :: "nat \<Rightarrow> int"

definition after_call :: "nat \<Rightarrow> 'a lock_sys \<Rightarrow> 'a world_scheme \<Rightarrow> nat set \<Rightarrow> 'a lock_sys" where
  "after_call p s w' H = \<lparr>lw = w', holders = H, semadj = (semadj s)(p := semadj s p + to_undo (hd (trace w')))\<rparr>"

inductive lock_step :: "env \<Rightarrow> system_lock \<Rightarrow> 'a lock_sys \<Rightarrow> 'a lock_sys \<Rightarrow> bool" for E l where
  acquired: "p \<notin> holders s \<Longrightarrow> lock E (l, lw s) = Some (Ok 0, (l, w')) \<Longrightarrow>
    lock_step E l s (after_call p s w' (insert p (holders s)))"
| refused: "p \<notin> holders s \<Longrightarrow> lock E (l, lw s) = Some (Ok rc, (l, w')) \<Longrightarrow> rc \<noteq> 0 \<Longrightarrow>
    lock_step E l s (after_call p s w' (holders s))"
| released: "p \<in> holders s \<Longrightarrow> unlock E (l, lw s) = Some (Ok 0, (l, w')) \<Longrightarrow>
    lock_step E l s (after_call p s w' (holders s - {p}))"
| kept: "p \<in> holders s \<Longrightarrow> unlock E (l, lw s) = Some (Ok rc, (l, w')) \<Longrightarrow> rc \<noteq> 0 \<Longrightarrow>
    lock_step E l s (after_call p s w' (holders s))"
| ended: "lock_step E l s \<lparr>lw = (lw s)\<lparr>trace := (Sem (Sem_undo (semid l) (semnum l) (semadj s p)), R_int 0) # trace (lw s)\<rparr>,
    holders = holders s - {p}, semadj = (semadj s)(p := 0)\<rparr>"

text \<open>\<open>setValue\<close> makes the kernel forget what was to be undone.\<close>

inductive lock_reach :: "env \<Rightarrow> system_lock \<Rightarrow> 'a world_scheme \<Rightarrow> 'a lock_sys \<Rightarrow> bool" for E l w0 where
  start: "setValue E 1 (l, w0) = Some (Ok 0, (l, w)) \<Longrightarrow> lock_reach E l w0 \<lparr>lw = w, holders = {}, semadj = (\<lambda>p. 0)\<rparr>"
| step: "lock_reach E l w0 s \<Longrightarrow> lock_step E l s s' \<Longrightarrow> lock_reach E l w0 s'"

definition lock_value :: "system_lock \<Rightarrow> 'a world_scheme \<Rightarrow> int" where
  "lock_value l w = sem_value (semid l, semnum l) (trace w)"

definition lock_inv :: "system_lock \<Rightarrow> 'a lock_sys \<Rightarrow> bool" where
  "lock_inv l s \<longleftrightarrow> finite (holders s) \<and> 0 \<le> lock_value l (lw s) \<and> lock_value l (lw s) + int (card (holders s)) = 1 \<and>
     semadj s = (\<lambda>p. if p \<in> holders s then 1 else 0)"

text \<open>What one operation does to the value, and what it leaves to undo.\<close>

lemma sem_op_inv:
  assumes "semaphore E (semid l, semnum l)" and "errno_set E"
    and "sem_op E d (l, w) = Some (Ok rc, (l, w'))"
  shows "lock_value l w' = (if rc = 0 then lock_value l w + d else lock_value l w)"
    and "rc = 0 \<Longrightarrow> 0 \<le> lock_value l w + d"
    and "to_undo (hd (trace w')) = (if rc = 0 then - d else 0)"
  using assms by (auto simp: sem_op_run Let_def semaphore_def errno_set_ne lock_value_def to_undo_def split: if_splits)

lemma lock_step_inv:
  assumes "lock_step E l s s'" and "semaphore E (semid l, semnum l)" and "errno_set E" and "lock_inv l s"
  shows "lock_inv l s'"
  using assms(1)
proof cases
  note inv = sem_op_inv [OF assms(2,3)] and v = assms(4) [unfolded lock_inv_def]
  {
    case (acquired p w')
    with inv [of "- 1" "lw s" 0 w'] v show ?thesis by (auto simp: lock_inv_def lock_def after_call_def)
  next
    case (refused p rc w')
    with inv [of "- 1" "lw s" rc w'] v show ?thesis by (auto simp: lock_inv_def lock_def after_call_def)
  next
    case (released p w')
    from v have "finite (holders s)" by simp
    from card_Suc_Diff1 [OF this \<open>p \<in> holders s\<close>] have "int (card (holders s - {p})) = int (card (holders s)) - 1" by linarith
    with released inv [of 1 "lw s" 0 w'] v show ?thesis by (auto simp: lock_inv_def unlock_def after_call_def)
  next
    case (kept p rc w')
    with inv [of 1 "lw s" rc w'] v show ?thesis by (auto simp: lock_inv_def unlock_def after_call_def)
  next
    case (ended p)
    from v have "finite (holders s)" by simp
    from card_Suc_Diff1 [OF this, of p] have "int (card (holders s - {p})) = int (card (holders s)) - semadj s p"
      using v by auto
    with ended v show ?thesis by (auto simp: lock_inv_def lock_value_def)
  }
qed

lemma lock_reach_inv:
  assumes "lock_reach E l w0 s" and "semaphore E (semid l, semnum l)" and "errno_set E"
  shows "lock_inv l s"
  using assms(1)
proof (induction rule: lock_reach.induct)
  case (start w)
  with assms(3) show ?case
    by (auto simp: setValue_def run_simps lock_inv_def lock_value_def errno_set_ne split: if_splits)
next
  case (step s s')
  with lock_step_inv assms(2,3) show ?case by blast
qed

text \<open>C26: The lock excludes.  Once its value has been set to 1, at most one process holds it at any
  time, and the value of the semaphore is 1 exactly when nobody does, as long as the processes
  give back only what they have taken and nobody sets the value again.  They may ask at any time
  and may end at any time: the lock of a process that ends is free again, as every operation is
  made with \<open>SEM_UNDO\<close>.\<close>

theorem lock_excludes:
  assumes "lock_reach E l w0 s" and "semaphore E (semid l, semnum l)" and "errno_set E"
  shows "(\<forall>p \<in> holders s. \<forall>q \<in> holders s. p = q) \<and>
    (sem_value (semid l, semnum l) (trace (lw s)) = 1 \<longleftrightarrow> holders s = {})"
proof -
  from lock_reach_inv [OF assms] have "finite (holders s)" "card (holders s) \<le> 1"
    and v: "sem_value (semid l, semnum l) (trace (lw s)) + int (card (holders s)) = 1"
    by (auto simp: lock_inv_def lock_value_def)
  then show ?thesis by (auto simp: card_le_Suc0_iff_eq)
qed

text \<open>A new lock cannot be taken: the constructor creates the semaphore with the value 0 and
  does not set it, so no \<open>lock\<close> succeeds before somebody calls \<open>setValue\<close> or \<open>unlock\<close>.\<close>

theorem new_lock_is_taken:
  assumes "SystemLock E key w = Some (Ok l, w1)" and "semaphore E (semid l, 0)" and "errno_set E"
    and "sem_value (semid l, 0) (trace w) = 0"
  shows "\<exists>rc w2. lock E (l, w1) = Some (Ok rc, (l, w2)) \<and> rc \<noteq> 0"
proof -
  from assms(1) have l: "semnum l = 0" "sem_value (semid l, 0) (trace w1) = sem_value (semid l, 0) (trace w)"
    by (auto simp: SystemLock_def run_simps)
  obtain rc w2 where run: "lock E (l, w1) = Some (Ok rc, (l, w2))"
    by (auto simp: lock_def sem_op_run Let_def)
  with sem_op_inv(2) [of E l "- 1" w1 rc w2] assms(2-4) l have "rc \<noteq> 0"
    by (auto simp: lock_def lock_value_def)
  with run show ?thesis by blast
qed

section \<open>A semaphore\<close>

text \<open>An environment whose \<open>semop\<close> fails instead of waiting.\<close>

definition env_sem :: env where
  "env_sem = env_ok\<lparr>rc_of := (\<lambda>t c. case c of
       Sem (Semop i n d flg) \<Rightarrow> (if 0 \<le> sem_value (i, n) t + d then 0 else - 1)
     | Sem (Semget k) \<Rightarrow> 3 | _ \<Rightarrow> 0)\<rparr>"

lemma env_sem_ok: "semaphore env_sem s" "errno_set env_sem"
  by (auto simp: semaphore_def errno_set_def env_sem_def split: if_splits)

definition lock_3 :: system_lock where "lock_3 = \<lparr>semid = 3, semnum = 0\<rparr>"

text \<open>Process 8 takes the lock and dies.\<close>

definition lock_trace :: trace where
  "lock_trace = [(Sem (Semop 3 0 (- 1) SEM_UNDO), R_int 0), (Sem (Semctl_setval 3 0 1), R_int 0)]"

definition taken_sys :: "unit lock_sys" where
  "taken_sys = \<lparr>lw = init_world\<lparr>trace := lock_trace\<rparr>, holders = {8}, semadj = (\<lambda>p. 0)(8 := 1)\<rparr>"

definition died_sys :: "unit lock_sys" where
  "died_sys = \<lparr>lw = init_world\<lparr>trace := (Sem (Sem_undo 3 0 1), R_int 0) # lock_trace\<rparr>, holders = {}, semadj = (\<lambda>p. 0)\<rparr>"

lemma lock_reach_one: "lock_reach env_sem lock_3 init_world taken_sys" "lock_reach env_sem lock_3 init_world died_sys"
proof -
  let ?s = "\<lparr>lw = init_world\<lparr>trace := tl lock_trace\<rparr>, holders = {}, semadj = (\<lambda>p. 0)\<rparr>"
  have "lock_reach env_sem lock_3 init_world ?s"
    by (rule lock_reach.start) (simp add: setValue_def run_simps env_sem_def lock_3_def lock_trace_def)
  moreover have "lock_step env_sem lock_3 ?s (after_call 8 ?s (init_world\<lparr>trace := lock_trace\<rparr>) (insert 8 (holders ?s)))"
    by (rule lock_step.acquired)
       (simp_all add: lock_def sem_op_run Let_def env_sem_def lock_3_def lock_trace_def)
  moreover have "after_call 8 ?s (init_world\<lparr>trace := lock_trace\<rparr>) (insert 8 (holders ?s)) = taken_sys"
    by (simp add: after_call_def taken_sys_def to_undo_def lock_trace_def)
  ultimately show t: "lock_reach env_sem lock_3 init_world taken_sys" by (metis lock_reach.step)
  from lock_step.ended [of env_sem lock_3 taken_sys 8] have "lock_step env_sem lock_3 taken_sys died_sys"
    by (simp add: taken_sys_def died_sys_def lock_3_def fun_upd_idem)
  with t show "lock_reach env_sem lock_3 init_world died_sys" by (rule lock_reach.step)
qed

theorem lock_excludes_witness:
  "lock_reach env_sem lock_3 init_world taken_sys \<and> holders taken_sys = {8} \<and> sem_value (3, 0) (trace (lw taken_sys)) \<noteq> 1 \<and>
   sem_value (3, 0) (trace (lw died_sys)) = 1"
proof -
  have "holders taken_sys = {8}" "holders died_sys = {}" by (simp_all add: taken_sys_def died_sys_def)
  with lock_excludes [OF lock_reach_one(1) env_sem_ok] lock_excludes [OF lock_reach_one(2) env_sem_ok] lock_reach_one(1)
  show ?thesis by (simp add: lock_3_def)
qed

theorem new_lock_is_taken_witness:
  "\<exists>rc w2. lock env_sem (lock_3, \<lparr>trace = [(Sem (Semget 42042), R_int 3)], bgvrnic_device = False\<rparr>) =
     Some (Ok rc, (lock_3, w2)) \<and> rc \<noteq> 0"
  by (rule new_lock_is_taken [of env_sem 42042 init_world])
     (simp_all add: SystemLock_def run_simps env_sem_ok lock_3_def, simp_all add: env_sem_def init_world_def)

end
