(* ===== verification/EventLoop.thy ===== *)
theory EventLoop
  imports Controller
begin

text \<open>
  What the event loop of the controller guarantees: the receives of the clients, the
  completions it hands over, and how often it looks at the event channel.
\<close>

section \<open>The receives of all clients\<close>

text \<open>
  A client whose receives come from the pool \<open>pl\<close>, with at most the number asked for posted,
  and the number that is missing.
\<close>

definition hungry :: "env \<Rightarrow> ptr \<Rightarrow> client \<Rightarrow> bool" where
  "hungry E pl c \<longleftrightarrow> ready_conn E c \<and> memoryPool c = pl \<and> unat (waitingReceives c) \<le> 32"

definition missing :: "client \<Rightarrow> nat" where
  "missing c = 32 - unat (waitingReceives c)"

definition client_of :: "'a cworld_scheme \<Rightarrow> u32 \<times> ptr \<Rightarrow> client" where
  "client_of w x = the (heap_get (client_objs w) (snd x))"

definition clients_hungry :: "env \<Rightarrow> ptr \<Rightarrow> (u32 \<times> ptr) list \<Rightarrow> 'a cworld_scheme \<Rightarrow> bool" where
  "clients_hungry E pl cs w \<longleftrightarrow> distinct (map snd cs) \<and>
     (\<forall>x \<in> set cs. heap_get (client_objs w) (snd x) \<noteq> None \<and> hungry E pl (client_of w x))"

lemma client_objs_more:
  "nworld.more w' = nworld.more w \<Longrightarrow> client_objs w' = client_objs (w :: 'a cworld_scheme)"
  by (cases w; cases w') simp

text \<open>What refilling leaves as it is: all but the clients, the free lists, and message lengths.\<close>

definition frame_kept :: "'a cworld_scheme \<Rightarrow> 'a cworld_scheme \<Rightarrow> bool" where
  "frame_kept w w' \<longleftrightarrow> cqs w' = cqs w \<and> srqs w' = srqs w \<and> uses w' = uses w \<and>
     cworld.more w' = cworld.more w \<and> shape w' = shape w \<and> ledger (trace w') = ledger (trace w) \<and>
     (\<forall>p. map_option all_blocks (heap_get (pools w') p) = map_option all_blocks (heap_get (pools w) p))"

lemma frame_kept_refl [simp]: "frame_kept w w"
  by (simp add: frame_kept_def)

lemma frame_kept_trans: "frame_kept w w1 \<Longrightarrow> frame_kept w1 w2 \<Longrightarrow> frame_kept w w2"
  by (simp add: frame_kept_def)

lemma frame_kept_uses: "frame_kept w w' \<Longrightarrow> uses w' = uses w"
  by (simp add: frame_kept_def)

lemma heaps_frame_kept:
  assumes "heaps_kept w w'" and "ledger (trace w') = ledger (trace w)"
  shows "frame_kept w (w'\<lparr>client_objs := h\<rparr>)"
proof -
  from assms(1) have "uses w' = uses w" "cworld.more w' = cworld.more w"
    by (cases w; cases w'; simp add: heaps_kept_def)+
  with assms show ?thesis by (simp add: heaps_kept_def frame_kept_def shape_def fun_eq_iff)
qed

lemma refill_one:
  assumes "heap_get (client_objs w) p = Some c" and "hungry E pl c"
    and "heap_get (pools w) pl = Some mp" and "mp_inv (mp, w)"
    and "missing c \<le> length (free_list (small mp))"
  shows "\<exists>w' c' mp'. on_client p (refill_preposts E (client_postRecv E) RDMA_MAX_PREPOSTS) w =
      Some (Ok (), w') \<and> client_objs w' = heap_put p c' (client_objs w) \<and> getNumReceives c' = 32 \<and>
    conn_core c' = conn_core c \<and> hungry E pl c' \<and> missing c' = 0 \<and> frame_kept w w' \<and>
    heap_get (pools w') pl = Some mp' \<and> mp_inv (mp', w') \<and>
    length (free_list (small mp')) + missing c = length (free_list (small mp)) \<and>
    (\<exists>Q. handed_out mp' = handed_out mp + Q \<and> size Q = missing c \<and>
      traffic (trace w') = sent (cmId c) (image_mset of_nat Q) (traffic (trace w)))"
proof -
  have "unat (waitingReceives c) + missing c = unat RDMA_MAX_PREPOSTS"
    using assms(2) by (simp add: hungry_def missing_def RDMA_MAX_PREPOSTS_def)
  moreover have "ready_conn E c" "memoryPool c = pl" using assms(2) by (simp_all add: hungry_def)
  ultimately obtain c' w' mp' Q where
    run: "refill_preposts E (client_postRecv E) RDMA_MAX_PREPOSTS (c, w) = Some (Ok (), (c', w'))"
    and c': "getNumReceives c' = RDMA_MAX_PREPOSTS" "unat (waitingReceives c') = 32" "memoryPool c' = memoryPool c"
    and mp': "heap_get (pools w') pl = Some mp'" "mp_inv (mp', w')"
      "length (free_list (small mp')) + missing c = length (free_list (small mp))"
    and kept: "heaps_kept w w'" and core: "conn_core c' = conn_core c" "ready_conn E c'"
    and books: "ledger (trace w') = ledger (trace w)"
    and posted: "handed_out mp' = handed_out mp + Q" "size Q = missing c"
      "traffic (trace w') = sent (cmId c) (image_mset of_nat Q) (traffic (trace w))"
    using client_receives.refill_returns [of E c "conn_core c" w "ledger (trace w)" "{#}" "traffic (trace w)" mp
        "missing c" RDMA_MAX_PREPOSTS E]
      assms(3-5) by (auto simp: RDMA_MAX_PREPOSTS_def)
  have full: "hungry E pl c'" "missing c' = 0"
    using c'(2,3) core(2) assms(2) by (simp_all add: hungry_def missing_def)
  let ?w = "w'\<lparr>client_objs := heap_put p c' (client_objs w)\<rparr>"
  have "on_client p (refill_preposts E (client_postRecv E) RDMA_MAX_PREPOSTS) w = Some (Ok (), ?w)"
    using run assms(1) client_objs_more [OF heaps_kept_more [OF kept]] by (simp add: on_heap_run)
  moreover have "mp_inv (mp', ?w)" using mp'(2) by (rule mp_inv_cong [THEN iffD1, rotated]) simp
  ultimately show ?thesis using c'(1) mp' core(1) full heaps_frame_kept [OF kept books]
    by (intro exI [of _ ?w] exI [of _ c'] exI [of _ mp']) (use posted in \<open>auto simp: RDMA_MAX_PREPOSTS_def\<close>)
qed

lemma refill_one_blocks:
  assumes "heap_get (client_objs w) p = Some c" and "hungry E pl c"
    and "heap_get (pools w) pl = Some mp" and "mp_inv (mp, w)"
    and "length (free_list (small mp)) < missing c"
  shows "on_client p (refill_preposts E (client_postRecv E) RDMA_MAX_PREPOSTS) w = None"
proof -
  have "unat (waitingReceives c) + missing c = unat RDMA_MAX_PREPOSTS"
    using assms(2) by (simp add: hungry_def missing_def RDMA_MAX_PREPOSTS_def)
  moreover have "ready_conn E c" "memoryPool c = pl" using assms(2) by (simp_all add: hungry_def)
  ultimately have "refill_preposts E (client_postRecv E) RDMA_MAX_PREPOSTS (c, w) = None"
    using client_receives.refill_blocks [of E c "conn_core c" w "ledger (trace w)" "{#}" "traffic (trace w)" mp
        "missing c" RDMA_MAX_PREPOSTS E]
      assms(3-5) by auto
  with assms(1) show ?thesis by (simp add: on_heap_run)
qed

lemma refill_clients_simps [simp]:
  "refill_clients E [] = returnM ()"
  "refill_clients E (x # cs) = thenM (on_client (snd x)
     (refill_preposts E (client_postRecv E) RDMA_MAX_PREPOSTS)) (refill_clients E cs)"
  by (simp_all add: refill_clients_def case_prod_beta')

text \<open>The other clients are as hungry as before.\<close>

lemma clients_hungry_next:
  assumes "clients_hungry E pl (x # cs) w" and "client_objs w' = heap_put (snd x) c' (client_objs w)"
  shows "clients_hungry E pl cs w'" "\<forall>y \<in> set cs. client_of w' y = client_of w y"
proof -
  from assms(1) have h: "heap_get (client_objs w) (snd x) \<noteq> None" "\<forall>y \<in> set cs. snd y \<noteq> snd x"
    by (simp_all add: clients_hungry_def image_iff) metis
  then have same: "\<forall>y \<in> set cs. heap_get (client_objs w') (snd y) = heap_get (client_objs w) (snd y)"
    using assms(2) by (simp add: heap_get_put)
  then show "\<forall>y \<in> set cs. client_of w' y = client_of w y" by (simp add: client_of_def)
  with same assms(1) show "clients_hungry E pl cs w'" by (auto simp: clients_hungry_def)
qed

text \<open>The blocks \<open>Q x\<close> have been posted for each client \<open>x\<close>, as many as it was missing.\<close>

definition posted_for ::
    "(u32 \<times> ptr \<Rightarrow> ptr multiset) \<Rightarrow> (u32 \<times> ptr) set \<Rightarrow> 'a cworld_scheme \<Rightarrow> memory_pool \<Rightarrow> 'a cworld_scheme \<Rightarrow> memory_pool \<Rightarrow> bool" where
  "posted_for Q X w mp w' mp' \<longleftrightarrow> handed_out mp' = handed_out mp + (\<Sum>x\<in>X. Q x) \<and>
     (\<forall>x \<in> X. size (Q x) = missing (client_of w x)) \<and>
     traffic (trace w') = sent_all (\<lambda>x. cmId (client_of w x)) (\<lambda>x. image_mset of_nat (Q x)) X (traffic (trace w))"

lemma posted_for_insert:
  assumes "posted_for Q X w1 mp1 w2 mp2" and "finite X" and "x \<notin> X" and "\<forall>y \<in> X. client_of w1 y = client_of w y"
    and "handed_out mp1 = handed_out mp + P" and "size P = missing (client_of w x)"
    and "traffic (trace w1) = sent (cmId (client_of w x)) (image_mset of_nat P) (traffic (trace w))"
  shows "posted_for (Q(x := P)) (insert x X) w mp w2 mp2"
proof -
  have "(\<Sum>y\<in>X. (Q(x := P)) y) = (\<Sum>y\<in>X. Q y)" using assms(3) by (intro sum.cong refl) auto
  moreover have "sent_all (\<lambda>y. cmId (client_of w y)) (\<lambda>y. image_mset of_nat ((Q(x := P)) y)) X =
      sent_all (\<lambda>y. cmId (client_of w1 y)) (\<lambda>y. image_mset of_nat (Q y)) X"
    using assms(3,4) by (intro sent_all_cong) auto
  ultimately show ?thesis using assms by (auto simp: posted_for_def sent_all_simps ac_simps)
qed

lemma refill_clients_exact':
  assumes "clients_hungry E pl cs w" and "heap_get (pools w) pl = Some mp" and "mp_inv (mp, w)"
  shows "if (\<Sum>x\<leftarrow>cs. missing (client_of w x)) \<le> length (free_list (small mp))
    then \<exists>w' mp'. refill_clients E cs w = Some (Ok (), w') \<and>
      (\<forall>x \<in> set cs. heap_get (client_objs w') (snd x) \<noteq> None \<and> getNumReceives (client_of w' x) = 32 \<and>
        conn_core (client_of w' x) = conn_core (client_of w x) \<and> hungry E pl (client_of w' x) \<and>
        missing (client_of w' x) = 0) \<and> frame_kept w w' \<and>
      (\<forall>p. p \<notin> snd ` set cs \<longrightarrow> heap_get (client_objs w') p = heap_get (client_objs w) p) \<and>
      heap_get (pools w') pl = Some mp' \<and> mp_inv (mp', w') \<and>
      length (free_list (small mp')) + (\<Sum>x\<leftarrow>cs. missing (client_of w x)) = length (free_list (small mp)) \<and>
      (\<exists>Q. posted_for Q (set cs) w mp w' mp')
    else refill_clients E cs w = None"
  using assms
proof (induction cs arbitrary: w mp)
  case Nil
  then show ?case by (simp add: posted_for_def sent_all_simps)
next
  case (Cons x cs)
  from Cons.prems(1) obtain c where c: "heap_get (client_objs w) (snd x) = Some c" "hungry E pl c"
    and cx: "client_of w x = c" by (auto simp: clients_hungry_def client_of_def)
  show ?case
  proof (cases "missing c \<le> length (free_list (small mp))")
    case False
    from refill_one_blocks [OF c Cons.prems(2,3)] False have "refill_clients E (x # cs) w = None" by simp
    with False cx show ?thesis by simp
  next
    case True
    from refill_one [OF c Cons.prems(2,3) True] obtain w1 c1 mp1 P where
      run: "on_client (snd x) (refill_preposts E (client_postRecv E) RDMA_MAX_PREPOSTS) w = Some (Ok (), w1)"
      and objs: "client_objs w1 = heap_put (snd x) c1 (client_objs w)" and n: "getNumReceives c1 = 32"
      and core: "conn_core c1 = conn_core c" "hungry E pl c1" "missing c1 = 0" "frame_kept w w1"
      and mp1: "heap_get (pools w1) pl = Some mp1" "mp_inv (mp1, w1)"
        "length (free_list (small mp1)) + missing c = length (free_list (small mp))"
      and posted: "handed_out mp1 = handed_out mp + P" "size P = missing (client_of w x)"
        "traffic (trace w1) = sent (cmId (client_of w x)) (image_mset of_nat P) (traffic (trace w))"
      unfolding cx by blast
    note rest = clients_hungry_next [OF Cons.prems(1) objs]
    have sum: "(\<Sum>y\<leftarrow>cs. missing (client_of w1 y)) = (\<Sum>y\<leftarrow>cs. missing (client_of w y))"
      using rest(2) by (simp cong: map_cong)
    have step: "refill_clients E (x # cs) w = refill_clients E cs w1" using run by simp
    note IH = Cons.IH [OF rest(1) mp1(1,2), unfolded sum]
    show ?thesis
    proof (cases "(\<Sum>y\<leftarrow>cs. missing (client_of w y)) \<le> length (free_list (small mp1))")
      case False
      with IH step mp1(3) cx show ?thesis by simp
    next
      case le: True
      with IH obtain w2 mp2 Q where
        r: "refill_clients E cs w1 = Some (Ok (), w2)"
        "\<forall>y \<in> set cs. heap_get (client_objs w2) (snd y) \<noteq> None \<and> getNumReceives (client_of w2 y) = 32 \<and>
           conn_core (client_of w2 y) = conn_core (client_of w1 y) \<and> hungry E pl (client_of w2 y) \<and>
           missing (client_of w2 y) = 0" "frame_kept w1 w2"
        "\<forall>p. p \<notin> snd ` set cs \<longrightarrow> heap_get (client_objs w2) p = heap_get (client_objs w1) p"
        "heap_get (pools w2) pl = Some mp2" "mp_inv (mp2, w2)"
        "length (free_list (small mp2)) + (\<Sum>y\<leftarrow>cs. missing (client_of w y)) = length (free_list (small mp1))"
        "posted_for Q (set cs) w1 mp1 w2 mp2"
        by auto
      have get1: "heap_get (client_objs w1) p = (if p = snd x then Some c1 else heap_get (client_objs w) p)" for p
        using objs c(1) by (simp add: heap_get_put)
      have nin: "snd x \<notin> snd ` set cs" using Cons.prems(1) by (auto simp: clients_hungry_def)
      then have "x \<notin> set cs" by force
      from posted_for_insert [OF r(8) _ this rest(2) posted] have pf: "posted_for (Q(x := P)) (set (x # cs)) w mp w2 mp2" by simp
      from nin have "heap_get (client_objs w2) (snd x) = Some c1" using r(4) get1 by simp
      then have "heap_get (client_objs w2) (snd x) \<noteq> None \<and> getNumReceives (client_of w2 x) = 32 \<and>
          conn_core (client_of w2 x) = conn_core (client_of w x) \<and> hungry E pl (client_of w2 x) \<and>
          missing (client_of w2 x) = 0"
        using n core(1-3) cx by (simp add: client_of_def)
      with r rest(2) frame_kept_trans [OF core(4) r(3)] get1 step mp1(3) cx le pf show ?thesis by auto
    qed
  qed
qed

text \<open>C16: Refilling the receives of all clients returns exactly when the shared pool has a free
  small block for every missing receive; otherwise the controller asks the pool forever.
  When it returns, every client has its 32 receives and the pool is consistent and has lost
  exactly that many blocks.\<close>

theorem refill_receives_exact:
  assumes "clients_hungry E pl (clients k) w" and "heap_get (pools w) pl = Some mp" and "mp_inv (mp, w)"
  shows "if (\<Sum>x\<leftarrow>clients k. missing (client_of w x)) \<le> length (free_list (small mp))
    then \<exists>w' mp'. refill_client_receives E (k, w) = Some (Ok (), (k, w')) \<and>
      (\<forall>x \<in> set (clients k). getNumReceives (client_of w' x) = 32) \<and>
      heap_get (pools w') pl = Some mp' \<and> mp_inv (mp', w') \<and>
      length (free_list (small mp')) + (\<Sum>x\<leftarrow>clients k. missing (client_of w x)) = length (free_list (small mp))
    else refill_client_receives E (k, w) = None"
proof (cases "(\<Sum>x\<leftarrow>clients k. missing (client_of w x)) \<le> length (free_list (small mp))")
  case True
  with refill_clients_exact' [OF assms] obtain w' mp' where
    "refill_clients E (clients k) w = Some (Ok (), w')"
    "\<forall>x \<in> set (clients k). getNumReceives (client_of w' x) = 32"
    "heap_get (pools w') pl = Some mp'" "mp_inv (mp', w')"
    "length (free_list (small mp')) + (\<Sum>x\<leftarrow>clients k. missing (client_of w x)) = length (free_list (small mp))"
    by auto
  with True show ?thesis by (auto simp: refill_client_receives_def)
next
  case False
  with refill_clients_exact' [OF assms] show ?thesis by (simp add: refill_client_receives_def)
qed

text \<open>Three new clients on a new pool: 96 receives are missing, 64 blocks are there.\<close>

definition three_clients :: "cworld" where
  "three_clients = init_cworld\<lparr>regions := regions (snd fresh_pool), pools := [Some (fst fresh_pool)],
     client_objs := replicate 3 (Some (blank_client\<lparr>memoryPool := 1\<rparr>))\<rparr>"

definition ctl_3 :: "cworld controller" where
  "ctl_3 = (RdmaController ''mlx4'' ''ib0'' 7910)\<lparr>clients := [(17, 1), (18, 2), (19, 3)], ctl_pool := 1\<rparr>"

theorem refill_receives_exact_witness:
  "refill_client_receives env_ok (ctl_3, three_clients) = None"
proof -
  obtain mp w where f: "fresh_pool = (mp, w)" "mp_inv (mp, w)"
    "\<forall>c. length (free_list (container c mp)) = count_of c" by (rule fresh_pool_facts)
  have "heap_get (client_objs three_clients) p = Some (blank_client\<lparr>memoryPool := 1\<rparr>)"
    if "p \<in> {1, 2, 3}" for p
    using that by (auto simp: three_clients_def heap_get_def)
  then have objs: "client_of three_clients (q, p) = blank_client\<lparr>memoryPool := 1\<rparr>"
    "heap_get (client_objs three_clients) p \<noteq> None" if "p \<in> {1, 2, 3}" for q p
    using that by (auto simp: client_of_def)
  have "hungry env_ok 1 (blank_client\<lparr>memoryPool := 1\<rparr>)"
    by (simp add: hungry_def ready_conn_def) (simp add: blank_client_def)
  then have "clients_hungry env_ok 1 (clients ctl_3) three_clients"
    using objs by (simp add: clients_hungry_def ctl_3_def)
  moreover have "heap_get (pools three_clients) 1 = Some mp"
    by (simp add: three_clients_def f(1) heap_get_def)
  moreover have "regions w = regions three_clients" by (simp add: three_clients_def f(1))
  then have "mp_inv (mp, three_clients)" using f(2) mp_inv_cong by metis
  moreover have "(\<Sum>x\<leftarrow>clients ctl_3. missing (client_of three_clients x)) = 96"
    using objs by (simp add: ctl_3_def missing_def) (simp add: blank_client_def)
  moreover have "length (free_list (small mp)) = 64" using f(3) [rule_format, of Small] by simp
  ultimately show ?thesis
    using refill_receives_exact [of env_ok 1 ctl_3 three_clients mp] by simp
qed

section \<open>Removing the connections a server has initiated\<close>

definition clients_live :: "(u32 \<times> ptr) list \<Rightarrow> 'a cworld_scheme \<Rightarrow> bool" where
  "clients_live cs w \<longleftrightarrow> (\<forall>x \<in> set cs. heap_get (client_objs w) (snd x) \<noteq> None)"

lemma on_client_get:
  "heap_get (client_objs w) (snd x) \<noteq> None \<Longrightarrow>
   on_client (snd x) this_get (w :: 'a cworld_scheme) = Some (Ok (client_of w x), w)"
  by (cases w) (auto simp: on_heap_run client_of_def)

lemma count_initiated_run:
  "clients_live cs w \<Longrightarrow> count_initiated cs w =
     Some (Ok (length (filter (\<lambda>x. initiated_connection (client_of w x)) cs)), w)"
  by (induction cs) (auto simp: clients_live_def on_client_get)

text \<open>The inner loop gives no answer while its client is not an initiated one.\<close>

lemma inner_answers:
  assumes "removeFirstInitiated E U c s = Some y"
  shows "\<forall>x. c = Some x \<longrightarrow> heap_get (client_objs (snd s)) (snd x) \<noteq> None \<longrightarrow>
    initiated_connection (client_of (snd s) x)"
proof (rule removeFirstInitiated.raw_induct [where P = "\<lambda>E U c s y. \<forall>x. c = Some x \<longrightarrow>
      heap_get (client_objs (snd s)) (snd x) \<noteq> None \<longrightarrow> initiated_connection (client_of (snd s) x)",
      OF _ assms], goal_cases)
  case (1 rec E U c s y)
  show ?case
  proof (intro allI impI)
    fix x
    assume x: "c = Some x" "heap_get (client_objs (snd s)) (snd x) \<noteq> None"
    then have "on_world (on_client (snd x) this_get) s = Some (Ok (client_of (snd s) x), s)"
      using on_client_get [OF x(2)] by (cases s) simp
    with 1(2) x(1) have "initiated_connection (client_of (snd s) x) \<or> rec E U c s = Some y"
      by (auto simp: bindM_run split: if_splits)
    with 1(1) x show "initiated_connection (client_of (snd s) x)" by blast
  qed
qed

lemma inner_removes:
  assumes "heap_get (client_objs w) (snd x) \<noteq> None" and "initiated_connection (client_of w x)"
  shows "removeFirstInitiated E U (Some x) (k, w) = removeServerToServerConnection E U (snd x) (k, w)"
  using on_client_get [OF assms(1)] assms(2) by (subst removeFirstInitiated.simps) simp

lemma bindM_start: "m s = m' s \<Longrightarrow> bindM m f s = bindM m' f s"
  by (simp add: bindM_run)

text \<open>C30: Removing all the connections the server has initiated, with a client in the map and no null client: it
  returns at once, with nothing changed, when there is none; it removes the first client of the
  map and starts again when that is an initiated one; and it never returns when there is one but
  the first client of the map is another, since the inner loop looks at that client forever.\<close>

theorem remove_initiated_spins:
  assumes "clients_live (clients k) w" and "clients k = x # cs"
  shows "removeAllInitiatedConnections E U (k, w) =
    (if \<not> (\<exists>y \<in> set (clients k). initiated_connection (client_of w y)) then Some (Ok (), (k, w))
     else if initiated_connection (client_of w x)
     then bindM (removeServerToServerConnection E U (snd x)) (\<lambda>_. removeAllInitiatedConnections E U) (k, w)
     else None)"
proof -
  let ?n = "length (filter (\<lambda>y. initiated_connection (client_of w y)) (clients k))"
  let ?inner = "removeFirstInitiated E U (Some x)"
  have count: "bindM this_get (\<lambda>k. on_world (count_initiated (clients k))) (k, w) = Some (Ok ?n, (k, w))"
    using count_initiated_run [OF assms(1)] by simp
  have step: "bindM (bindM this_get (\<lambda>k. on_world (count_initiated (clients k)))) f (k, w) = f ?n (k, w)" for f
    by (rule bindM_Ok) (rule count)
  have live: "heap_get (client_objs w) (snd x) \<noteq> None" using assms by (simp add: clients_live_def)
  let ?first = "\<lambda>k. removeFirstInitiated E U (case clients k of [] \<Rightarrow> None | c # _ \<Rightarrow> Some c)"
  have first: "bindM this_get ?first (k, w) = ?inner (k, w)" using assms(2) by simp
  have "removeAllInitiatedConnections E U (k, w) =
      (if 0 < ?n then bindM (bindM this_get ?first) (\<lambda>_. removeAllInitiatedConnections E U) (k, w) else Some (Ok (), (k, w)))"
    by (subst removeAllInitiatedConnections.simps) (simp only: step returnM_run)
  also have "bindM (bindM this_get ?first) (\<lambda>_. removeAllInitiatedConnections E U) (k, w) =
      bindM ?inner (\<lambda>_. removeAllInitiatedConnections E U) (k, w)" by (rule bindM_start) (rule first)
  finally have "removeAllInitiatedConnections E U (k, w) =
      (if 0 < ?n then bindM ?inner (\<lambda>_. removeAllInitiatedConnections E U) (k, w) else Some (Ok (), (k, w)))" .
  moreover have "0 < ?n \<longleftrightarrow> (\<exists>y \<in> set (clients k). initiated_connection (client_of w y))"
    by (auto simp: filter_empty_conv)
  moreover have "?inner (k, w) = None" if "\<not> initiated_connection (client_of w x)"
    using inner_answers [of E U "Some x" "(k, w)"] that live by (cases "?inner (k, w)") auto
  ultimately show ?thesis using inner_removes [OF live, of E U k] by (simp add: bindM_run)
qed

text \<open>One client that connected to this server, and one the server has made.\<close>

definition two_clients :: cworld where
  "two_clients = init_cworld\<lparr>client_objs := [Some blank_client, Some (blank_client\<lparr>initiated_connection := True\<rparr>)]\<rparr>"

theorem remove_initiated_spins_witness:
  "\<forall>U. removeAllInitiatedConnections env_ok U (ctl_3\<lparr>clients := [(17, 1), (18, 2)]\<rparr>, two_clients) = None"
proof -
  have c: "heap_get (client_objs two_clients) 1 = Some blank_client"
    "heap_get (client_objs two_clients) 2 = Some (blank_client\<lparr>initiated_connection := True\<rparr>)"
    by (simp_all add: two_clients_def heap_get_def)
  then have "clients_live [(17, 1), (18, 2)] two_clients" by (simp add: clients_live_def)
  moreover have "\<not> initiated_connection (client_of two_clients (17, 1))"
    "initiated_connection (client_of two_clients (18, 2))"
    using c by (simp_all add: client_of_def blank_client_def)
  ultimately show ?thesis
    using remove_initiated_spins [of "ctl_3\<lparr>clients := [(17, 1), (18, 2)]\<rparr>" two_clients "(17, 1)" "[(18, 2)]" env_ok]
    by simp
qed

section \<open>Handing over the completions\<close>

text \<open>
  The queues of the device while nothing new arrives: \<open>avail t q\<close> are the completions that
  the queue \<open>q\<close> still has after the calls \<open>t\<close>.  A poll for one takes the oldest.
\<close>

definition device_queues :: "env \<Rightarrow> (trace \<Rightarrow> u64 \<Rightarrow> ibv_wc list) \<Rightarrow> bool" where
  "device_queues E avail \<longleftrightarrow> (\<forall>t q q'.
     wcs_of E t (CQ (Ibv_poll_cq q 1)) = Inr (take 1 (avail t q)) \<and>
     avail ((CQ (Ibv_poll_cq q 1), R_wcs (Inr (take 1 (avail t q)))) # t) q' =
       (if q' = q then drop 1 (avail t q) else avail t q'))"

lemma device_poll:
  assumes "device_queues E avail" and "avail t q = wcs"
  shows "avail ((CQ (Ibv_poll_cq q 1), R_wcs (Inr (take 1 wcs))) # t) q' = (if q' = q then drop 1 wcs else avail t q')"
  using assms by (auto simp: device_queues_def)

text \<open>
  A completion function that records what it is given in the part \<open>seen\<close> of the world, always
  returns, and leaves clients and completion queues alone.
\<close>

definition recorder ::
    "(trace \<Rightarrow> u64 \<Rightarrow> ibv_wc list) \<Rightarrow> ('a \<Rightarrow> (ibv_wc \<times> ptr) list) \<Rightarrow> (ibv_wc \<Rightarrow> ptr \<Rightarrow> ('a cworld_scheme, int) M) \<Rightarrow> bool" where
  "recorder avail seen f \<longleftrightarrow> (\<forall>wc p w. \<exists>n w'. f wc p w = Some (Ok n, w') \<and>
     seen (cworld.more w') = seen (cworld.more w) @ [(wc, p)] \<and> client_objs w' = client_objs w \<and>
     cqs w' = cqs w \<and> (\<forall>q. avail (trace w') q = avail (trace w) q))"

text \<open>The completions that are waiting for a client.\<close>

definition cq_handle :: "'a cworld_scheme \<Rightarrow> u32 \<times> ptr \<Rightarrow> u64" where
  "cq_handle w x = completionQ (the (heap_get (cqs w) (client_completionQ (client_of w x))))"

definition clients_with_cq :: "(u32 \<times> ptr) list \<Rightarrow> 'a cworld_scheme \<Rightarrow> bool" where
  "clients_with_cq cs w \<longleftrightarrow> clients_live cs w \<and> distinct (map (cq_handle w) cs) \<and>
     (\<forall>x \<in> set cs. heap_get (cqs w) (client_completionQ (client_of w x)) \<noteq> None)"

lemma poll_none:
  assumes "device_queues E avail" and "heap_get (cqs w) q = Some cq" and "avail (trace w) (completionQ cq) = []"
  shows "on_cq q (poll_completion E) w =
    Some (Ok (0, None), w\<lparr>trace := (CQ (Ibv_poll_cq (completionQ cq) 1), R_wcs (Inr [])) # trace w\<rparr>)"
  using assms by (simp add: on_heap_run poll_completion_def run_simps device_queues_def)

lemma poll_some:
  assumes "device_queues E avail" and "heap_get (cqs w) q = Some cq"
    and "avail (trace w) (completionQ cq) = wc # wcs" and "wc_status wc = IBV_WC_SUCCESS"
  shows "on_cq q (poll_completion E) w =
    Some (Ok (1, Some wc), w\<lparr>trace := (CQ (Ibv_poll_cq (completionQ cq) 1), R_wcs (Inr [wc])) # trace w\<rparr>)"
  using assms by (simp add: on_heap_run poll_completion_def run_simps device_queues_def)

text \<open>The loop over one queue takes everything, in order, and returns.\<close>

lemma drain_queue_all:
  fixes w :: "'a cworld_scheme"
  assumes "device_queues E avail" and "recorder avail seen f"
    and "heap_get (cqs w) q = Some cq" and "\<forall>wc \<in> set (avail (trace w) (completionQ cq)). wc_status wc = IBV_WC_SUCCESS"
  shows "\<exists>w'. drain_queue E (Some f) p q n w = Some (Ok (n + int (length (avail (trace w) (completionQ cq)))), w') \<and>
    seen (cworld.more w') = seen (cworld.more w) @ map (\<lambda>wc. (wc, p)) (avail (trace w) (completionQ cq)) \<and>
    client_objs w' = client_objs w \<and> cqs w' = cqs w \<and>
    (\<forall>c. avail (trace w') c = (if c = completionQ cq then [] else avail (trace w) c))"
  using assms(3,4)
proof (induction "avail (trace w) (completionQ cq)" arbitrary: w n)
  case Nil
  let ?w = "w\<lparr>trace := (CQ (Ibv_poll_cq (completionQ cq) 1), R_wcs (Inr [])) # trace w\<rparr>"
  from poll_none [OF assms(1) Nil.prems(1) Nil.hyps [symmetric]]
  have run: "drain_queue E (Some f) p q n w = Some (Ok n, ?w)" by (subst drain_queue.simps) simp
  have "avail (trace ?w) c = (if c = completionQ cq then [] else avail (trace w) c)" for c
    using device_poll [OF assms(1) Nil.hyps [symmetric]] by simp
  with run Nil.hyps [symmetric] show ?case by (intro exI [of _ ?w]) simp
next
  case (Cons wc wcs)
  let ?q = "completionQ cq"
  note all = Cons.hyps(2) [symmetric]
  let ?w1 = "w\<lparr>trace := (CQ (Ibv_poll_cq ?q 1), R_wcs (Inr [wc])) # trace w\<rparr>"
  have st: "wc_status wc = IBV_WC_SUCCESS" using Cons.prems(2) all by simp
  have a1: "avail (trace ?w1) c = (if c = ?q then wcs else avail (trace w) c)" for c
    using device_poll [OF assms(1) all] by simp
  from assms(2) obtain m w2 where f: "f wc p ?w1 = Some (Ok m, w2)"
    "seen (cworld.more w2) = seen (cworld.more ?w1) @ [(wc, p)]" "client_objs w2 = client_objs ?w1"
    "cqs w2 = cqs ?w1" "\<forall>c. avail (trace w2) c = avail (trace ?w1) c"
    unfolding recorder_def by blast
  have a2: "avail (trace w2) c = (if c = ?q then wcs else avail (trace w) c)" for c using f(5) a1 by simp
  have "heap_get (cqs w2) q = Some cq" using f(4) Cons.prems(1) by simp
  moreover have "\<forall>wc \<in> set (avail (trace w2) ?q). wc_status wc = IBV_WC_SUCCESS"
    using a2 [of ?q] Cons.prems(2) all by simp
  ultimately obtain w' where IH: "drain_queue E (Some f) p q (n + 1) w2 = Some (Ok (n + 1 + int (length wcs)), w')"
    "seen (cworld.more w') = seen (cworld.more w2) @ map (\<lambda>wc. (wc, p)) wcs"
    "client_objs w' = client_objs w2" "cqs w' = cqs w2"
    "\<forall>c. avail (trace w') c = (if c = ?q then [] else avail (trace w2) c)"
    using Cons.hyps(1) [of w2 "n + 1"] a2 by auto
  have "drain_queue E (Some f) p q n w = drain_queue E (Some f) p q (n + 1) w2"
    using poll_some [OF assms(1) Cons.prems(1) all st] st f(1) by (subst drain_queue.simps) simp
  with IH f(2-4) a2 all show ?case by (intro exI [of _ w']) simp
qed

definition waiting :: "(trace \<Rightarrow> u64 \<Rightarrow> ibv_wc list) \<Rightarrow> 'a cworld_scheme \<Rightarrow> u32 \<times> ptr \<Rightarrow> (ibv_wc \<times> ptr) list" where
  "waiting avail w x = map (\<lambda>wc. (wc, snd x)) (avail (trace w) (cq_handle w x))"

definition all_good :: "(ibv_wc \<times> ptr) list \<Rightarrow> bool" where
  "all_good ds \<longleftrightarrow> (\<forall>d \<in> set ds. wc_status (fst d) = IBV_WC_SUCCESS)"

lemma poll_clients_all:
  fixes w :: "'a cworld_scheme"
  assumes "device_queues E avail" and "recorder avail seen f"
    and "clients_with_cq cs w" and "\<forall>x \<in> set cs. all_good (waiting avail w x)"
  shows "\<exists>w'. poll_clients E (Some f) cs n w = Some (Ok (n + int (length (concat (map (waiting avail w) cs)))), w') \<and>
    seen (cworld.more w') = seen (cworld.more w) @ concat (map (waiting avail w) cs) \<and>
    client_objs w' = client_objs w \<and> cqs w' = cqs w \<and>
    (\<forall>c. avail (trace w') c = (if c \<in> cq_handle w ` set cs then [] else avail (trace w) c))"
  using assms(3,4)
proof (induction cs arbitrary: w n)
  case Nil
  then show ?case by simp
next
  case (Cons x cs)
  let ?c = "client_of w x"
  from Cons.prems(1) obtain cq where cq: "heap_get (cqs w) (client_completionQ ?c) = Some cq"
    and live: "heap_get (client_objs w) (snd x) \<noteq> None" and rest: "clients_with_cq cs w"
    and new: "\<forall>y \<in> set cs. cq_handle w x \<noteq> cq_handle w y"
    by (auto simp: clients_with_cq_def clients_live_def image_iff)
  have h: "completionQ cq = cq_handle w x" using cq by (simp add: cq_handle_def)
  have "\<forall>wc \<in> set (avail (trace w) (completionQ cq)). wc_status wc = IBV_WC_SUCCESS"
    using Cons.prems(2) h by (simp add: all_good_def waiting_def)
  from drain_queue_all [OF assms(1,2) cq this, of "snd x" n] h obtain w1 where
    d: "drain_queue E (Some f) (snd x) (client_completionQ ?c) n w = Some (Ok (n + int (length (waiting avail w x))), w1)"
      "seen (cworld.more w1) = seen (cworld.more w) @ waiting avail w x"
      "client_objs w1 = client_objs w" "cqs w1 = cqs w"
      "\<forall>c. avail (trace w1) c = (if c = cq_handle w x then [] else avail (trace w) c)"
    by (auto simp: waiting_def)
  have same: "client_of w1 = client_of w" "cq_handle w1 = cq_handle w"
    using d(3,4) by (simp_all add: client_of_def cq_handle_def fun_eq_iff)
  then have wait: "\<forall>y \<in> set cs. waiting avail w1 y = waiting avail w y"
    using d(5) new by (auto simp: waiting_def)
  then have ds: "map (waiting avail w1) cs = map (waiting avail w) cs" by simp
  have "clients_with_cq cs w1"
    using rest same d(3,4) by (simp add: clients_with_cq_def clients_live_def)
  moreover have "\<forall>y \<in> set cs. all_good (waiting avail w1 y)" using wait Cons.prems(2) by simp
  ultimately obtain w2 where IH:
    "poll_clients E (Some f) cs (n + int (length (waiting avail w x))) w1 =
       Some (Ok (n + int (length (waiting avail w x)) + int (length (concat (map (waiting avail w) cs)))), w2)"
    "seen (cworld.more w2) = seen (cworld.more w1) @ concat (map (waiting avail w) cs)"
    "client_objs w2 = client_objs w1" "cqs w2 = cqs w1"
    "\<forall>c. avail (trace w2) c = (if c \<in> cq_handle w1 ` set cs then [] else avail (trace w1) c)"
    using Cons.IH [of w1 "n + int (length (waiting avail w x))", unfolded ds] by blast
  have "poll_clients E (Some f) (x # cs) n w = poll_clients E (Some f) cs (n + int (length (waiting avail w x))) w1"
    using on_client_get [OF live] d(1) by simp
  moreover have "avail (trace w2) c = (if c \<in> cq_handle w ` set (x # cs) then [] else avail (trace w) c)" for c
    using IH(5) d(5) same(2) by simp
  ultimately show ?case using IH(1-4) d(2-4) by (intro exI [of _ w2]) simp
qed

text \<open>C11: With what is in the device's queues and no error among it, one poll of the controller
  returns; it has handed every waiting completion to the completion function, client by
  client in the order of the map and oldest first, each exactly once and with its client;
  it returns their number and leaves all queues of the clients empty.\<close>

theorem poll_delivers:
  fixes w :: "'a cworld_scheme"
  assumes "device_queues E avail" and "recorder avail seen f" and "completionFunction k = Some f"
    and "clients_with_cq (clients k) w" and "\<forall>x \<in> set (clients k). all_good (waiting avail w x)"
  shows "\<exists>w'. pollCompletionQueues E (k, w) =
      Some (Ok (int (length (concat (map (waiting avail w) (clients k))))), (k, w')) \<and>
    seen (cworld.more w') = seen (cworld.more w) @ concat (map (waiting avail w) (clients k)) \<and>
    (\<forall>x \<in> set (clients k). avail (trace w') (cq_handle w x) = [])"
proof -
  from poll_clients_all [OF assms(1,2,4,5), of 0] obtain w' where
    "poll_clients E (Some f) (clients k) 0 w = Some (Ok (int (length (concat (map (waiting avail w) (clients k))))), w')"
    "seen (cworld.more w') = seen (cworld.more w) @ concat (map (waiting avail w) (clients k))"
    "\<forall>c. avail (trace w') c = (if c \<in> cq_handle w ` set (clients k) then [] else avail (trace w) c)" by auto
  then show ?thesis using assms(3)
    by (intro exI [of _ w']) (simp add: pollCompletionQueues_def)
qed

text \<open>A device where every queue starts with two completions, and a client per queue.\<close>

definition polls :: "trace \<Rightarrow> u64 \<Rightarrow> nat" where
  "polls t q = length (filter (\<lambda>x. fst x = CQ (Ibv_poll_cq q 1)) t)"

definition two_each :: "trace \<Rightarrow> u64 \<Rightarrow> ibv_wc list" where
  "two_each t q = drop (polls t q) [zero_wc\<lparr>wc_wr_id := q\<rparr>, zero_wc\<lparr>wc_wr_id := q + 1\<rparr>]"

definition env_two :: env where
  "env_two = env_ok\<lparr>wcs_of := (\<lambda>t c. case c of CQ (Ibv_poll_cq q n) \<Rightarrow> Inr (take 1 (two_each t q)) | _ \<Rightarrow> Inr [])\<rparr>"


definition record_wc :: "ibv_wc \<Rightarrow> ptr \<Rightarrow> ((ibv_wc \<times> ptr) list cworld_scheme, int) M" where
  "record_wc wc p = thenM (modifyM (cworld.more_update (\<lambda>m. m @ [(wc, p)]))) (returnM 0)"

definition clients_17_18 :: "(ibv_wc \<times> ptr) list cworld_scheme" where
  "clients_17_18 = cworld.extend (init_cworld\<lparr>cqs := [Some ((blank_cq 5)\<lparr>completionQ := 30\<rparr>), Some ((blank_cq 5)\<lparr>completionQ := 40\<rparr>)],
     client_objs := [Some (blank_client\<lparr>client_completionQ := 1\<rparr>), Some (blank_client\<lparr>client_completionQ := 2\<rparr>)]\<rparr>) []"

lemma env_two_queues: "device_queues env_two two_each"
  by (simp add: device_queues_def env_two_def two_each_def polls_def drop_Suc drop_tl tl_drop [symmetric])

lemma record_wc_recorder: "recorder two_each (\<lambda>m. m) record_wc"
  by (simp add: recorder_def record_wc_def)

lemma clients_17_18_handles:
  "heap_get (client_objs clients_17_18) 1 \<noteq> None" "heap_get (client_objs clients_17_18) 2 \<noteq> None"
  "heap_get (cqs clients_17_18) (client_completionQ (client_of clients_17_18 (q, 1))) \<noteq> None"
  "heap_get (cqs clients_17_18) (client_completionQ (client_of clients_17_18 (q, 2))) \<noteq> None"
  "cq_handle clients_17_18 (q, 1) = 30" "cq_handle clients_17_18 (q, 2) = 40"
  "trace clients_17_18 = []" "cworld.more clients_17_18 = []"
  by (simp_all add: clients_17_18_def cworld.defs heap_get_def client_of_def cq_handle_def)

theorem poll_delivers_witness:
  "\<exists>w'. pollCompletionQueues env_two ((RdmaController ''mlx4'' ''ib0'' 7910)\<lparr>completionFunction := Some record_wc,
       clients := [(17, 1), (18, 2)]\<rparr>, clients_17_18) =
     Some (Ok 4, ((RdmaController ''mlx4'' ''ib0'' 7910)\<lparr>completionFunction := Some record_wc,
       clients := [(17, 1), (18, 2)]\<rparr>, w')) \<and>
     map (\<lambda>(wc, p). (wc_wr_id wc, p)) (cworld.more w') = [(30, 1), (31, 1), (40, 2), (41, 2)]"
proof -
  let ?k = "(RdmaController ''mlx4'' ''ib0'' 7910)\<lparr>completionFunction := Some record_wc, clients := [(17, 1), (18, 2)]\<rparr>"
  let ?w = clients_17_18
  note h = clients_17_18_handles
  have "clients_with_cq [(17, 1), (18, 2)] ?w"
    using h by (simp add: clients_with_cq_def clients_live_def)
  moreover have w: "waiting two_each ?w (q, 1) = [(zero_wc\<lparr>wc_wr_id := 30\<rparr>, 1), (zero_wc\<lparr>wc_wr_id := 31\<rparr>, 1)]"
    "waiting two_each ?w (q, 2) = [(zero_wc\<lparr>wc_wr_id := 40\<rparr>, 2), (zero_wc\<lparr>wc_wr_id := 41\<rparr>, 2)]" for q
    using h by (simp_all add: waiting_def two_each_def polls_def)
  moreover have "\<forall>x \<in> set [(17, 1), (18, 2)]. all_good (waiting two_each ?w x)"
    using w by (simp add: all_good_def zero_wc_def IBV_WC_SUCCESS_def)
  ultimately obtain w' where "pollCompletionQueues env_two (?k, ?w) = Some (Ok 4, (?k, w'))"
    "cworld.more w' = concat (map (waiting two_each ?w) [(17, 1), (18, 2)])"
    using poll_delivers [OF env_two_queues record_wc_recorder, of ?k ?w] h(8) by auto
  then show ?thesis using w by (intro exI [of _ w']) simp
qed

end
