(* ===== verification/ClientEvents.thy ===== *)
theory ClientEvents
  imports EventLoop
begin

text \<open>
  What the connection events do to the clients: how a client ends and in which order its
  resources are given back, what a disconnect leaves, and the paths on which a request is
  refused or lost.
\<close>

section \<open>The end of a client\<close>

definition mem_calls :: "trace \<Rightarrow> bool" where
  "mem_calls t \<longleftrightarrow> (\<forall>x \<in> set t. \<exists>m. fst x = Mem m)"

text \<open>The calls of \<open>~RdmaConnection\<close>: nothing of events.\<close>

definition end_calls :: "trace \<Rightarrow> bool" where
  "end_calls t \<longleftrightarrow> (\<forall>x \<in> set t. \<exists>i. fst x = CM (Rdma_destroy_qp i) \<or> fst x = CM (Rdma_destroy_id i) \<or>
     fst x = CM (Rdma_destroy_event_channel i))"

lemma mem_calls_simps [simp]: "mem_calls []" "mem_calls (x # t) \<longleftrightarrow> (\<exists>m. fst x = Mem m) \<and> mem_calls t"
    "mem_calls (s @ t) \<longleftrightarrow> mem_calls s \<and> mem_calls t"
  by (auto simp: mem_calls_def)

lemma mem_calls_unacked: "mem_calls t \<Longrightarrow> cm_unacked (t @ u) = cm_unacked u"
  by (induction t) auto

lemma mem_calls_tally: "mem_calls t \<Longrightarrow> cm_tally (t @ u) = cm_tally u"
proof (induction t)
  case (Cons x t)
  then show ?case by (cases x) auto
qed simp

lemma mem_calls_traffic: "mem_calls t \<Longrightarrow> traffic (t @ u) = traffic u"
proof (induction t)
  case (Cons x t)
  then show ?case by (cases x) auto
qed simp

lemma end_calls_unacked: "end_calls t \<Longrightarrow> cm_unacked (t @ u) = cm_unacked u"
proof (induction t)
  case (Cons x t)
  then show ?case by (cases x) (auto simp: end_calls_def)
qed simp

text \<open>The parts of the world that the operations of regions leave alone.\<close>

lemma more_fields:
  assumes "mworld.more w' = mworld.more (w :: 'a cworld_scheme)"
  shows "cqs w' = cqs w" "pools w' = pools w" "srqs w' = srqs w" "client_objs w' = client_objs w"
    "uses w' = uses w" "cworld.more w' = cworld.more w"
  using assms by (cases w; cases w'; simp)+

lemma release_calls:
  assumes "release E (r, w) = Some (Ok n, (r', w'))"
  shows "\<exists>t. trace w' = t @ trace w \<and> mem_calls t"
  using assms
  by (auto simp: release_def run_simps getAddress_def getLength_def getLocalKey_def through_region_def
      split: option.splits if_splits)

lemma delete_region_calls:
  assumes "delete_region E p w = Some (Ok (), w')"
  shows "mworld.more w' = mworld.more w \<and> (\<exists>t. trace w' = t @ trace w \<and> mem_calls t)"
proof -
  from assms obtain n w1 where r: "on_region p (release E) w = Some (Ok n, w1)"
    and w': "w' = w1\<lparr>regions := heap_free p (regions w1)\<rparr>"
    by (auto simp: delete_region_def elim: bindM_OkE)
  from r obtain ob where ob: "heap_get (regions w) p = Some ob"
    by (auto simp: on_heap_def split: if_splits option.splits)
  with r have "\<exists>ob' w2. release E (ob, w) = Some (Ok n, (ob', w2)) \<and>
      w1 = w2\<lparr>regions := heap_put p ob' (regions w2)\<rparr>"
    by (auto simp: on_heap_run split: option.splits)
  then obtain ob' w2 where rel: "release E (ob, w) = Some (Ok n, (ob', w2))"
    and w1: "w1 = w2\<lparr>regions := heap_put p ob' (regions w2)\<rparr>" by blast
  from release_frame [OF rel] have "mworld.more w2 = mworld.more w" by (cases w; cases w2) simp
  moreover from w1 w' have "mworld.more w' = mworld.more w2" "trace w' = trace w2" by simp_all
  ultimately show ?thesis using release_calls [OF rel] by simp
qed

definition region_ptr_ok :: "'a mworld_scheme \<Rightarrow> ptr \<Rightarrow> bool" where
  "region_ptr_ok w p \<longleftrightarrow> p = 0 \<or> (\<exists>ob. heap_get (regions w) p = Some ob \<and> tidy ob)"

lemma drop_ptr_runs:
  assumes "fair_env E" and "region_ptr_ok w p"
  shows "\<exists>w' t. drop_ptr E p (c, w) = Some (Ok (), (c, w')) \<and> mworld.more w' = mworld.more w \<and>
    trace w' = t @ trace w \<and> mem_calls t \<and>
    (\<forall>q. heap_get (regions w') q = (if q = p then None else heap_get (regions w) q)) \<and>
    live_mrs (trace w') = live_mrs (trace w) - mrp w p \<and> live_maps (trace w') = live_maps (trace w) - fp w p"
proof (cases "p = 0")
  case True
  then show ?thesis by (intro exI [of _ w] exI [of _ "[]"]) (simp add: drop_ptr_def mrp_def fp_def)
next
  case False
  with assms(2) obtain ob where "heap_get (regions w) p = Some ob" "tidy ob"
    by (auto simp: region_ptr_ok_def)
  from delete_region_fair [OF assms(1) this] obtain w' where del: "delete_region E p w = Some (Ok (), w')"
    and "\<forall>q. heap_get (regions w') q = (if q = p then None else heap_get (regions w) q)"
      "live_mrs (trace w') = live_mrs (trace w) - mrp w p" "live_maps (trace w') = live_maps (trace w) - fp w p" by blast
  with delete_region_calls [OF del] False show ?thesis by (auto simp: drop_ptr_def)
qed

definition client_regions_ok :: "'a mworld_scheme \<Rightarrow> client \<Rightarrow> bool" where
  "client_regions_ok w c \<longleftrightarrow> region_ptr_ok w (inMessageRegion c) \<and> region_ptr_ok w (outMessageRegion c) \<and>
     (inMessageRegion c = outMessageRegion c \<longrightarrow> inMessageRegion c = 0)"

text \<open>The message regions of a client are gone, with their registrations and mappings.\<close>

definition regions_gone :: "'a mworld_scheme \<Rightarrow> client \<Rightarrow> 'a mworld_scheme \<Rightarrow> bool" where
  "regions_gone w c w' \<longleftrightarrow>
     (\<forall>q. heap_get (regions w') q =
        (if q = inMessageRegion c \<or> q = outMessageRegion c then None else heap_get (regions w) q)) \<and>
     live_mrs (trace w') = live_mrs (trace w) - mrp w (inMessageRegion c) - mrp w (outMessageRegion c) \<and>
     live_maps (trace w') = live_maps (trace w) - fp w (inMessageRegion c) - fp w (outMessageRegion c) \<and>
     cm_tally (trace w') = cm_tally (trace w)"

lemma regions_gone_cong:
  "regions_gone w c w1 \<Longrightarrow> regions w2 = regions w1 \<Longrightarrow> ledger (trace w2) = ledger (trace w1) \<Longrightarrow> regions_gone w c w2"
  by (simp add: regions_gone_def ledger_def)

lemma regions_gone_start:
  "regions w1 = regions w \<Longrightarrow> trace w1 = trace w \<Longrightarrow> regions_gone w1 c w' = regions_gone w c w'"
  by (simp add: regions_gone_def mrp_def fp_def)

lemma reset_regions_runs:
  assumes "fair_env E" and "client_regions_ok w c"
  shows "\<exists>w' t. reset_regions E (c, w) =
      Some (Ok (), (c\<lparr>inMessageRegion := 0, outMessageRegion := 0\<rparr>, w')) \<and>
    mworld.more w' = mworld.more w \<and> trace w' = t @ trace w \<and> mem_calls t \<and> regions_gone w c w'"
proof -
  let ?c1 = "c\<lparr>inMessageRegion := 0\<rparr>" and ?c2 = "c\<lparr>inMessageRegion := 0, outMessageRegion := 0\<rparr>"
  from assms(2) have i: "region_ptr_ok w (inMessageRegion c)" and o1: "region_ptr_ok w (outMessageRegion c)"
    and ne: "inMessageRegion c = outMessageRegion c \<longrightarrow> inMessageRegion c = 0"
    by (simp_all add: client_regions_ok_def)
  from drop_ptr_runs [OF assms(1) i, of ?c1] obtain w1 t1 where
    d1: "drop_ptr E (inMessageRegion c) (?c1, w) = Some (Ok (), (?c1, w1))" "mworld.more w1 = mworld.more w"
      "trace w1 = t1 @ trace w" "mem_calls t1"
      "\<forall>q. heap_get (regions w1) q = (if q = inMessageRegion c then None else heap_get (regions w) q)"
      "live_mrs (trace w1) = live_mrs (trace w) - mrp w (inMessageRegion c)"
      "live_maps (trace w1) = live_maps (trace w) - fp w (inMessageRegion c)" by blast
  have o: "region_ptr_ok w1 (outMessageRegion c)"
    using o1 ne d1(5) unfolding region_ptr_ok_def by (cases "outMessageRegion c = inMessageRegion c") auto
  from drop_ptr_runs [OF assms(1) o, of ?c2] obtain w2 t2 where
    d2: "drop_ptr E (outMessageRegion c) (?c2, w1) = Some (Ok (), (?c2, w2))" "mworld.more w2 = mworld.more w1"
      "trace w2 = t2 @ trace w1" "mem_calls t2"
      "\<forall>q. heap_get (regions w2) q = (if q = outMessageRegion c then None else heap_get (regions w1) q)"
      "live_mrs (trace w2) = live_mrs (trace w1) - mrp w1 (outMessageRegion c)"
      "live_maps (trace w2) = live_maps (trace w1) - fp w1 (outMessageRegion c)" by blast
  have "heap_get (regions w1) (outMessageRegion c) = heap_get (regions w) (outMessageRegion c)"
    using d1(5) ne by (cases "outMessageRegion c = inMessageRegion c") simp_all
  from region_cong [OF this] have "regions_gone w c w2"
    using d1 d2 by (auto simp: regions_gone_def mem_calls_tally)
  moreover have "reset_regions E (c, w) = Some (Ok (), (?c2, w2))"
    using d1(1) d2(1) by (simp add: reset_regions_def)
  ultimately show ?thesis using d1(2-4) d2(2-4) by (intro exI [of _ w2] exI [of _ "t2 @ t1"]) simp
qed

text \<open>What \<open>~RdmaConnection\<close> calls: the queue pair goes before the identifier.\<close>

definition end_trace :: "env \<Rightarrow> 'c connection_scheme \<Rightarrow> trace \<Rightarrow> trace" where
  "end_trace E c u =
     (let i = cmId c;
          q = (if i = 0 \<or> qp_of E u i = None then []
               else [(CM (Rdma_destroy_qp i), R_int (rc_of E u (CM (Rdma_destroy_qp i))))]);
          d = (if i = 0 then []
               else (CM (Rdma_destroy_id i), R_int (rc_of E (q @ u) (CM (Rdma_destroy_id i)))) # q);
          x = CM (Rdma_destroy_event_channel (eventChannel c))
      in if eventChannel c = 0 then d else (x, R_int (rc_of E (d @ u) x)) # d)"

lemma end_trace_end_calls: "end_calls (end_trace E c u)"
  by (auto simp: end_trace_def Let_def end_calls_def)

lemma end_trace_ledger [simp]: "ledger (end_trace E c u @ t) = ledger t"
  by (simp add: end_trace_def Let_def)

lemma end_trace_traffic:
  "cmId c \<noteq> 0 \<Longrightarrow> qp_of E u (cmId c) \<noteq> None \<Longrightarrow> traffic (end_trace E c u @ t) = hung_up (cmId c) (traffic t)"
  by (auto simp: end_trace_def Let_def)

lemma destroy_connection_runs:
  "\<exists>c'. destroy_connection E (c, w) = Some (Ok (), (c', w\<lparr>trace := end_trace E c (trace w) @ trace w\<rparr>))"
proof (cases "cmId c = 0")
  case True
  then show ?thesis
    by (cases "eventChannel c = 0") (simp_all add: destroy_connection_def destroy_base_def run_simps end_trace_def Let_def)
next
  case False
  then show ?thesis
    by (cases "eventChannel c = 0"; cases "qp_of E (trace w) (cmId c)")
       (simp_all add: destroy_connection_def destroy_base_def run_simps end_trace_def Let_def)
qed

text \<open>Letting go of a completion queue and of the pool.\<close>

lemma heap_free_put [simp]: "heap_free p (heap_put p x h) = heap_free p h"
  by (simp add: heap_free_def heap_put_def)

definition cq_end :: "env \<Rightarrow> completion_queue \<Rightarrow> trace \<Rightarrow> trace" where
  "cq_end E cq u = (let x = CQ (Ibv_destroy_cq (completionQ cq)) in
     if completionQ cq = 0 then [] else [(x, R_int (rc_of E u x))])"

lemma cq_end_unacked [simp]: "cm_unacked (cq_end E cq u @ t) = cm_unacked t"
  by (simp add: cq_end_def Let_def)

lemma cq_end_ledger [simp]: "ledger (cq_end E cq u @ t) = ledger t"
  by (simp add: cq_end_def Let_def)

lemma cq_end_traffic [simp]: "traffic (cq_end E cq u @ t) = traffic t"
  by (simp add: cq_end_def Let_def)

lemma drop_cq_last:
  assumes "heap_get (cqs w) q = Some cq" and "uses w (CQ_ref q) = 1"
  shows "drop_cq E q w = Some (Ok (), w\<lparr>uses := (uses w)(CQ_ref q := 0),
     cqs := heap_free q (cqs w), trace := cq_end E cq (trace w) @ trace w\<rparr>)"
proof -
  have "q \<noteq> 0" using assms(1) by (cases "q = 0") auto
  with assms show ?thesis
    by (simp add: drop_cq_def unshare_def on_heap_run destroy_cq_def run_simps cq_end_def Let_def)
qed

lemma drop_cq_shared:
  assumes "q \<noteq> 0" and "uses w (CQ_ref q) = Suc (Suc n)"
  shows "drop_cq E q w = Some (Ok (), w\<lparr>uses := (uses w)(CQ_ref q := Suc n)\<rparr>)"
  using assms by (simp add: drop_cq_def unshare_def)

lemma drop_pool_shared:
  assumes "q \<noteq> 0" and "uses w (Pool_ref q) = Suc (Suc n)"
  shows "drop_pool E q w = Some (Ok (), w\<lparr>uses := (uses w)(Pool_ref q := Suc n)\<rparr>)"
  using assms by (simp add: drop_pool_def unshare_def)

text \<open>A client in good order: its regions are its own, its completion queue is there, and the
  pool is held elsewhere too.\<close>

definition client_ok :: "'a cworld_scheme \<Rightarrow> client \<Rightarrow> bool" where
  "client_ok w c \<longleftrightarrow> client_regions_ok w c \<and> heap_get (cqs w) (client_completionQ c) \<noteq> None \<and>
     (memoryPool c \<noteq> 0 \<longrightarrow> 2 \<le> uses w (Pool_ref (memoryPool c)))"

text \<open>The pool's count after the client's pointer to it is gone.\<close>

definition unpool :: "client \<Rightarrow> (shared \<Rightarrow> nat) \<Rightarrow> shared \<Rightarrow> nat" where
  "unpool c u = (if memoryPool c = 0 then u else u(Pool_ref (memoryPool c) := u (Pool_ref (memoryPool c)) - 1))"

lemma drop_client_pool:
  assumes "memoryPool c \<noteq> 0 \<longrightarrow> 2 \<le> uses w (Pool_ref (memoryPool c))"
  shows "whenM (memoryPool c \<noteq> 0) (on_world (drop_pool E (memoryPool c))) (ob, w) =
    Some (Ok (), (ob, w\<lparr>uses := unpool c (uses w)\<rparr>))"
proof (cases "memoryPool c = 0")
  case False
  with assms obtain n where "uses w (Pool_ref (memoryPool c)) = Suc (Suc n)"
    by (metis add_2_eq_Suc le_Suc_ex)
  from drop_pool_shared [OF False this] False this show ?thesis by (simp add: unpool_def)
qed (simp add: unpool_def)

lemma drop_members_none:
  "inMessageRegion c = 0 \<Longrightarrow> outMessageRegion c = 0 \<Longrightarrow> drop_members E (c, w) = Some (Ok (), (c, w))"
  by (simp add: drop_members_def drop_ptr_def)

lemma drop_cq_any:
  assumes "heap_get (cqs w) q = Some cq" and "uses w (CQ_ref q) = Suc n"
  shows "drop_cq E q w = Some (Ok (), w\<lparr>uses := (uses w)(CQ_ref q := n),
     cqs := (if n = 0 then heap_free q (cqs w) else cqs w),
     trace := (if n = 0 then cq_end E cq (trace w) else []) @ trace w\<rparr>)"
proof (cases n)
  case 0
  with assms drop_cq_last show ?thesis by simp
next
  case (Suc m)
  moreover have "q \<noteq> 0" using assms(1) by (cases "q = 0") auto
  ultimately show ?thesis using drop_cq_shared [of q w m] assms(2) by simp
qed

text \<open>
  \<open>~RdmaClient\<close> with everything in order: the regions go first, then the completion queue if
  this was its last use, and the queue pair after it.
\<close>

lemma destroy_client_runs:
  fixes w :: "'a cworld_scheme"
  assumes "fair_env E" and "client_ok w c"
    and "heap_get (cqs w) (client_completionQ c) = Some cq" and "uses w (CQ_ref (client_completionQ c)) = Suc n"
  shows "\<exists>c' w' t. destroy_client E (drop_cq E) (drop_pool E) (c, w) = Some (Ok (), (c', w')) \<and>
    mem_calls t \<and> client_objs w' = client_objs w \<and>
    cqs w' = (if n = 0 then heap_free (client_completionQ c) (cqs w) else cqs w) \<and>
    uses w' = unpool c ((uses w)(CQ_ref (client_completionQ c) := n)) \<and> pools w' = pools w \<and> regions_gone w c w' \<and>
    trace w' = (let u = (if n = 0 then cq_end E cq (t @ trace w) else []) @ t @ trace w in end_trace E c u @ u)"
proof -
  let ?q = "client_completionQ c"
  let ?c1 = "c\<lparr>inMessageRegion := 0, outMessageRegion := 0\<rparr>"
  let ?c2 = "?c1\<lparr>client_completionQ := 0\<rparr>"
  have q0: "?q \<noteq> 0" using assms(3) by (cases "?q = 0") auto
  from assms(2) have "client_regions_ok w c" by (simp add: client_ok_def)
  from reset_regions_runs [OF assms(1) this] obtain w1 t where
    r: "reset_regions E (c, w) = Some (Ok (), (?c1, w1))" "mworld.more w1 = mworld.more w"
      "trace w1 = t @ trace w" "mem_calls t" "regions_gone w c w1" by blast
  note same = more_fields [OF r(2)]
  let ?w2 = "w1\<lparr>uses := (uses w)(CQ_ref ?q := n), cqs := (if n = 0 then heap_free ?q (cqs w) else cqs w),
     trace := (if n = 0 then cq_end E cq (trace w1) else []) @ trace w1\<rparr>"
  have d: "drop_cq E ?q w1 = Some (Ok (), ?w2)" using drop_cq_any [of w1 ?q cq n E] assms(3,4) same by simp
  obtain c3 where e: "destroy_connection E (?c2, ?w2) =
      Some (Ok (), (c3, ?w2\<lparr>trace := end_trace E ?c2 (trace ?w2) @ trace ?w2\<rparr>))"
    using destroy_connection_runs by blast
  let ?w3 = "?w2\<lparr>trace := end_trace E ?c2 (trace ?w2) @ trace ?w2\<rparr>"
  have "memoryPool c \<noteq> 0 \<longrightarrow> 2 \<le> uses ?w3 (Pool_ref (memoryPool c))"
    using assms(2) by (simp add: client_ok_def)
  note p = drop_client_pool [OF this, of E c3]
  let ?w4 = "?w3\<lparr>uses := unpool c (uses ?w3)\<rparr>"
  have "destroy_client E (drop_cq E) (drop_pool E) (c, w) = Some (Ok (), (c3, ?w4))"
    unfolding destroy_client_def using r(1) d e p q0 drop_members_none [of ?c2 E ?w2] by simp
  moreover have "end_trace E ?c2 u = end_trace E c u" for u by (simp add: end_trace_def)
  moreover have "regions_gone w c ?w4" by (rule regions_gone_cong [OF r(5)]) simp_all
  ultimately show ?thesis using r(3,4) same by (intro exI [of _ c3] exI [of _ ?w4] exI [of _ t]) (simp add: Let_def)
qed

lemma drop_client_last:
  fixes w :: "'a cworld_scheme"
  assumes "fair_env E" and "client_ok w c" and "heap_get (client_objs w) p = Some c"
    and "uses w (Client_ref p) = 1" and "heap_get (cqs w) (client_completionQ c) = Some cq"
    and "uses w (CQ_ref (client_completionQ c)) = Suc n"
  shows "\<exists>w' t. drop_client E p w = Some (Ok (), w') \<and> mem_calls t \<and>
    client_objs w' = heap_free p (client_objs w) \<and>
    cqs w' = (if n = 0 then heap_free (client_completionQ c) (cqs w) else cqs w) \<and>
    uses w' = unpool c ((uses w)(Client_ref p := 0, CQ_ref (client_completionQ c) := n)) \<and>
    pools w' = pools w \<and> regions_gone w c w' \<and>
    trace w' = (let u = (if n = 0 then cq_end E cq (t @ trace w) else []) @ t @ trace w in end_trace E c u @ u)"
proof -
  let ?w1 = "w\<lparr>uses := (uses w)(Client_ref p := 0)\<rparr>"
  have p0: "p \<noteq> 0" using assms(3) by (cases "p = 0") auto
  have "client_ok ?w1 c"
    using assms(2) by (simp add: client_ok_def client_regions_ok_def region_ptr_ok_def)
  from destroy_client_runs [OF assms(1) this, of cq n] assms(5,6) obtain c' w' t where
    d: "destroy_client E (drop_cq E) (drop_pool E) (c, ?w1) = Some (Ok (), (c', w'))" "mem_calls t"
      "client_objs w' = client_objs w"
      "cqs w' = (if n = 0 then heap_free (client_completionQ c) (cqs w) else cqs w)"
      "uses w' = unpool c ((uses w)(Client_ref p := 0, CQ_ref (client_completionQ c) := n))"
      "pools w' = pools w" "regions_gone ?w1 c w'"
      "trace w' = (let u = (if n = 0 then cq_end E cq (t @ trace w) else []) @ t @ trace w in end_trace E c u @ u)"
    by auto
  let ?w2 = "w'\<lparr>client_objs := heap_free p (client_objs w)\<rparr>"
  have "drop_client E p w = Some (Ok (), ?w2)"
    using p0 assms(3,4) d(1,3) by (simp add: drop_client_def unshare_def on_heap_run)
  moreover have "regions_gone w c w'" using d(7) regions_gone_start [of ?w1 w] by simp
  then have "regions_gone w c ?w2" by (rule regions_gone_cong) simp_all
  ultimately show ?thesis using d(2-6,8) by (intro exI [of _ ?w2] exI [of _ t]) simp
qed

lemma drop_client_shared:
  assumes "p \<noteq> 0" and "uses w (Client_ref p) = Suc (Suc n)"
  shows "drop_client E p w = Some (Ok (), w\<lparr>uses := (uses w)(Client_ref p := Suc n)\<rparr>)"
  using assms by (simp add: drop_client_def unshare_def)

section \<open>A client that is the only owner of its resources\<close>

definition sole_client :: "env \<Rightarrow> 'a cworld_scheme \<Rightarrow> ptr \<Rightarrow> client \<Rightarrow> completion_queue \<Rightarrow> bool" where
  "sole_client E w p c cq \<longleftrightarrow> heap_get (client_objs w) p = Some c \<and> client_ok w c \<and>
     uses w (Client_ref p) = 1 \<and> heap_get (cqs w) (client_completionQ c) = Some cq \<and>
     uses w (CQ_ref (client_completionQ c)) = 1 \<and> completionQ cq \<noteq> 0 \<and>
     cmId c \<noteq> 0 \<and> (\<forall>t. qp_of E t (cmId c) \<noteq> None)"

lemma end_trace_qp:
  "cmId c \<noteq> 0 \<Longrightarrow> \<forall>t. qp_of E t (cmId c) \<noteq> None \<Longrightarrow> \<exists>r. (CM (Rdma_destroy_qp (cmId c)), r) \<in> set (end_trace E c u)"
  by (auto simp: end_trace_def Let_def)

text \<open>C31: When the last use of a client goes away, nobody else holds its completion queue and
  others hold the pool, the client goes with everything it owns: its message regions with their registrations and
  mappings, its completion queue, its queue pair, identifier and event channel, and its share
  in the pool.  These are the only calls that are made, but they come in the wrong order: the
  completion queue is destroyed while the queue pair that uses it still exists.  (The trace has
  the newest call first.)\<close>

theorem client_end_order:
  fixes w :: "'a cworld_scheme"
  assumes "fair_env E" and "sole_client E w p c cq"
  shows "\<exists>w' u. drop_client E p w = Some (Ok (), w') \<and>
    heap_get (client_objs w') p = None \<and> heap_get (cqs w') (client_completionQ c) = None \<and>
    heap_get (regions w') (inMessageRegion c) = None \<and> heap_get (regions w') (outMessageRegion c) = None \<and>
    live_mrs (trace w') = live_mrs (trace w) - mrp w (inMessageRegion c) - mrp w (outMessageRegion c) \<and>
    live_maps (trace w') = live_maps (trace w) - fp w (inMessageRegion c) - fp w (outMessageRegion c) \<and>
    uses w' = (\<lambda>x. if x = Client_ref p \<or> x = CQ_ref (client_completionQ c) then 0
      else if memoryPool c \<noteq> 0 \<and> x = Pool_ref (memoryPool c) then uses w x - 1 else uses w x) \<and>
    map fst (trace w') = (if eventChannel c = 0 then [] else [CM (Rdma_destroy_event_channel (eventChannel c))]) @
      [CM (Rdma_destroy_id (cmId c)), CM (Rdma_destroy_qp (cmId c)), CQ (Ibv_destroy_cq (completionQ cq))] @
      u @ map fst (trace w) \<and> (\<forall>x \<in> set u. \<exists>m. x = Mem m)"
proof -
  let ?q = "client_completionQ c"
  from assms(2) have h: "heap_get (client_objs w) p = Some c" "client_ok w c" "uses w (Client_ref p) = 1"
    "heap_get (cqs w) ?q = Some cq" "uses w (CQ_ref ?q) = Suc 0" "completionQ cq \<noteq> 0"
    "cmId c \<noteq> 0" "\<forall>t. qp_of E t (cmId c) \<noteq> None"
    by (simp_all add: sole_client_def)
  from drop_client_last [OF assms(1) h(2,1,3,4,5)] obtain w' t where
    d: "drop_client E p w = Some (Ok (), w')" "mem_calls t"
      "client_objs w' = heap_free p (client_objs w)" "cqs w' = heap_free ?q (cqs w)"
      "uses w' = unpool c ((uses w)(Client_ref p := 0, CQ_ref ?q := 0))" "regions_gone w c w'"
      "trace w' = (let u = cq_end E cq (t @ trace w) @ t @ trace w in end_trace E c u @ u)"
    by auto
  have "map fst (trace w') = (if eventChannel c = 0 then [] else [CM (Rdma_destroy_event_channel (eventChannel c))]) @
      [CM (Rdma_destroy_id (cmId c)), CM (Rdma_destroy_qp (cmId c)), CQ (Ibv_destroy_cq (completionQ cq))] @
      map fst t @ map fst (trace w)"
    using d(7) h(6,7,8) by (simp add: cq_end_def end_trace_def Let_def)
  moreover have "\<forall>x \<in> set (map fst t). \<exists>m. x = Mem m" using d(2) by (auto simp: mem_calls_def)
  moreover have "uses w' = (\<lambda>x. if x = Client_ref p \<or> x = CQ_ref ?q then 0
      else if memoryPool c \<noteq> 0 \<and> x = Pool_ref (memoryPool c) then uses w x - 1 else uses w x)"
    using d(5) by (auto simp: unpool_def fun_eq_iff)
  ultimately show ?thesis using d(1,3,4,6) h(1,4)
    by (intro exI [of _ w'] exI [of _ "map fst t"]) (simp add: heap_get_free regions_gone_def)
qed

text \<open>A client with its queue, both held once.\<close>

definition client_1 :: client where
  "client_1 = blank_client\<lparr>cmId := 64, client_completionQ := 1\<rparr>"

definition one_client :: cworld where
  "one_client = init_cworld\<lparr>cqs := [Some ((blank_cq 5)\<lparr>completionQ := 9\<rparr>)], client_objs := [Some client_1],
     uses := (\<lambda>r. if r = Client_ref 1 \<or> r = CQ_ref 1 then 1 else 0)\<rparr>"

lemma one_client_sole: "sole_client env_ok one_client 1 client_1 ((blank_cq 5)\<lparr>completionQ := 9\<rparr>)"
  by (simp add: sole_client_def one_client_def heap_get_def client_ok_def client_regions_ok_def region_ptr_ok_def)
     (simp add: client_1_def blank_client_def)

theorem client_end_order_witness:
  "\<exists>w'. drop_client env_ok 1 one_client = Some (Ok (), w') \<and>
     map fst (trace w') = [CM (Rdma_destroy_id 64), CM (Rdma_destroy_qp 64), CQ (Ibv_destroy_cq 9)] @ drop 3 (map fst (trace w'))"
proof -
  have "trace one_client = []" "cmId client_1 = 64" "completionQ ((blank_cq 5)\<lparr>completionQ := 9\<rparr>) = 9"
    "eventChannel client_1 = 0"
    by (simp_all add: one_client_def client_1_def blank_client_def)
  then show ?thesis using client_end_order [OF fair_env_ok one_client_sole] by fastforce
qed

section \<open>The disconnect of a client\<close>

lemma listener_same [simp]: "rdmaListener k = Some l \<Longrightarrow> k\<lparr>rdmaListener := Some l\<rparr> = k"
  by (cases k) simp

lemma client_objs_same [simp]: "w\<lparr>client_objs := client_objs w\<rparr> = (w :: 'a cworld_scheme)"
  by (cases w) simp

lemma event_qp_run:
  "rdmaListener k = Some l \<Longrightarrow> event l = Some ev \<Longrightarrow> qp_of E (trace w) (ev_id ev) = Some q \<Longrightarrow>
   on_listener (getEventQpNum E) (k, w) = Some (Ok q, (k, w))"
  by (simp add: on_listener_run getEventQpNum_def through_event_def run_simps)

lemma client_at_known:
  "map_of (clients k) q = Some p \<Longrightarrow> client_at U q (k, w) = Some (Ok p, (k, w))"
  by (simp add: client_at_def)

lemma ack_run:
  assumes "rdmaListener k = Some l" and "event l = Some ev" and "rc_of E (trace w) (CM (Rdma_ack_cm_event ev)) = 0"
  shows "on_listener (ackEvent E) (k, w) = Some (Ok 0, (k\<lparr>rdmaListener := Some (l\<lparr>event := None\<rparr>)\<rparr>,
     w\<lparr>trace := (CM (Rdma_ack_cm_event ev), R_int 0) # trace w\<rparr>))"
  using assms by (simp add: on_listener_run ackEvent_def run_simps)

lemma disconnect_client_run:
  assumes "heap_get (client_objs w) p = Some c"
  shows "\<exists>n. on_client p (disconnect E False) w = Some (Ok n, w\<lparr>trace :=
     (Conn (Rdma_disconnect (cmId c)), R_int (rc_of E (trace w) (Conn (Rdma_disconnect (cmId c))))) # trace w\<rparr>)"
  using assms by (simp add: on_heap_run disconnect_def run_simps)

lemma client_ok_cong:
  assumes "mworld.regions w' = regions w" "cqs w' = cqs w"
    and "uses w' (Pool_ref (memoryPool c)) = uses w (Pool_ref (memoryPool c))"
  shows "client_ok w' c \<longleftrightarrow> client_ok w c"
  using assms by (simp add: client_ok_def client_regions_ok_def region_ptr_ok_def)

text \<open>The last use of the client goes, and after it the last use of its queue.\<close>

lemma drop_client_then_cq:
  fixes w :: "'a cworld_scheme"
  assumes "fair_env E" and "client_ok w c" and "heap_get (client_objs w) p = Some c"
    and "uses w (Client_ref p) = 1" and "heap_get (cqs w) (client_completionQ c) = Some cq"
    and "uses w (CQ_ref (client_completionQ c)) = 2" and "completionQ cq \<noteq> 0"
    and "cmId c \<noteq> 0" and "\<forall>t. qp_of E t (cmId c) \<noteq> None"
  shows "\<exists>w1 w2 r t s. drop_client E p w = Some (Ok (), w1) \<and> drop_cq E (client_completionQ c) w1 = Some (Ok (), w2) \<and>
    client_objs w2 = heap_free p (client_objs w) \<and> cqs w2 = heap_free (client_completionQ c) (cqs w) \<and>
    uses w2 = unpool c ((uses w)(Client_ref p := 0, CQ_ref (client_completionQ c) := 0)) \<and>
    pools w2 = pools w \<and> regions_gone w c w2 \<and> cm_unacked (trace w2) = cm_unacked (trace w) \<and>
    traffic (trace w2) = hung_up (cmId c) (traffic (trace w)) \<and>
    trace w2 = (CQ (Ibv_destroy_cq (completionQ cq)), r) # t \<and> (CM (Rdma_destroy_qp (cmId c)), s) \<in> set t"
proof -
  let ?r = "client_completionQ c"
  from drop_client_last [OF assms(1-5), of 1] assms(6) obtain w1 t where
    d: "drop_client E p w = Some (Ok (), w1)" "mem_calls t" "client_objs w1 = heap_free p (client_objs w)"
      "cqs w1 = cqs w" "uses w1 = unpool c ((uses w)(Client_ref p := 0, CQ_ref ?r := 1))"
      "trace w1 = end_trace E c (t @ trace w) @ t @ trace w" "pools w1 = pools w" "regions_gone w c w1"
    by (auto simp: Let_def)
  let ?w2 = "w1\<lparr>uses := (uses w1)(CQ_ref ?r := 0), cqs := heap_free ?r (cqs w),
       trace := cq_end E cq (trace w1) @ trace w1\<rparr>"
  have "uses w1 (CQ_ref ?r) = Suc 0" using d(5) by (simp add: unpool_def)
  from drop_cq_any [OF _ this, of cq E] d(4) assms(5) have "drop_cq E ?r w1 = Some (Ok (), ?w2)" by simp
  moreover have gone: "regions_gone w c ?w2" by (rule regions_gone_cong [OF d(8)]) simp_all
  then have "cm_unacked (trace ?w2) = cm_unacked (trace w)" by (simp add: regions_gone_def cm_tally_def)
  moreover have "uses ?w2 = unpool c ((uses w)(Client_ref p := 0, CQ_ref ?r := 0))"
    using d(5) by (simp add: unpool_def fun_eq_iff)
  moreover obtain s where "(CM (Rdma_destroy_qp (cmId c)), s) \<in> set (trace w1)"
    using end_trace_qp [OF assms(8,9), of "t @ trace w"] d(6) by auto
  moreover have "trace ?w2 = (CQ (Ibv_destroy_cq (completionQ cq)),
      R_int (rc_of E (trace w1) (CQ (Ibv_destroy_cq (completionQ cq))))) # trace w1"
    using assms(7) by (simp add: cq_end_def Let_def)
  moreover have "traffic (trace ?w2) = hung_up (cmId c) (traffic (trace w))"
    using d(2,6) end_trace_traffic [OF assms(8)] assms(9) by (simp add: mem_calls_traffic)
  ultimately show ?thesis using d(1,3,7) gone by (intro exI [of _ w1] exI [of _ ?w2]) auto
qed

text \<open>The disconnect of a known client, with all it leaves.\<close>

lemma disconnected_runs:
  fixes w :: "'a cworld_scheme" and k :: "'a cworld_scheme controller" and U :: map_api
  assumes "fair_env E"
    and "rdmaListener k = Some l" and "event l = Some ev"
    and "qp_of E (trace w) (ev_id ev) = Some q" and "map_of (clients k) q = Some p"
    and "sole_client E w p c cq" and "\<forall>t. rc_of E t (CM (Rdma_ack_cm_event ev)) = 0"
  defines "k' \<equiv> k\<lparr>rdmaListener := Some (l\<lparr>event := None\<rparr>), clients := map_erase U q (clients k)\<rparr>"
  shows "\<exists>w' t2 r t s. disconnected E U (k, w) = Some (Ok (), (k', w')) \<and>
    client_objs w' = heap_free p (client_objs w) \<and> cqs w' = heap_free (client_completionQ c) (cqs w) \<and>
    uses w' = unpool c ((uses w)(Client_ref p := 0, CQ_ref (client_completionQ c) := 0)) \<and>
    pools w' = pools w \<and> regions_gone (w\<lparr>trace := t2\<rparr>) c w' \<and>
    ledger t2 = ((cm_unacked (trace w) - 1, cm_taken (trace w)), live_mrs (trace w), live_maps (trace w)) \<and>
    traffic (trace w') = hung_up (cmId c) (traffic (trace w)) \<and>
    trace w' = (CQ (Ibv_destroy_cq (completionQ cq)), r) # t \<and> (CM (Rdma_destroy_qp (cmId c)), s) \<in> set t"
proof -
  let ?r = "client_completionQ c"
  from assms(6) have h: "heap_get (client_objs w) p = Some c" "client_ok w c" "uses w (Client_ref p) = 1"
    "heap_get (cqs w) ?r = Some cq" "uses w (CQ_ref ?r) = Suc 0" "completionQ cq \<noteq> 0"
    "cmId c \<noteq> 0" "\<forall>t. qp_of E t (cmId c) \<noteq> None"
    by (simp_all add: sole_client_def)
  have p0: "p \<noteq> 0" and r0: "?r \<noteq> 0" using h(1,4) by (cases "p = 0", auto) (cases "?r = 0", auto)
  have nolog: "\<not> logging E" using assms(1) by (simp add: fair_env_def)
  let ?u2 = "(uses w)(Client_ref p := 2, CQ_ref ?r := 2)"
  let ?t1 = "(Conn (Rdma_disconnect (cmId c)), R_int (rc_of E (trace w) (Conn (Rdma_disconnect (cmId c))))) # trace w"
  let ?t2 = "(CM (Rdma_ack_cm_event ev), R_int 0) # ?t1"
  let ?l' = "l\<lparr>event := None\<rparr>"
  let ?w1 = "w\<lparr>uses := ?u2\<rparr>"
  let ?w3 = "w\<lparr>uses := (uses w)(Client_ref p := 1, CQ_ref ?r := 2), trace := ?t2\<rparr>"
  obtain n where dis: "on_client p (disconnect E False) ?w1 = Some (Ok n, ?w1\<lparr>trace := ?t1\<rparr>)"
    using disconnect_client_run [of ?w1 p c E] h(1) by auto
  have ack: "on_listener (ackEvent E) (k, ?w1\<lparr>trace := ?t1\<rparr>) = Some (Ok 0, (k\<lparr>rdmaListener := Some ?l'\<rparr>,
      ?w1\<lparr>trace := ?t2\<rparr>))"
    using ack_run [OF assms(2,3), of E "?w1\<lparr>trace := ?t1\<rparr>"] assms(7) by simp
  have erase: "client_erase E U q (k\<lparr>rdmaListener := Some ?l'\<rparr>, ?w1\<lparr>trace := ?t2\<rparr>) = Some (Ok (), (k', ?w3))"
    using drop_client_shared [OF p0, of "?w1\<lparr>trace := ?t2\<rparr>" 0 E] assms(5)
    by (simp add: client_erase_def numeral_2_eq_2 fun_upd_twist k'_def)
  have "client_ok ?w3 c" using h(2) by (subst client_ok_cong [where w = w]) auto
  from drop_client_then_cq [OF assms(1) this, of p cq] h obtain w4 w5 r t s where
    d: "drop_client E p ?w3 = Some (Ok (), w4)" "drop_cq E ?r w4 = Some (Ok (), w5)"
      "client_objs w5 = heap_free p (client_objs w)" "cqs w5 = heap_free ?r (cqs w)"
      "uses w5 = unpool c ((uses ?w3)(Client_ref p := 0, CQ_ref ?r := 0))" "pools w5 = pools w"
      "regions_gone ?w3 c w5" "traffic (trace w5) = hung_up (cmId c) (traffic (trace ?w3))"
      "trace w5 = (CQ (Ibv_destroy_cq (completionQ cq)), r) # t" "(CM (Rdma_destroy_qp (cmId c)), s) \<in> set t"
    by auto
  have "disconnected E U (k, w) = Some (Ok (), (k', w5))"
    unfolding disconnected_def
    using event_qp_run [OF assms(2-4)] client_at_known [OF assms(5)] p0 r0 nolog h(1,3,5) dis ack erase d(1,2)
    by (simp add: share_def on_heap_run Let_def numeral_2_eq_2)
  moreover have "uses w5 = unpool c ((uses w)(Client_ref p := 0, CQ_ref ?r := 0))"
    using d(5) by (simp add: unpool_def fun_eq_iff)
  moreover have "regions_gone (w\<lparr>trace := ?t2\<rparr>) c w5"
    using d(7) regions_gone_start [of ?w3 "w\<lparr>trace := ?t2\<rparr>"] by simp
  moreover have "ledger ?t2 = ((cm_unacked (trace w) - 1, cm_taken (trace w)), live_mrs (trace w), live_maps (trace w))"
    by (simp add: ledger_def cm_tally_def)
  moreover have "traffic (trace w5) = hung_up (cmId c) (traffic (trace w))" using d(8) by simp
  ultimately show ?thesis using d(3,4,6,9,10)
    by (intro exI [of _ w5] exI [of _ ?t2] exI [of _ r] exI [of _ t] exI [of _ s]) simp
qed

text \<open>C6: The disconnect of a known client, whatever \<open>rdma_disconnect\<close> answers: its entry leaves the
  map and no other does, client and completion queue are destroyed, the queue after the queue
  pair that uses it, and the event is acknowledged exactly once and forgotten.\<close>

theorem disconnected_cleans_up:
  fixes w :: "'a cworld_scheme" and k :: "'a cworld_scheme controller"
  assumes "fair_env E" and "map_laws U" and "distinct (map fst (clients k))"
    and "rdmaListener k = Some l" and "event l = Some ev"
    and "qp_of E (trace w) (ev_id ev) = Some q" and "map_of (clients k) q = Some p"
    and "sole_client E w p c cq" and "\<forall>t. rc_of E t (CM (Rdma_ack_cm_event ev)) = 0"
  shows "\<exists>k' w' l' r t s. disconnected E U (k, w) = Some (Ok (), (k', w')) \<and>
    map_of (clients k') = (map_of (clients k))(q := None) \<and>
    client_objs w' = heap_free p (client_objs w) \<and> cqs w' = heap_free (client_completionQ c) (cqs w) \<and>
    rdmaListener k' = Some l' \<and> event l' = None \<and>
    cm_unacked (trace w') = cm_unacked (trace w) - 1 \<and>
    trace w' = (CQ (Ibv_destroy_cq (completionQ cq)), r) # t \<and> (CM (Rdma_destroy_qp (cmId c)), s) \<in> set t"
proof -
  let ?k = "k\<lparr>rdmaListener := Some (l\<lparr>event := None\<rparr>), clients := map_erase U q (clients k)\<rparr>"
  from disconnected_runs [OF assms(1,4-9), of U] obtain w' t2 r t s where
    d: "disconnected E U (k, w) = Some (Ok (), (?k, w'))"
      "client_objs w' = heap_free p (client_objs w)" "cqs w' = heap_free (client_completionQ c) (cqs w)"
      "regions_gone (w\<lparr>trace := t2\<rparr>) c w'"
      "ledger t2 = ((cm_unacked (trace w) - 1, cm_taken (trace w)), live_mrs (trace w), live_maps (trace w))"
      "trace w' = (CQ (Ibv_destroy_cq (completionQ cq)), r) # t" "(CM (Rdma_destroy_qp (cmId c)), s) \<in> set t"
    by blast
  moreover have "map_of (clients ?k) = (map_of (clients k))(q := None)"
    using assms(2,3) by (simp add: map_laws_def)
  moreover have "cm_unacked (trace w') = cm_unacked (trace w) - 1"
    using d(4,5) by (simp add: regions_gone_def ledger_def cm_tally_def)
  ultimately show ?thesis by (intro exI [of _ ?k] exI [of _ w'] exI [of _ "l\<lparr>event := None\<rparr>"]) auto
qed

text \<open>A map that keeps the newest entry in front.\<close>

definition list_map :: map_api where
  "list_map = \<lparr>map_insert = (\<lambda>q p m. if q \<in> fst ` set m then m else (q, p) # m),
     map_erase = (\<lambda>q m. filter (\<lambda>x. fst x \<noteq> q) m)\<rparr>"

lemma map_of_filter_key: "map_of (filter (\<lambda>x. fst x \<noteq> q) m) = (map_of m)(q := None)"
  by (induction m) auto

lemma list_map_laws: "map_laws list_map"
  unfolding map_laws_def
proof (intro allI impI)
  fix q :: u32 and p :: ptr and m :: "(u32 \<times> ptr) list"
  assume m: "distinct (map fst m)"
  then have "distinct (map fst (filter (\<lambda>x. fst x \<noteq> q) m))" by (rule distinct_map_filter)
  with m show "distinct (map fst (map_insert list_map q p m)) \<and>
     map_of (map_insert list_map q p m) = (if q \<in> dom (map_of m) then map_of m else (map_of m)(q \<mapsto> p)) \<and>
     distinct (map fst (map_erase list_map q m)) \<and> map_of (map_erase list_map q m) = (map_of m)(q := None)"
    by (auto simp: list_map_def map_of_filter_key dom_map_of_conv_image_fst)
qed

text \<open>A controller with the client \<open>client_1\<close>, whose listener has the given event.\<close>

definition event_1 :: "cm_event_type \<Rightarrow> cm_event" where
  "event_1 ty = \<lparr>ev_handle = 3, ev_type = ty, ev_id = 64, ev_status = 0, ev_private_data_len = 0\<rparr>"

definition listener_1 :: "cm_event_type \<Rightarrow> connection" where
  "listener_1 ty = \<lparr>memoryPool = 0, waitingReceives = 0, tag = [], cmId = 32, eventChannel = 6,
     event = Some (event_1 ty), localAddress = zero_sockaddr, remoteAddress = zero_sockaddr,
     totalRecvPosted = 0, totalSendPosted = 0, totalReadPosted = 0, totalWritePosted = 0,
     initiated_connection = False, srq = 0\<rparr>"

definition ctl_1 :: "cm_event_type \<Rightarrow> 'w controller" where
  "ctl_1 ty = (RdmaController ''mlx4'' ''ib0'' 7910)\<lparr>rdmaListener := Some (listener_1 ty), clients := [(17, 1)]\<rparr>"

lemma ctl_1_simps [simp]: "clients (ctl_1 ty) = [(17, 1)]" "rdmaListener (ctl_1 ty) = Some (listener_1 ty)"
    "event (listener_1 ty) = Some (event_1 ty)"
  by (simp_all add: ctl_1_def listener_1_def)

theorem disconnected_cleans_up_witness:
  "\<exists>k' w'. disconnected env_ok list_map (ctl_1 RDMA_CM_EVENT_DISCONNECTED, one_client) = Some (Ok (), (k', w')) \<and>
     map_of (clients k') = Map.empty \<and> heap_get (client_objs w') 1 = None \<and> cm_unacked (trace w') = -1"
proof -
  let ?ty = RDMA_CM_EVENT_DISCONNECTED
  have "heap_get (client_objs one_client) 1 \<noteq> None" "trace one_client = []"
    by (simp_all add: one_client_def heap_get_def)
  then show ?thesis
    using disconnected_cleans_up [OF fair_env_ok list_map_laws, of "ctl_1 ?ty" "listener_1 ?ty"
      "event_1 ?ty" one_client 17 1 client_1 "(blank_cq 5)\<lparr>completionQ := 9\<rparr>"] one_client_sole
    by (fastforce simp: heap_get_free)
qed

section \<open>Events that no client belongs to, and requests that fail\<close>

lemma client_at_unknown:
  "map_of (clients k) q = None \<Longrightarrow>
   client_at U q (k, w) = Some (Ok 0, (k\<lparr>clients := map_insert U q 0 (clients k)\<rparr>, w))"
  by (simp add: client_at_def)

lemma map_insert_new:
  "map_laws U \<Longrightarrow> distinct (map fst m) \<Longrightarrow> map_of m q = None \<Longrightarrow>
   map_of (map_insert U q p m) = (map_of m)(q \<mapsto> p) \<and> distinct (map fst (map_insert U q p m))"
  unfolding map_laws_def by (metis (no_types, lifting) domIff)

lemma map_of_single:
  assumes "map_of m = [q \<mapsto> p]" and "distinct (map fst m)"
  shows "m = [(q, p)]"
proof -
  have "set m = {(q, p)}"
  proof (rule set_eqI)
    fix x :: "'a \<times> 'b"
    have "x \<in> set m \<longleftrightarrow> map_of m (fst x) = Some (snd x)" using assms(2) by simp
    then show "x \<in> set m \<longleftrightarrow> x \<in> {(q, p)}" using assms(1) by (cases x) auto
  qed
  moreover have "distinct m" using assms(2) by (simp add: distinct_map)
  ultimately have "length m = 1" using distinct_card by fastforce
  with \<open>set m = {(q, p)}\<close> show ?thesis by (cases m) auto
qed

text \<open>A null client in the map: no poll of the completion queues can succeed.\<close>

lemma poll_null_client: "(q, 0) \<in> set cs \<Longrightarrow> poll_clients E f cs n w \<noteq> Some (Ok m, w')"
proof (induction cs arbitrary: n w)
  case (Cons c cs)
  show ?case
  proof (cases "c = (q, 0)")
    case False
    with Cons show ?thesis by (auto elim!: bindM_OkE)
  qed simp
qed simp

text \<open>C28: An event of a queue pair that no client has, with logging off, puts a null client into
  the map.  A disconnect dereferences it at once, and so does a connection that is reported as
  established when a connection function is installed.  Without one the connection is taken for
  established as if nothing were wrong.  In every case the null client stays in the map, and from
  then on no poll of the completion queues returns a result; with no other client in the map it
  dereferences the null client.\<close>

theorem unknown_client_event:
  assumes "map_laws U" and "distinct (map fst (clients k))" and "map_of (clients k) q = None" and "\<not> logging E"
    and "rdmaListener k = Some l" and "event l = Some ev" and "qp_of E (trace w) (ev_id ev) = Some q"
  shows "\<exists>k'. map_of (clients k') = (map_of (clients k))(q \<mapsto> 0) \<and>
    established E U (k, w) = (case connectionFunction k of None \<Rightarrow> Some (Ok (), (k', w))
      | Some f \<Rightarrow> Some (Fault NullDeref, (k', w))) \<and>
    disconnected E U (k, w) = Some (Fault NullDeref, (k', w)) \<and>
    (\<forall>E' w' n s. pollCompletionQueues E' (k', w') \<noteq> Some (Ok n, s)) \<and>
    (clients k = [] \<longrightarrow> (\<forall>E' w'. pollCompletionQueues E' (k', w') = Some (Fault NullDeref, (k', w'))))"
proof -
  let ?k = "k\<lparr>clients := map_insert U q 0 (clients k)\<rparr>"
  from map_insert_new [OF assms(1,2,3), of 0] have
    m: "map_of (clients ?k) = (map_of (clients k))(q \<mapsto> 0)" "distinct (map fst (clients ?k))" by simp_all
  then have "(q, 0) \<in> set (clients ?k)" by (intro map_of_SomeD) simp
  note null = poll_null_client [OF this]
  have at: "client_at U q (k, w) = Some (Ok 0, (?k, w))" by (rule client_at_unknown) (rule assms(3))
  note ev = event_qp_run [OF assms(5-7)]
  have "established E U (k, w) = (case connectionFunction k of None \<Rightarrow> Some (Ok (), (?k, w))
      | Some f \<Rightarrow> Some (Fault NullDeref, (?k, w)))"
    unfolding established_def using ev at assms(4)
    by (simp add: finallyM_run drop_client_def split: option.split)
  moreover have "disconnected E U (k, w) = Some (Fault NullDeref, (?k, w))"
    unfolding disconnected_def using ev at by simp
  moreover have "pollCompletionQueues E' (?k, w') \<noteq> Some (Ok n, s)" for E' w' n s
    unfolding pollCompletionQueues_def using null [of E' "completionFunction k" 0 w' n "snd s"]
    by (cases s) (auto simp: on_world_run split: option.splits)
  moreover have "pollCompletionQueues E' (?k, w') = Some (Fault NullDeref, (?k, w'))" if "clients k = []" for E' w'
  proof -
    from m that have "map_of (clients ?k) = [q \<mapsto> 0]" by simp
    from map_of_single [OF this m(2)] have "clients ?k = [(q, 0)]" .
    then show ?thesis unfolding pollCompletionQueues_def by simp
  qed
  ultimately show ?thesis using m(1) by (intro exI [of _ ?k]) blast
qed

theorem unknown_client_event_witness:
  "\<exists>k'. established env_ok list_map ((ctl_1 RDMA_CM_EVENT_ESTABLISHED)\<lparr>clients := []\<rparr>, init_cworld) =
       Some (Ok (), (k', init_cworld)) \<and>
     pollCompletionQueues env_ok (k', init_cworld) = Some (Fault NullDeref, (k', init_cworld))"
  using unknown_client_event [OF list_map_laws, of "(ctl_1 RDMA_CM_EVENT_ESTABLISHED)\<lparr>clients := []\<rparr>" 17 env_ok
      "listener_1 RDMA_CM_EVENT_ESTABLISHED" "event_1 RDMA_CM_EVENT_ESTABLISHED" init_cworld]
  by (simp add: ctl_1_def RdmaController_def listener_1_def) blast

text \<open>The queue cannot be made: no context, or the device refuses.\<close>

definition no_cq :: "env \<Rightarrow> bool" where
  "no_cq E \<longleftrightarrow> (\<forall>t ctx n ch. ptr_of E t (CQ (Ibv_create_cq ctx n ch)) = 0)"

lemma make_cq_fails:
  assumes "no_cq E"
  shows "\<exists>e t. make_cq E ctx n ch w = Some (Throw e, w\<lparr>trace := t @ trace w\<rparr>) \<and>
    (\<forall>x \<in> set t. \<exists>c. fst x = CQ c)"
proof (cases "ctx = 0")
  case True
  then show ?thesis by (intro exI [of _ "RdmaError EFAULT ''device context pointer is null''"] exI [of _ "[]"])
      (simp add: make_cq_def RdmaCompletionQueue_def run_simps)
next
  case False
  let ?x = "CQ (Ibv_create_cq ctx n ch)"
  have "ptr_of E (trace w) ?x = 0" using assms by (simp add: no_cq_def)
  with False show ?thesis
    by (intro exI [of _ "RdmaError (errno_of E ((?x, R_ptr 0) # trace w)) ''ibv_create_cq() failed''"]
        exI [of _ "[(?x, R_ptr 0)]"]) (simp add: make_cq_def RdmaCompletionQueue_def run_simps)
qed

lemma cq_calls_unacked: "\<forall>x \<in> set t. \<exists>c. fst x = CQ c \<Longrightarrow> cm_unacked (t @ u) = cm_unacked u"
proof (induction t)
  case (Cons x t)
  then show ?case by (cases x) auto
qed simp

text \<open>No callback is installed that could refuse the request: there is none, or it consents.\<close>

definition consents :: "'a cworld_scheme controller \<Rightarrow> bool" where
  "consents k \<longleftrightarrow> (\<forall>f. preConnectionFunction k = Some f \<longrightarrow> (\<exists>n. n \<noteq> 0 \<and> (\<forall>w. f w = Some (Ok n, w))))"

text \<open>C29: A connection request that the pre-connection callback, if there is one, consents to, and
  whose completion queue cannot be made, is dropped (logging is off): the handler returns without an answer to the
  peer, neither an acceptance nor a rejection, and without acknowledging the event.  No client is
  added.\<close>

theorem request_without_queue:
  fixes w :: "'a cworld_scheme"
  assumes "no_cq E" and "\<not> logging E" and "rdmaListener k = Some l" and "consents k"
    and "event_of E (trace w) (CM (Rdma_get_cm_event (eventChannel l))) = (0, Some ev)"
    and "ev_type ev = RDMA_CM_EVENT_CONNECT_REQUEST"
  shows "\<exists>k' w' t. eventChannelHandler E U (k, w) = Some (Ok (), (k', w')) \<and>
    clients k' = clients k \<and> client_objs w' = client_objs w \<and>
    rdmaListener k' = Some (l\<lparr>event := Some ev\<rparr>) \<and> cm_unacked (trace w') = cm_unacked (trace w) + 1 \<and>
    trace w' = t @ trace w \<and> (\<forall>x \<in> set t. \<forall>c. fst x \<noteq> Conn c)"
proof -
  let ?x = "(CM (Rdma_get_cm_event (eventChannel l)), R_event (0, Some ev))"
  let ?w1 = "w\<lparr>trace := ?x # trace w\<rparr>"
  let ?l = "l\<lparr>event := Some ev\<rparr>"
  let ?k = "k\<lparr>rdmaListener := Some ?l\<rparr>"
  have wait: "on_listener (waitForEvent E) (k, w) = Some (Ok 0, (?k, ?w1))"
    using assms(2,3,5) by (simp add: on_listener_run waitForEvent_def run_simps)
  have l: "rdmaListener ?k = Some ?l" "event ?l = Some ev" by simp_all
  have ty: "on_listener getEventType (?k, ?w1) = Some (Ok RDMA_CM_EVENT_CONNECT_REQUEST, (?k, ?w1))"
    using assms(6) by (simp add: on_listener_run getEventType_def through_event_def run_simps)
  have ctx: "on_listener (getEventContext E) (?k, ?w1) =
      Some (Ok (verbs_of E (trace ?w1) (ev_id ev)), (?k, ?w1))"
    by (simp add: on_listener_run getEventContext_def through_event_def run_simps)
  obtain e t where mk: "make_cq E (verbs_of E (trace ?w1) (ev_id ev)) (int MaxQueueSize) 0 ?w1 =
      Some (Throw e, ?w1\<lparr>trace := t @ trace ?w1\<rparr>)" "\<forall>x \<in> set t. \<exists>c. fst x = CQ c"
    using make_cq_fails [OF assms(1)] by blast
  let ?w2 = "?w1\<lparr>trace := t @ trace ?w1\<rparr>"
  have "pre_connection E (?k, ?w1) = Some (Ok (), (?k, ?w1))"
    using assms(4) l
    by (auto simp: pre_connection_def consents_def on_listener_run getEventId_def through_event_def run_simps on_world_run
        split: option.split)
  then have req: "connect_request E U (?k, ?w1) = Some (Ok False, (?k, ?w2))"
    using ctx mk(1) by (simp add: connect_request_def catchM_run)
  have "eventChannelHandler E U (k, w) = Some (Ok (), (?k, ?w2))"
    using wait ty req by (simp add: eventChannelHandler_def bindM_run)
  moreover have "cm_unacked (trace ?w2) = cm_unacked (trace w) + 1"
    using cq_calls_unacked [OF mk(2)] by simp
  moreover have "trace ?w2 = (t @ [?x]) @ trace w" "\<forall>x \<in> set (t @ [?x]). \<forall>c. fst x \<noteq> Conn c"
    using mk(2) by auto
  ultimately show ?thesis
    by (intro exI [of _ ?k] exI [of _ ?w2] exI [of _ "t @ [?x]"]) simp
qed

definition env_request :: env where
  "env_request = env_ok\<lparr>ptr_of := (\<lambda>t c. 0), event_of := (\<lambda>t c. (0, Some (event_1 RDMA_CM_EVENT_CONNECT_REQUEST)))\<rparr>"

theorem request_without_queue_witness:
  "\<exists>k' w'. eventChannelHandler env_request list_map (ctl_1 (RDMA_CM_EVENT_OTHER 0), one_client) = Some (Ok (), (k', w')) \<and>
     clients k' = [(17, 1)] \<and> cm_unacked (trace w') = 1"
proof -
  let ?k = "ctl_1 (RDMA_CM_EVENT_OTHER 0)" and ?ev = "event_1 RDMA_CM_EVENT_CONNECT_REQUEST"
  have e: "no_cq env_request" "\<not> logging env_request" by (simp_all add: no_cq_def env_request_def)
  have k: "rdmaListener ?k = Some (listener_1 (RDMA_CM_EVENT_OTHER 0))" "consents ?k"
    by (simp_all add: consents_def ctl_1_def RdmaController_def)
  have ev: "event_of env_request t c = (0, Some ?ev)" "ev_type ?ev = RDMA_CM_EVENT_CONNECT_REQUEST" for t c
    by (simp_all add: env_request_def event_1_def)
  from request_without_queue [OF e k ev(1) [of "trace one_client"] ev(2), of list_map]
  obtain k' w' where "eventChannelHandler env_request list_map (?k, one_client) = Some (Ok (), (k', w'))"
    "clients k' = clients ?k" "cm_unacked (trace w') = cm_unacked (trace one_client) + 1" by auto
  then show ?thesis by (intro exI [of _ k'] exI [of _ w']) (simp add: one_client_def)
qed

end
