(* ===== verification/ClientAccept.thy ===== *)
theory ClientAccept
  imports ClientEvents
begin

text \<open>
  A connection request that succeeds, from the event to the accepted client with its
  receives: the composition of the controller, the client, its completion queue and message
  regions, and the shared memory pool.
\<close>

section \<open>A device that can serve the request\<close>

text \<open>\<open>i\<close> is the identifier of the request, \<open>q\<close> the number of the queue pair it gets.\<close>

definition accepting :: "env \<Rightarrow> u64 \<Rightarrow> u32 \<Rightarrow> bool" where
  "accepting E i q \<longleftrightarrow> (\<forall>t. verbs_of E t i \<noteq> 0 \<and> qp_of E t i = Some q \<and>
     (\<forall>x n ch. ptr_of E t (CQ (Ibv_create_cq x n ch)) \<noteq> 0) \<and> ptr_of E t (Mem (Mmap 65536)) \<noteq> MAP_FAILED \<and>
     (\<forall>pd a n. mr_of E t (Mem (Ibv_reg_mr pd a n)) \<noteq> None) \<and>
     (\<forall>h. rc_of E t (CQ (Ibv_req_notify_cq h)) = 0) \<and> (\<forall>pd a. rc_of E t (CM (Rdma_create_qp i pd a)) = 0) \<and>
     (\<forall>wr. rc_of E t (WR (Ibv_post_recv i wr)) = 0) \<and> (\<forall>p. rc_of E t (Conn (Rdma_accept i p)) = 0))"

lemma acceptingD:
  assumes "accepting E i q"
  shows "verbs_of E t i \<noteq> 0" "qp_of E t i = Some q" "ptr_of E t (CQ (Ibv_create_cq x n ch)) \<noteq> 0"
    "ptr_of E t (Mem (Mmap 65536)) \<noteq> MAP_FAILED" "mr_of E t (Mem (Ibv_reg_mr pd a m)) \<noteq> None"
    "rc_of E t (CQ (Ibv_req_notify_cq h)) = 0" "rc_of E t (CM (Rdma_create_qp i pd at)) = 0"
    "rc_of E t (WR (Ibv_post_recv i wr)) = 0" "rc_of E t (Conn (Rdma_accept i pm)) = 0"
  using assms by (simp_all add: accepting_def)

text \<open>Pointers to objects that do not exist are not in use.\<close>

definition uses_ok :: "'a cworld_scheme \<Rightarrow> bool" where
  "uses_ok w \<longleftrightarrow> (\<forall>p. heap_get (client_objs w) p = None \<longrightarrow> uses w (Client_ref p) = 0) \<and>
     (\<forall>p. heap_get (cqs w) p = None \<longrightarrow> uses w (CQ_ref p) = 0)"

text \<open>The regions that were there are there unchanged.\<close>

definition regions_kept :: "'a mworld_scheme \<Rightarrow> 'a mworld_scheme \<Rightarrow> bool" where
  "regions_kept w w' \<longleftrightarrow> (\<forall>p ob. heap_get (regions w) p = Some ob \<longrightarrow> heap_get (regions w') p = Some ob)"

lemma regions_kept_refl: "regions w' = regions w \<Longrightarrow> regions_kept w w'"
  by (simp add: regions_kept_def)

lemma regions_kept_trans: "regions_kept w w1 \<Longrightarrow> regions_kept w1 w2 \<Longrightarrow> regions_kept w w2"
  by (simp add: regions_kept_def)

lemma mp_inv_kept: "mp_inv (mp, w) \<Longrightarrow> regions_kept w w' \<Longrightarrow> mp_inv (mp, w')"
  unfolding mp_inv_def regions_kept_def block_at_def by fastforce

text \<open>The regions \<open>ps\<close> have been added to the world, with what they hold, and nothing else has
  changed but message lengths.\<close>

definition shapes_plus :: "'a mworld_scheme \<Rightarrow> ptr list \<Rightarrow> 'a mworld_scheme \<Rightarrow> bool" where
  "shapes_plus w ps w' \<longleftrightarrow> distinct ps \<and>
     (\<forall>p \<in> set ps. p \<noteq> 0 \<and> shape w p = None \<and> region_ptr_ok w' p) \<and>
     (\<forall>q. q \<notin> set ps \<longrightarrow> shape w' q = shape w q) \<and>
     live_mrs (trace w') = live_mrs (trace w) + (\<Sum>p\<leftarrow>ps. mrp w' p) \<and>
     live_maps (trace w') = live_maps (trace w) + (\<Sum>p\<leftarrow>ps. fp w' p)"

lemma shape_cong:
  assumes "shape w' q = shape w q"
  shows "mrp w' q = mrp w q" "fp w' q = fp w q" "region_ptr_ok w' q = region_ptr_ok w q"
  using assms
  by (auto simp: shape_def mrp_def fp_def region_ptr_ok_def tidy_def map_option_case split: option.splits)

lemma regions_shapes_plus:
  assumes "regions_plus w ps w'"
  shows "shapes_plus w ps w'"
proof -
  have "p \<noteq> 0" if "p \<in> set ps" for p using assms that by (cases "p = 0") (auto simp: regions_plus_def)
  with assms show ?thesis by (auto simp: regions_plus_def shapes_plus_def shape_def region_ptr_ok_def)
qed

lemma shapes_plus_frame:
  assumes "shapes_plus w ps w1" and "shape w2 = shape w1" and "ledger (trace w2) = ledger (trace w1)"
  shows "shapes_plus w ps w2"
  using assms shape_cong [of w2 _ w1] by (simp add: shapes_plus_def ledger_def)

lemma regions_plus_start:
  "regions w1 = regions w \<Longrightarrow> ledger (trace w1) = ledger (trace w) \<Longrightarrow> regions_plus w1 ps w' = regions_plus w ps w'"
  by (simp add: regions_plus_def ledger_def)

section \<open>Making the completion queue and the client\<close>

text \<open>A device that gives a new completion queue a handle that no queue pair delivers to, as long
  as there is one.\<close>

definition queue_left :: "trace \<Rightarrow> bool" where
  "queue_left t \<longleftrightarrow> (\<exists>h. h \<noteq> 0 \<and> (\<forall>i. recv_queue t i \<noteq> Some h))"

definition fresh_queues :: "env \<Rightarrow> bool" where
  "fresh_queues E \<longleftrightarrow> (\<forall>t x n ch i. queue_left t \<longrightarrow> recv_queue t i \<noteq> Some (ptr_of E t (CQ (Ibv_create_cq x n ch))))"

lemma make_cq_ok:
  fixes w :: "'a cworld_scheme"
  assumes "accepting E i q" and "ctx \<noteq> 0"
  defines "p \<equiv> Suc (length (cqs w))"
  shows "\<exists>cq w'. make_cq E ctx n ch w = Some (Ok p, w') \<and> regions w' = regions w \<and> pools w' = pools w \<and>
    srqs w' = srqs w \<and> client_objs w' = client_objs w \<and> cqs w' = heap_new cq (cqs w) \<and>
    uses w' = (uses w)(CQ_ref p := uses w (CQ_ref p) + 1) \<and>
    completionQ cq \<noteq> 0 \<and> ledger (trace w') = ledger (trace w) \<and>
    traffic (trace w') = opened (completionQ cq) (traffic (trace w)) \<and>
    (fresh_queues E \<longrightarrow> queue_left (trace w) \<longrightarrow> (\<forall>i. recv_queue (trace w) i \<noteq> Some (completionQ cq)))"
  using assms(2) acceptingD(3,6) [OF assms(1)]
  by (simp add: make_cq_def RdmaCompletionQueue_def requestEvent_def run_simps share_def p_def)
     (rule exI, rule conjI, rule refl, simp add: fresh_queues_def)

lemma new_64kB_ok:
  assumes "accepting E i q"
  shows "\<exists>w'. on_region (Suc (length (regions w))) (allocate64kB E pd) (w\<lparr>regions := heap_new empty_region (regions w)\<rparr>) =
      Some (Ok 0, w') \<and> mworld.more w' = mworld.more w \<and> regions_kept w w' \<and>
    cm_tally (trace w') = cm_tally (trace w) \<and> traffic (trace w') = traffic (trace w)"
proof -
  let ?b = "ptr_of E (trace w) (Mem (Mmap 65536))"
  obtain mr where "mr_of E ((Mem (Mmap 65536), R_ptr ?b) # trace w) (Mem (Ibv_reg_mr pd ?b 65536)) = Some mr"
    using acceptingD(5) [OF assms] by blast
  then show ?thesis using acceptingD(4) [OF assms]
    by (simp add: on_heap_run heap_get_new allocate64kB_def run_simps Let_def regions_kept_def heap_get_put)
qed

lemma createRegions_ok:
  assumes "accepting E i q" and "inMessageRegion c = 0" and "outMessageRegion c = 0"
  shows "\<exists>p r w'. createRegions E pd (c, w) =
      Some (Ok (), (c\<lparr>inMessageRegion := p, outMessageRegion := r\<rparr>, w')) \<and>
    p \<noteq> 0 \<and> r \<noteq> 0 \<and> mworld.more w' = mworld.more w \<and> regions_kept w w' \<and>
    cm_tally (trace w') = cm_tally (trace w) \<and> traffic (trace w') = traffic (trace w) \<and>
    (fair_env E \<longrightarrow> regions_plus w [p, r] w')"
proof -
  let ?p = "Suc (length (regions w))"
  from new_64kB_ok [OF assms(1), of w pd] obtain w1 where
    a1: "on_region ?p (allocate64kB E pd) (w\<lparr>regions := heap_new empty_region (regions w)\<rparr>) = Some (Ok 0, w1)"
      "mworld.more w1 = mworld.more w" "regions_kept w w1"
      "cm_tally (trace w1) = cm_tally (trace w)" "traffic (trace w1) = traffic (trace w)" by blast
  let ?r = "Suc (length (regions w1))"
  from new_64kB_ok [OF assms(1), of w1 pd] obtain w2 where
    a2: "on_region ?r (allocate64kB E pd) (w1\<lparr>regions := heap_new empty_region (regions w1)\<rparr>) = Some (Ok 0, w2)"
      "mworld.more w2 = mworld.more w1" "regions_kept w1 w2"
      "cm_tally (trace w2) = cm_tally (trace w1)" "traffic (trace w2) = traffic (trace w1)" by blast
  have run: "createRegions E pd (c, w) = Some (Ok (), (c\<lparr>inMessageRegion := ?p, outMessageRegion := ?r\<rparr>, w2))"
    using a1(1) a2(1) assms(2,3) by (simp add: createRegions_def drop_ptr_def)
  have "regions_kept w w2" using a1(3) a2(3) by (rule regions_kept_trans)
  moreover have "regions_plus w [?p, ?r] w2" if "fair_env E"
    using createRegions_plus [OF that assms(2,3), of pd w] run by auto
  ultimately show ?thesis using run a1(2,4,5) a2(2,4,5)
    by (intro exI [of _ ?p] exI [of _ ?r] exI [of _ w2]) simp
qed

text \<open>The client for the request: connected to the identifier, nothing posted yet.\<close>

lemma accepted_client:
  fixes w :: "'a nworld_scheme"
  assumes "accepting E i q" and "heap_get (cqs w) cq = Some ob"
  shows "\<exists>c w'. RdmaClient_accepted E i domain cq pl 0 w = Some (Ok c, w') \<and>
    cmId c = i \<and> waitingReceives c = 0 \<and> memoryPool c = pl \<and> client_completionQ c = cq \<and>
    mworld.more w' = mworld.more w \<and> regions_kept w w' \<and>
    inMessageRegion c \<noteq> 0 \<and> outMessageRegion c \<noteq> 0 \<and> cm_tally (trace w') = cm_tally (trace w) \<and>
    traffic (trace w') = wired i (completionQ ob) (traffic (trace w)) \<and>
    (fair_env E \<longrightarrow> regions_plus w [inMessageRegion c, outMessageRegion c] w')"
proof -
  let ?a = "\<lparr>qa_max_send_wr = 4096, qa_max_recv_wr = 4096, qa_max_send_sge = 6, qa_max_recv_sge = 6,
          qa_sq_sig_all = False, qa_send_cq = completionQ ob, qa_recv_cq = completionQ ob, qa_srq = 0\<rparr>"
  let ?w1 = "w\<lparr>trace := (CM (Rdma_create_qp i domain ?a), R_int 0) # trace w\<rparr>"
  have "\<exists>c. RdmaConnection_accepted E i domain cq cq 0 False (blank_client, w) = Some (Ok (), (c, ?w1)) \<and>
      cmId c = i \<and> waitingReceives c = 0 \<and> inMessageRegion c = 0 \<and> outMessageRegion c = 0"
    using assms(2) acceptingD(2,7) [OF assms(1)]
    by (simp add: RdmaConnection_accepted_def createQp_def conn_get_SRQ_def getQpNum_def init_def
        on_heap_run run_simps) (simp add: blank_client_def)
  then obtain c where c: "RdmaConnection_accepted E i domain cq cq 0 False (blank_client, w) = Some (Ok (), (c, ?w1))"
    "cmId c = i" "waitingReceives c = 0" "inMessageRegion c = 0" "outMessageRegion c = 0" by blast
  from createRegions_ok [OF assms(1) c(4,5), of domain ?w1] obtain p r w2 where
    r: "createRegions E domain (c, ?w1) = Some (Ok (), (c\<lparr>inMessageRegion := p, outMessageRegion := r\<rparr>, w2))"
      "mworld.more w2 = mworld.more ?w1" "regions_kept ?w1 w2" "p \<noteq> 0" "r \<noteq> 0"
      "cm_tally (trace w2) = cm_tally (trace ?w1)" "fair_env E \<longrightarrow> regions_plus ?w1 [p, r] w2"
      "traffic (trace w2) = traffic (trace ?w1)" by blast
  have "regions_plus ?w1 [p, r] w2 = regions_plus w [p, r] w2" by (rule regions_plus_start) simp_all
  note plus = r(7) [unfolded this]
  have "regions_kept w w2" using r(3) by (simp add: regions_kept_def)
  then show ?thesis using c(1-3) r(1,2,4-6,8) plus
    by (simp add: RdmaClient_accepted_def construct_run catchM_run cm_tally_def)
qed

text \<open>\<open>make_shared\<close> of it: the client has copies of the pointers to its queue and to the pool.\<close>

lemma make_client_ok:
  fixes w :: "'a cworld_scheme"
  assumes "accepting E i q" and "heap_get (cqs w) cq = Some ob" and "pl \<noteq> 0"
  defines "p \<equiv> Suc (length (client_objs w))"
  shows "\<exists>c w'. make_client_accepted E i domain cq pl 0 w = Some (Ok p, w') \<and>
    cmId c = i \<and> waitingReceives c = 0 \<and> memoryPool c = pl \<and> client_completionQ c = cq \<and>
    regions_kept w w' \<and> cqs w' = cqs w \<and> pools w' = pools w \<and> client_objs w' = heap_new c (client_objs w) \<and>
    inMessageRegion c \<noteq> 0 \<and> outMessageRegion c \<noteq> 0 \<and> cm_tally (trace w') = cm_tally (trace w) \<and>
    traffic (trace w') = wired i (completionQ ob) (traffic (trace w)) \<and>
    (fair_env E \<longrightarrow> shapes_plus w [inMessageRegion c, outMessageRegion c] w') \<and>
    uses w' = (uses w)(CQ_ref cq := uses w (CQ_ref cq) + 1, Pool_ref pl := uses w (Pool_ref pl) + 1,
      Client_ref p := uses w (Client_ref p) + 1)"
proof -
  from accepted_client [OF assms(1,2), of domain pl] obtain c w1 where
    c: "RdmaClient_accepted E i domain cq pl 0 w = Some (Ok c, w1)" "cmId c = i" "waitingReceives c = 0"
      "memoryPool c = pl" "client_completionQ c = cq" "mworld.more w1 = mworld.more w" "regions_kept w w1"
      "inMessageRegion c \<noteq> 0" "outMessageRegion c \<noteq> 0" "cm_tally (trace w1) = cm_tally (trace w)"
      "fair_env E \<longrightarrow> regions_plus w [inMessageRegion c, outMessageRegion c] w1"
      "traffic (trace w1) = wired i (completionQ ob) (traffic (trace w))"
    by blast
  note same = more_fields [OF c(6)]
  let ?w2 = "w1\<lparr>client_objs := heap_new c (client_objs w),
     uses := (uses w)(CQ_ref cq := uses w (CQ_ref cq) + 1, Pool_ref pl := uses w (Pool_ref pl) + 1,
       Client_ref p := uses w (Client_ref p) + 1)\<rparr>"
  have "make_client_accepted E i domain cq pl 0 w = Some (Ok p, ?w2)"
    using c(1) same assms(3) by (simp add: make_client_accepted_def share_def new_client_def p_def)
  moreover have "regions_kept w ?w2" using c(7) by (simp add: regions_kept_def)
  moreover have "shapes_plus w [inMessageRegion c, outMessageRegion c] ?w2" if "fair_env E"
    using shapes_plus_frame [OF regions_shapes_plus, of w _ w1 ?w2] c(11) that by (simp add: shape_def fun_eq_iff)
  ultimately show ?thesis using c same by (intro exI [of _ c] exI [of _ ?w2]) simp
qed

section \<open>The new client among the others\<close>

lemma insert_set:
  assumes "map_laws U" and "distinct (map fst m)" and "map_of m q = None"
  shows "set (map_insert U q p m) = insert (q, p) (set m)" "distinct (map_insert U q p m)"
proof -
  from map_insert_new [OF assms] have new: "map_of (map_insert U q p m) = (map_of m)(q \<mapsto> p)"
    "distinct (map fst (map_insert U q p m))" by blast+
  show "set (map_insert U q p m) = insert (q, p) (set m)"
  proof (rule set_eqI)
    fix x :: "u32 \<times> ptr"
    have "x \<in> set (map_insert U q p m) \<longleftrightarrow> ((map_of m)(q \<mapsto> p)) (fst x) = Some (snd x)"
      using new by (metis Some_eq_map_of_iff prod.collapse)
    also have "\<dots> \<longleftrightarrow> x \<in> insert (q, p) (set m)"
      using assms(2,3) by (cases x) (auto simp: map_of_eq_None_iff image_iff)
    finally show "x \<in> set (map_insert U q p m) \<longleftrightarrow> x \<in> insert (q, p) (set m)" .
  qed
  show "distinct (map_insert U q p m)" using new(2) by (simp add: distinct_map)
qed

lemma clients_hungry_insert:
  assumes "map_laws U" and "distinct (map fst cs)" and "map_of cs q = None"
    and "clients_hungry E pl cs w" and "heap_get (client_objs w) p = None"
    and "client_objs w' = heap_new c (client_objs w)" and "p = Suc (length (client_objs w))" and "hungry E pl c"
  shows "clients_hungry E pl (map_insert U q p cs) w'"
    and "(\<Sum>x\<leftarrow>map_insert U q p cs. missing (client_of w' x)) = missing c + (\<Sum>x\<leftarrow>cs. missing (client_of w x))"
    and "client_of w' (q, p) = c"
proof -
  note ins = insert_set [OF assms(1-3), of p]
  have old: "snd x \<noteq> p" "client_of w' x = client_of w x" "heap_get (client_objs w') (snd x) \<noteq> None" if "x \<in> set cs" for x
    using that assms(4-7) by (auto simp: clients_hungry_def client_of_def heap_get_new)
  show new: "client_of w' (q, p) = c" using assms(6,7) by (simp add: client_of_def heap_get_new)
  have d: "distinct cs" using assms(2) by (simp add: distinct_map)
  have nin: "(q, p) \<notin> set cs" using old(1) by fastforce
  have "inj_on snd (insert (q, p) (set cs))"
    using assms(4) old(1) by (auto simp: clients_hungry_def distinct_map inj_on_insert)
  then have "distinct (map snd (map_insert U q p cs))" using ins by (simp add: distinct_map)
  then show "clients_hungry E pl (map_insert U q p cs) w'"
    using ins(1) assms(4,8) old new assms(6,7) by (auto simp: clients_hungry_def heap_get_new)
  have "(\<Sum>x\<leftarrow>map_insert U q p cs. missing (client_of w' x)) = (\<Sum>x\<in>insert (q, p) (set cs). missing (client_of w' x))"
    using ins by (simp add: sum_list_distinct_conv_sum_set)
  also have "\<dots> = missing c + (\<Sum>x\<in>set cs. missing (client_of w x))"
    using nin new old(2) by simp
  finally show "(\<Sum>x\<leftarrow>map_insert U q p cs. missing (client_of w' x)) = missing c + (\<Sum>x\<leftarrow>cs. missing (client_of w x))"
    using d by (simp add: sum_list_distinct_conv_sum_set)
qed

section \<open>The whole request\<close>

lemma on_client_read:
  "heap_get (client_objs w) p = Some c \<Longrightarrow> m (c, w) = Some (r, (c, w)) \<Longrightarrow> on_client p m (w :: 'a cworld_scheme) = Some (r, w)"
  by (cases w) (simp add: on_heap_run)

lemma conn_core_fields:
  "conn_core c' = conn_core c \<Longrightarrow> cmId c' = cmId c \<and> memoryPool c' = memoryPool c \<and> connection.more c' = connection.more c"
  by (cases c; cases c') (simp add: conn_core_def)

lemma accept_run:
  assumes "heap_get (client_objs w) p = Some c" and "rc_of E (trace w) (Conn (Rdma_accept (cmId c) accept_param)) = 0"
  shows "on_client p (accept E) w = Some (Ok 0, w\<lparr>trace := (Conn (Rdma_accept (cmId c) accept_param), R_int 0) # trace w\<rparr>)"
  using assms by (simp add: on_heap_run accept_def run_simps)

text \<open>Every one of the clients has its receives now, and is the same otherwise.\<close>

definition clients_refilled ::
    "env \<Rightarrow> ptr \<Rightarrow> (u32 \<times> ptr) set \<Rightarrow> 'a cworld_scheme \<Rightarrow> 'a cworld_scheme \<Rightarrow> bool" where
  "clients_refilled E pl X w w' \<longleftrightarrow> (\<forall>x \<in> X. heap_get (client_objs w') (snd x) \<noteq> None \<and>
     getNumReceives (client_of w' x) = 32 \<and> conn_core (client_of w' x) = conn_core (client_of w x) \<and>
     hungry E pl (client_of w' x) \<and> missing (client_of w' x) = 0)"

text \<open>The client \<open>p\<close> has been made and is held by the local pointer alone.\<close>

lemma add_client_ok:
  fixes w :: "'a cworld_scheme" and k :: "'a cworld_scheme controller"
  assumes "accepting E i q" and "map_laws U" and "distinct (map fst (clients k))" and "map_of (clients k) q = None"
    and "heap_get (client_objs w) p = Some c" and "cmId c = i"
    and "clients_hungry E pl (map_insert U q p (clients k)) w" and "client_of w (q, p) = c"
    and "heap_get (pools w) pl = Some mp" and "mp_inv (mp, w)"
    and "(\<Sum>x\<leftarrow>map_insert U q p (clients k). missing (client_of w x)) \<le> length (free_list (small mp))"
  shows "\<exists>w' mp' t. add_client E U p (k, w) = Some (Ok (), (k\<lparr>clients := map_insert U q p (clients k)\<rparr>, w')) \<and>
    clients_refilled E pl (insert (q, p) (set (clients k))) w w' \<and>
    (\<forall>r. r \<notin> snd ` insert (q, p) (set (clients k)) \<longrightarrow> heap_get (client_objs w') r = heap_get (client_objs w) r) \<and>
    frame_kept (w\<lparr>uses := (uses w)(Client_ref p := uses w (Client_ref p) + 1)\<rparr>) w' \<and>
    heap_get (pools w') pl = Some mp' \<and> mp_inv (mp', w') \<and>
    length (free_list (small mp')) + (\<Sum>x\<leftarrow>map_insert U q p (clients k). missing (client_of w x)) =
      length (free_list (small mp)) \<and>
    (\<exists>Q. posted_for Q (insert (q, p) (set (clients k))) w mp w' mp') \<and>
    trace w' = (Conn (Rdma_accept i accept_param), R_int 0) # t"
proof -
  let ?m = "map_insert U q p (clients k)"
  let ?k = "k\<lparr>clients := ?m\<rparr>"
  let ?w1 = "w\<lparr>uses := (uses w)(Client_ref p := uses w (Client_ref p) + 1)\<rparr>"
  note ins = insert_set [OF assms(2-4), of p]
  have qp: "on_client p (getQpNum E) w = Some (Ok q, w)"
    using assms(6) acceptingD(2) [OF assms(1)] by (intro on_client_read [OF assms(5)]) (simp add: getQpNum_run)
  have insert: "client_insert U q p (k, w) = Some (Ok (), (?k, ?w1))"
    using assms(4) by (simp add: client_insert_def share_def)
  have co: "client_of ?w1 = client_of w" by (simp add: client_of_def fun_eq_iff)
  have "clients_hungry E pl ?m ?w1" using assms(7) co by (simp add: clients_hungry_def)
  moreover have "mp_inv (mp, ?w1)" using assms(10) by (rule mp_inv_cong [THEN iffD1, rotated]) simp
  moreover have "heap_get (pools ?w1) pl = Some mp" using assms(9) by simp
  ultimately obtain w2 mp' Q where
    refill: "refill_clients E ?m ?w1 = Some (Ok (), w2)" and n: "clients_refilled E pl (set ?m) ?w1 w2"
    and others: "\<forall>r. r \<notin> snd ` set ?m \<longrightarrow> heap_get (client_objs w2) r = heap_get (client_objs ?w1) r"
    and frame: "frame_kept ?w1 w2" and pool: "heap_get (pools w2) pl = Some mp'" "mp_inv (mp', w2)"
      "length (free_list (small mp')) + (\<Sum>x\<leftarrow>?m. missing (client_of w x)) = length (free_list (small mp))"
    and posted: "posted_for Q (set ?m) ?w1 mp w2 mp'"
    using refill_clients_exact' [of E pl ?m ?w1 mp] assms(11) co by (auto simp: clients_refilled_def)
  have mem: "(q, p) \<in> set ?m" using ins(1) by simp
  then obtain c' where c': "heap_get (client_objs w2) p = Some c'" "client_of w2 (q, p) = c'"
    using n by (auto simp: client_of_def clients_refilled_def)
  have "conn_core c' = conn_core c" using n mem c'(2) co assms(8) by (auto simp: clients_refilled_def)
  then have "cmId c' = i" using conn_core_fields assms(6) by metis
  let ?w3 = "w2\<lparr>trace := (Conn (Rdma_accept i accept_param), R_int 0) # trace w2\<rparr>"
  have acc: "on_client p (accept E) w2 = Some (Ok 0, ?w3)"
    using accept_run [OF c'(1), of E] acceptingD(9) [OF assms(1)] \<open>cmId c' = i\<close> by simp
  have run: "add_client E U p (k, w) = Some (Ok (), (?k, ?w3))"
    using qp insert refill acc by (simp add: add_client_def refill_client_receives_def)
  have co3: "client_of ?w3 = client_of w2" by (simp add: client_of_def fun_eq_iff)
  have "clients_refilled E pl (insert (q, p) (set (clients k))) w ?w3"
    using n ins(1) co co3 by (simp add: clients_refilled_def)
  moreover have "frame_kept ?w1 ?w3" using frame by (simp add: frame_kept_def shape_def fun_eq_iff)
  moreover have "mp_inv (mp', ?w3)" using pool(2) by (rule mp_inv_cong [THEN iffD1, rotated]) simp
  moreover have "posted_for Q (insert (q, p) (set (clients k))) w mp ?w3 mp'"
    using posted ins(1) co by (simp add: posted_for_def)
  then have "\<exists>Q. posted_for Q (insert (q, p) (set (clients k))) w mp ?w3 mp'" by blast
  ultimately show ?thesis using run others ins(1) pool(1,3)
    by (intro exI [of _ ?w3] exI [of _ mp'] exI [of _ "trace w2"]) simp
qed

lemma drop_both:
  fixes w :: "'a cworld_scheme"
  assumes "p \<noteq> 0" and "q \<noteq> 0" and "uses w (Client_ref p) = 2" and "uses w (CQ_ref q) = 2"
  shows "thenM (on_world (drop_client E p)) (on_world (drop_cq E q)) (k, w) =
    Some (Ok (), (k, w\<lparr>uses := (uses w)(Client_ref p := 1, CQ_ref q := 1)\<rparr>))"
  using drop_client_shared [OF assms(1), of w 0 E] assms drop_cq_shared [OF assms(2), of "w\<lparr>uses := (uses w)(Client_ref p := 1)\<rparr>" 0 E]
  by (simp add: numeral_2_eq_2)

text \<open>A new client has joined: the world \<open>w'\<close> has its object \<open>c\<close>, its queue and its regions on top
  of \<open>w\<close>, everyone has all receives, and the pool has lost a block for each new one.\<close>

definition client_joined ::
    "env \<Rightarrow> u64 \<Rightarrow> 'a cworld_scheme controller \<Rightarrow> 'a cworld_scheme \<Rightarrow> memory_pool \<Rightarrow> 'a cworld_scheme \<Rightarrow>
     client \<Rightarrow> memory_pool \<Rightarrow> bool" where
  "client_joined E i k w mp w' c mp' \<longleftrightarrow>
     (let p = Suc (length (client_objs w)); r = Suc (length (cqs w)); pl = ctl_pool k in
      heap_get (client_objs w') p = Some c \<and> cmId c = i \<and> client_completionQ c = r \<and>
      hungry E pl c \<and> missing c = 0 \<and> getNumReceives c = 32 \<and>
      inMessageRegion c \<noteq> 0 \<and> outMessageRegion c \<noteq> 0 \<and> clients_refilled E pl (set (clients k)) w w' \<and>
      (\<forall>x. x \<noteq> p \<longrightarrow> x \<notin> snd ` set (clients k) \<longrightarrow> heap_get (client_objs w') x = heap_get (client_objs w) x) \<and>
      (\<exists>cq. cqs w' = heap_new cq (cqs w) \<and> completionQ cq \<noteq> 0) \<and>
      uses w' = (uses w)(Client_ref p := 1, CQ_ref r := 1, Pool_ref pl := uses w (Pool_ref pl) + 1) \<and>
      heap_get (pools w') pl = Some mp' \<and> mp_inv (mp', w') \<and> all_blocks mp' = all_blocks mp \<and>
      length (free_list (small mp')) + (\<Sum>x\<leftarrow>clients k. missing (client_of w x)) + 32 = length (free_list (small mp)) \<and>
      cm_tally (trace w') = cm_tally (trace w) \<and>
      (fair_env E \<longrightarrow> shapes_plus w [inMessageRegion c, outMessageRegion c] w'))"

text \<open>The receives that have been posted on the way: \<open>N\<close> for the new client, \<open>Q x\<close> for the others.\<close>

definition receives_joined ::
    "env \<Rightarrow> u64 \<Rightarrow> 'a cworld_scheme controller \<Rightarrow> 'a cworld_scheme \<Rightarrow> memory_pool \<Rightarrow> 'a cworld_scheme \<Rightarrow> memory_pool \<Rightarrow> bool" where
  "receives_joined E i k w mp w' mp' \<longleftrightarrow> (\<exists>cq N Q. cqs w' = heap_new cq (cqs w) \<and>
     (fresh_queues E \<longrightarrow> queue_left (trace w) \<longrightarrow> (\<forall>j. recv_queue (trace w) j \<noteq> Some (completionQ cq))) \<and>
     handed_out mp' = handed_out mp + N + (\<Sum>x\<in>set (clients k). Q x) \<and> size N = 32 \<and>
     (\<forall>x \<in> set (clients k). size (Q x) = missing (client_of w x)) \<and>
     traffic (trace w') = sent i (image_mset of_nat N)
       (sent_all (\<lambda>x. cmId (client_of w x)) (\<lambda>x. image_mset of_nat (Q x)) (set (clients k))
         (wired i (completionQ cq) (opened (completionQ cq) (traffic (trace w))))))"

lemma posted_receives_joined:
  assumes "posted_for Q (insert x (set (clients k))) w2 mp w' mp'" and "x \<notin> set (clients k)"
    and "cmId (client_of w2 x) = i" and "missing (client_of w2 x) = 32"
    and "\<forall>y \<in> set (clients k). client_of w2 y = client_of w y" and "cqs w' = heap_new cq (cqs w)"
    and "traffic (trace w2) = wired i (completionQ cq) (opened (completionQ cq) (traffic (trace w)))"
    and "fresh_queues E \<longrightarrow> queue_left (trace w) \<longrightarrow> (\<forall>j. recv_queue (trace w) j \<noteq> Some (completionQ cq))"
  shows "receives_joined E i k w mp w' mp'"
proof -
  have "sent_all (\<lambda>y. cmId (client_of w2 y)) (\<lambda>y. image_mset of_nat (Q y)) (set (clients k)) =
      sent_all (\<lambda>y. cmId (client_of w y)) (\<lambda>y. image_mset of_nat (Q y)) (set (clients k))"
    using assms(5) by (intro sent_all_cong) auto
  with assms show ?thesis
    unfolding receives_joined_def posted_for_def
    by (intro exI [of _ cq] exI [of _ "Q x"] exI [of _ Q]) (auto simp: sent_all_simps ac_simps)
qed

text \<open>The local pointers of \<open>connect_request\<close> hold the client \<open>p\<close> and its queue.\<close>

lemma add_client_joined:
  fixes w w2 :: "'a cworld_scheme" and k :: "'a cworld_scheme controller"
  assumes "accepting E i q" and "map_laws U" and "distinct (map fst (clients k))" and "map_of (clients k) q = None"
    and "clients_hungry E (ctl_pool k) (clients k) w" and "heap_get (pools w2) (ctl_pool k) = Some mp" and "mp_inv (mp, w2)"
    and "(\<Sum>x\<leftarrow>clients k. missing (client_of w x)) + 32 \<le> length (free_list (small mp))"
    and c: "cmId c = i" "waitingReceives c = 0" "memoryPool c = ctl_pool k" "client_completionQ c = Suc (length (cqs w))"
      "inMessageRegion c \<noteq> 0" "outMessageRegion c \<noteq> 0" "client_objs w2 = heap_new c (client_objs w)"
    and cq: "cqs w2 = heap_new cq (cqs w)" "completionQ cq \<noteq> 0" "cm_tally (trace w2) = cm_tally (trace w)"
    and u2: "uses w2 = (uses w)(CQ_ref (Suc (length (cqs w))) := 2, Pool_ref (ctl_pool k) := uses w (Pool_ref (ctl_pool k)) + 1,
      Client_ref (Suc (length (client_objs w))) := 1)"
    and regs: "fair_env E \<longrightarrow> shapes_plus w [inMessageRegion c, outMessageRegion c] w2"
    and tr2: "traffic (trace w2) = wired i (completionQ cq) (opened (completionQ cq) (traffic (trace w)))"
      "fresh_queues E \<longrightarrow> queue_left (trace w) \<longrightarrow> (\<forall>j. recv_queue (trace w) j \<noteq> Some (completionQ cq))"
  defines "p \<equiv> Suc (length (client_objs w))" and "r \<equiv> Suc (length (cqs w))"
  shows "\<exists>w3 w' c' mp' t. add_client E U p (k, w2) = Some (Ok (), (k\<lparr>clients := map_insert U q p (clients k)\<rparr>, w3)) \<and>
    uses w3 (Client_ref p) = 2 \<and> uses w3 (CQ_ref r) = 2 \<and> w' = w3\<lparr>uses := (uses w3)(Client_ref p := 1, CQ_ref r := 1)\<rparr> \<and>
    client_joined E i k w mp w' c' mp' \<and> receives_joined E i k w mp w' mp' \<and>
    trace w' = (Conn (Rdma_accept i accept_param), R_int 0) # t"
proof -
  let ?pl = "ctl_pool k"
  have "hungry E ?pl c" using c(1-3) acceptingD(2,8) [OF assms(1)] by (simp add: hungry_def ready_conn_def)
  note h = clients_hungry_insert [OF assms(2-5) heap_new_fresh c(7) refl this, folded p_def]
  have "missing c = 32" using c(2) by (simp add: missing_def)
  note sum = h(2) [unfolded this]
  have get: "heap_get (client_objs w2) p = Some c" using c(7) by (simp add: heap_get_new p_def)
  from add_client_ok [OF assms(1-4) get c(1) h(1,3) assms(6,7)] sum assms(8) obtain w3 mp' t Q where
    run: "add_client E U p (k, w2) = Some (Ok (), (k\<lparr>clients := map_insert U q p (clients k)\<rparr>, w3))"
    and n: "clients_refilled E ?pl (insert (q, p) (set (clients k))) w2 w3"
    and others: "\<forall>x. x \<notin> snd ` insert (q, p) (set (clients k)) \<longrightarrow> heap_get (client_objs w3) x = heap_get (client_objs w2) x"
    and frame: "frame_kept (w2\<lparr>uses := (uses w2)(Client_ref p := uses w2 (Client_ref p) + 1)\<rparr>) w3"
    and pool: "heap_get (pools w3) ?pl = Some mp'" "mp_inv (mp', w3)"
      "length (free_list (small mp')) + (\<Sum>x\<leftarrow>clients k. missing (client_of w x)) + 32 = length (free_list (small mp))"
    and tr: "trace w3 = (Conn (Rdma_accept i accept_param), R_int 0) # t"
    and posted: "posted_for Q (insert (q, p) (set (clients k))) w2 mp w3 mp'" by auto
  let ?w' = "w3\<lparr>uses := (uses w3)(Client_ref p := 1, CQ_ref r := 1)\<rparr>"
  have old: "heap_get (client_objs w2) x = heap_get (client_objs w) x" if "x \<noteq> p" for x
    using that c(7) by (simp add: heap_get_new p_def)
  have "snd x \<noteq> p" if "x \<in> set (clients k)" for x
    using assms(5) that by (auto simp: clients_hungry_def p_def)
  then have co: "client_of w2 x = client_of w x" if "x \<in> set (clients k)" for x
    using that old by (simp add: client_of_def)
  have co': "client_of ?w' = client_of w3" by (simp add: client_of_def fun_eq_iff)
  obtain c' where c': "heap_get (client_objs w3) p = Some c'" "client_of w3 (q, p) = c'"
    using n by (auto simp: client_of_def clients_refilled_def)
  then have new: "conn_core c' = conn_core c" "hungry E ?pl c'" "missing c' = 0" "getNumReceives c' = 32"
    using n h(3) by (auto simp: clients_refilled_def)
  from conn_core_fields [OF new(1)] c have f: "cmId c' = i" "client_completionQ c' = r"
    "inMessageRegion c' = inMessageRegion c" "outMessageRegion c' = outMessageRegion c"
    by (cases c; cases c'; simp add: r_def)+
  have u3: "uses w3 (Client_ref p) = 2" "uses w3 (CQ_ref r) = 2"
    using frame u2 by (simp_all add: frame_kept_def p_def r_def)
  have "uses ?w' = (uses w)(Client_ref p := 1, CQ_ref r := 1, Pool_ref ?pl := uses w (Pool_ref ?pl) + 1)"
    using frame u2 by (simp add: frame_kept_def p_def r_def fun_eq_iff)
  moreover have "shape ?w' = shape w2" using frame by (simp add: frame_kept_def shape_def fun_eq_iff)
  then have "fair_env E \<longrightarrow> shapes_plus w [inMessageRegion c', outMessageRegion c'] ?w'"
    using regs shapes_plus_frame [of w _ w2 ?w'] f(3,4) frame by (simp add: frame_kept_def)
  moreover have "mp_inv (mp', ?w')" using pool(2) by (rule mp_inv_cong [THEN iffD1, rotated]) simp
  moreover have "all_blocks mp' = all_blocks mp"
    using frame assms(6) pool(1) by (auto simp: frame_kept_def dest: spec [of _ ?pl])
  moreover have "cm_tally (trace ?w') = cm_tally (trace w)" "cqs ?w' = heap_new cq (cqs w)"
    using frame cq by (simp_all add: frame_kept_def ledger_def)
  moreover have "clients_refilled E ?pl (set (clients k)) w ?w'"
    using n co co' by (simp add: clients_refilled_def)
  moreover have "heap_get (client_objs ?w') x = heap_get (client_objs w) x" if "x \<noteq> p" "x \<notin> snd ` set (clients k)" for x
    using others old that by simp
  ultimately have "client_joined E i k w mp ?w' c' mp'"
    using c(5,6) c'(1) new f pool(1,3) cq(2) unfolding client_joined_def Let_def p_def [symmetric] r_def [symmetric]
    by (intro conjI) auto
  moreover have "posted_for Q (insert (q, p) (set (clients k))) w2 mp ?w' mp'" using posted by (simp add: posted_for_def)
  then have "receives_joined E i k w mp ?w' mp'"
  proof (rule posted_receives_joined [OF _ _ _ _ _ _ tr2])
    show "(q, p) \<notin> set (clients k)" using assms(4) by (auto simp: map_of_eq_None_iff image_iff)
    show "cmId (client_of w2 (q, p)) = i" "missing (client_of w2 (q, p)) = 32" using h(3) c(1,2) by (simp_all add: missing_def)
    show "\<forall>y \<in> set (clients k). client_of w2 y = client_of w y" using co by blast
    show "cqs ?w' = heap_new cq (cqs w)" using frame cq(1) by (simp add: frame_kept_def)
  qed
  ultimately show ?thesis using run u3 tr by (intro exI [of _ w3] exI [of _ ?w'] exI [of _ c'] exI [of _ mp'] exI [of _ t]) simp
qed

text \<open>A client object that has been made for the request, before it is entered.\<close>

definition client_made :: "env \<Rightarrow> u64 \<Rightarrow> ptr \<Rightarrow> 'a cworld_scheme \<Rightarrow> client \<Rightarrow> completion_queue \<Rightarrow> 'a cworld_scheme \<Rightarrow> bool" where
  "client_made E i pl w c cq w2 \<longleftrightarrow>
     cmId c = i \<and> waitingReceives c = 0 \<and> memoryPool c = pl \<and> client_completionQ c = Suc (length (cqs w)) \<and>
     inMessageRegion c \<noteq> 0 \<and> outMessageRegion c \<noteq> 0 \<and> client_objs w2 = heap_new c (client_objs w) \<and>
     cqs w2 = heap_new cq (cqs w) \<and> completionQ cq \<noteq> 0 \<and> cm_tally (trace w2) = cm_tally (trace w) \<and>
     uses w2 = (uses w)(CQ_ref (Suc (length (cqs w))) := 2, Pool_ref pl := uses w (Pool_ref pl) + 1,
       Client_ref (Suc (length (client_objs w))) := 1) \<and>
     pools w2 = pools w \<and> regions_kept w w2 \<and>
     traffic (trace w2) = wired i (completionQ cq) (opened (completionQ cq) (traffic (trace w))) \<and>
     (fresh_queues E \<longrightarrow> queue_left (trace w) \<longrightarrow> (\<forall>j. recv_queue (trace w) j \<noteq> Some (completionQ cq))) \<and>
     (fair_env E \<longrightarrow> shapes_plus w [inMessageRegion c, outMessageRegion c] w2)"

text \<open>What follows the callback, which has left the world \<open>w\<close>: the queue and the client are made,
  and all that is left to do is to enter the client.\<close>

lemma request_makes:
  fixes w :: "'a cworld_scheme" and k :: "'a cworld_scheme controller"
  assumes "accepting E (ev_id ev) q"
    and "rdmaListener k = Some l" and "event l = Some ev" and "srq l = 0"
    and "pre_connection E (k, w0) = Some (Ok (), (k, w))" and "protectionDomain k = Some d" and "uses_ok w"
    and "ctl_pool k \<noteq> 0"
  shows "\<exists>c cq w2. client_made E (ev_id ev) (ctl_pool k) w c cq w2 \<and> connect_request E U (k, w0) =
    thenM (finallyM (add_client E U (Suc (length (client_objs w))))
       (thenM (on_world (drop_client E (Suc (length (client_objs w))))) (on_world (drop_cq E (Suc (length (cqs w)))))))
      (returnM True) (k, w2)"
proof -
  let ?i = "ev_id ev" and ?pl = "ctl_pool k"
  let ?q = "Suc (length (cqs w))" and ?p = "Suc (length (client_objs w))"
  let ?ctx = "verbs_of E (trace w) ?i"
  have u0: "uses w (CQ_ref ?q) = 0" "uses w (Client_ref ?p) = 0" using assms(7) by (simp_all add: uses_ok_def)
  from make_cq_ok [OF assms(1) acceptingD(1) [OF assms(1), of "trace w"], where w = w and n = "int MaxQueueSize" and ch = 0]
  obtain cq w1 where mk: "make_cq E ?ctx (int MaxQueueSize) 0 w = Some (Ok ?q, w1)"
    "regions w1 = regions w" "pools w1 = pools w" "client_objs w1 = client_objs w"
    "cqs w1 = heap_new cq (cqs w)" "uses w1 = (uses w)(CQ_ref ?q := uses w (CQ_ref ?q) + 1)"
    "completionQ cq \<noteq> 0" "ledger (trace w1) = ledger (trace w)"
    "traffic (trace w1) = opened (completionQ cq) (traffic (trace w))"
    "fresh_queues E \<longrightarrow> queue_left (trace w) \<longrightarrow> (\<forall>i. recv_queue (trace w) i \<noteq> Some (completionQ cq))" by blast
  have "heap_get (cqs w1) ?q = Some cq" using mk(5) by (simp add: heap_get_new)
  from make_client_ok [OF assms(1) this assms(8), of "pd_ptr d"] mk(4) obtain c w2 where
    cl: "make_client_accepted E ?i (pd_ptr d) ?q ?pl 0 w1 = Some (Ok ?p, w2)"
      "cmId c = ?i" "waitingReceives c = 0" "memoryPool c = ?pl" "client_completionQ c = ?q"
      "regions_kept w1 w2" "pools w2 = pools w" "client_objs w2 = heap_new c (client_objs w)" "cqs w2 = cqs w1"
      "uses w2 = (uses w1)(CQ_ref ?q := uses w1 (CQ_ref ?q) + 1, Pool_ref ?pl := uses w1 (Pool_ref ?pl) + 1,
        Client_ref ?p := uses w1 (Client_ref ?p) + 1)"
      "inMessageRegion c \<noteq> 0" "outMessageRegion c \<noteq> 0" "cm_tally (trace w2) = cm_tally (trace w1)"
      "fair_env E \<longrightarrow> shapes_plus w1 [inMessageRegion c, outMessageRegion c] w2"
      "traffic (trace w2) = wired ?i (completionQ cq) (traffic (trace w1))"
    unfolding mk(3) by auto
  have "shapes_plus w1 ps w2 \<Longrightarrow> shapes_plus w ps w2" for ps
    using mk(2,8) by (simp add: shapes_plus_def shape_def ledger_def)
  with cl mk u0 have "client_made E ?i ?pl w c cq w2"
    by (simp add: client_made_def fun_eq_iff ledger_def regions_kept_def)
  moreover have listen: "on_listener (getEventContext E) (k, w) = Some (Ok ?ctx, (k, w))"
    "on_listener getEventId (k, w') = Some (Ok ?i, (k, w'))"
    "on_listener this_get (k, w') = Some (Ok l, (k, w'))" "the_domain (k, w') = Some (Ok (pd_ptr d), (k, w'))" for w'
    using assms(2,3,6) by (simp_all add: on_listener_run getEventContext_def getEventId_def through_event_def the_domain_def run_simps)
  have "connect_request E U (k, w0) = thenM (finallyM (add_client E U ?p)
      (thenM (on_world (drop_client E ?p)) (on_world (drop_cq E ?q)))) (returnM True) (k, w2)"
    using assms(5) listen mk(1) cl(1) assms(4) by (simp add: connect_request_def catchM_run)
  ultimately show ?thesis by blast
qed

text \<open>With enough blocks in the pool the client joins the others.\<close>

lemma request_joins:
  fixes w :: "'a cworld_scheme" and k :: "'a cworld_scheme controller"
  assumes "accepting E (ev_id ev) q" and "map_laws U" and "distinct (map fst (clients k))"
    and "map_of (clients k) q = None" and "rdmaListener k = Some l" and "event l = Some ev" and "srq l = 0"
    and "pre_connection E (k, w0) = Some (Ok (), (k, w))" and "protectionDomain k = Some d" and "uses_ok w"
    and "clients_hungry E (ctl_pool k) (clients k) w" and "ctl_pool k \<noteq> 0"
    and "heap_get (pools w) (ctl_pool k) = Some mp" and "mp_inv (mp, w)"
    and "(\<Sum>x\<leftarrow>clients k. missing (client_of w x)) + 32 \<le> length (free_list (small mp))"
  shows "\<exists>w' c mp' t. connect_request E U (k, w0) =
      Some (Ok True, (k\<lparr>clients := map_insert U q (Suc (length (client_objs w))) (clients k)\<rparr>, w')) \<and>
    client_joined E (ev_id ev) k w mp w' c mp' \<and> receives_joined E (ev_id ev) k w mp w' mp' \<and>
    trace w' = (Conn (Rdma_accept (ev_id ev) accept_param), R_int 0) # t"
proof -
  let ?q = "Suc (length (cqs w))" and ?p = "Suc (length (client_objs w))"
  let ?k = "k\<lparr>clients := map_insert U q ?p (clients k)\<rparr>"
  from request_makes [OF assms(1,5-10,12)] obtain c cq w2 where
    made: "client_made E (ev_id ev) (ctl_pool k) w c cq w2" and run: "connect_request E U (k, w0) =
    thenM (finallyM (add_client E U ?p) (thenM (on_world (drop_client E ?p)) (on_world (drop_cq E ?q)))) (returnM True) (k, w2)"
    by blast
  have mp: "heap_get (pools w2) (ctl_pool k) = Some mp" "mp_inv (mp, w2)"
    using mp_inv_kept [OF assms(14)] assms(13) made by (simp_all add: client_made_def)
  from add_client_joined [OF assms(1-4,11) mp assms(15), of c cq] made
  obtain w3 w4 c' mp' t where add:
    "add_client E U ?p (k, w2) = Some (Ok (), (?k, w3))"
    "uses w3 (Client_ref ?p) = 2" "uses w3 (CQ_ref ?q) = 2" "w4 = w3\<lparr>uses := (uses w3)(Client_ref ?p := 1, CQ_ref ?q := 1)\<rparr>"
    "client_joined E (ev_id ev) k w mp w4 c' mp'" "receives_joined E (ev_id ev) k w mp w4 mp'" "trace w4 = (Conn (Rdma_accept (ev_id ev) accept_param), R_int 0) # t"
    by (auto simp: client_made_def)
  have "thenM (on_world (drop_client E ?p)) (on_world (drop_cq E ?q)) (?k, w3) = Some (Ok (), (?k, w4))"
    using add(2-4) drop_both [of ?p ?q w3 E ?k] by simp
  with add(1) run have "connect_request E U (k, w0) = Some (Ok True, (?k, w4))" by (simp add: finallyM_run)
  with add(5-7) show ?thesis by blast
qed

text \<open>With too few it never returns.\<close>

lemma request_hangs:
  fixes w :: "'a cworld_scheme" and k :: "'a cworld_scheme controller"
  assumes "accepting E (ev_id ev) q" and "map_laws U" and "distinct (map fst (clients k))"
    and "map_of (clients k) q = None" and "rdmaListener k = Some l" and "event l = Some ev" and "srq l = 0"
    and "pre_connection E (k, w0) = Some (Ok (), (k, w))" and "protectionDomain k = Some d" and "uses_ok w"
    and "clients_hungry E (ctl_pool k) (clients k) w" and "ctl_pool k \<noteq> 0"
    and "heap_get (pools w) (ctl_pool k) = Some mp" and "mp_inv (mp, w)"
    and "length (free_list (small mp)) < (\<Sum>x\<leftarrow>clients k. missing (client_of w x)) + 32"
  shows "connect_request E U (k, w0) = None"
proof -
  let ?p = "Suc (length (client_objs w))"
  let ?m = "map_insert U q ?p (clients k)"
  from request_makes [OF assms(1,5-10,12)] obtain c cq w2 where
    made: "client_made E (ev_id ev) (ctl_pool k) w c cq w2" and run: "connect_request E U (k, w0) =
    thenM (finallyM (add_client E U ?p) (thenM (on_world (drop_client E ?p))
      (on_world (drop_cq E (Suc (length (cqs w))))))) (returnM True) (k, w2)" by blast
  then have c: "heap_get (client_objs w2) ?p = Some c" "client_objs w2 = heap_new c (client_objs w)" "cmId c = ev_id ev"
    by (simp_all add: client_made_def heap_get_new)
  have "hungry E (ctl_pool k) c"
    using made acceptingD(2,8) [OF assms(1)] by (simp add: client_made_def hungry_def ready_conn_def)
  note h = clients_hungry_insert [OF assms(2-4,11) heap_new_fresh c(2) refl this]
  let ?w1 = "w2\<lparr>uses := (uses w2)(Client_ref ?p := uses w2 (Client_ref ?p) + 1)\<rparr>"
  have qp: "on_client ?p (getQpNum E) w2 = Some (Ok q, w2)"
    using c(3) acceptingD(2) [OF assms(1)] by (intro on_client_read [OF c(1)]) (simp add: getQpNum_run)
  have co: "client_of ?w1 = client_of w2" by (simp add: client_of_def fun_eq_iff)
  have "clients_hungry E (ctl_pool k) ?m ?w1" using h(1) co by (simp add: clients_hungry_def)
  moreover have "mp_inv (mp, w2)" using mp_inv_kept [OF assms(14)] made by (simp add: client_made_def)
  then have "mp_inv (mp, ?w1)" by (rule mp_inv_cong [THEN iffD1, rotated]) simp
  moreover have "heap_get (pools ?w1) (ctl_pool k) = Some mp" using made assms(13) by (simp add: client_made_def)
  moreover have "missing c = 32" using made by (simp add: client_made_def missing_def)
  ultimately have "refill_clients E ?m ?w1 = None"
    using refill_clients_exact' [of E "ctl_pool k" ?m ?w1 mp] assms(15) h(2) co by (simp split: if_splits)
  moreover have "client_insert U q ?p (k, w2) = Some (Ok (), (k\<lparr>clients := ?m\<rparr>, ?w1))"
    using assms(4) by (simp add: client_insert_def share_def)
  ultimately have "add_client E U ?p (k, w2) = None"
    using qp by (simp add: add_client_def refill_client_receives_def)
  with run show ?thesis by (simp add: finallyM_run)
qed

lemma request_served:
  fixes w :: "'a cworld_scheme" and k :: "'a cworld_scheme controller"
  assumes "accepting E (ev_id ev) q" and "map_laws U" and "distinct (map fst (clients k))"
    and "map_of (clients k) q = None" and "rdmaListener k = Some l" and "event l = Some ev" and "srq l = 0"
    and "pre_connection E (k, w0) = Some (Ok (), (k, w))" and "protectionDomain k = Some d" and "uses_ok w"
    and "clients_hungry E (ctl_pool k) (clients k) w" and "ctl_pool k \<noteq> 0"
    and "heap_get (pools w) (ctl_pool k) = Some mp" and "mp_inv (mp, w)"
    and "(\<Sum>x\<leftarrow>clients k. missing (client_of w x)) + 32 \<le> length (free_list (small mp))"
  shows "\<exists>k' w' p c t. connect_request E U (k, w0) = Some (Ok True, (k', w')) \<and>
    heap_get (client_objs w) p = None \<and> heap_get (client_objs w') p = Some c \<and>
    map_of (clients k') = (map_of (clients k))(q \<mapsto> p) \<and> cmId c = ev_id ev \<and> memoryPool c = ctl_pool k \<and>
    (\<forall>x \<in> insert (q, p) (set (clients k)). getNumReceives (client_of w' x) = 32) \<and>
    uses w' (Client_ref p) = 1 \<and> uses w' (CQ_ref (client_completionQ c)) = 1 \<and>
    trace w' = (Conn (Rdma_accept (ev_id ev) accept_param), R_int 0) # t"
proof -
  let ?p = "Suc (length (client_objs w))"
  let ?k = "k\<lparr>clients := map_insert U q ?p (clients k)\<rparr>"
  from request_joins [OF assms] obtain w' c mp' t where
    run: "connect_request E U (k, w0) = Some (Ok True, (?k, w'))" and j: "client_joined E (ev_id ev) k w mp w' c mp'"
    and tr: "trace w' = (Conn (Rdma_accept (ev_id ev) accept_param), R_int 0) # t" by blast
  have "map_of (clients ?k) = (map_of (clients k))(q \<mapsto> ?p)" using map_insert_new [OF assms(2-4)] by simp
  moreover from j have "\<forall>x \<in> insert (q, ?p) (set (clients k)). getNumReceives (client_of w' x) = 32"
    by (simp add: client_joined_def Let_def clients_refilled_def) (simp add: client_of_def)
  ultimately show ?thesis using run j tr
    by (intro exI [of _ ?k] exI [of _ w'] exI [of _ ?p] exI [of _ c] exI [of _ t])
       (simp add: client_joined_def Let_def hungry_def)
qed

text \<open>C5: A connection request of a new queue pair, on a device that can serve it and with enough
  blocks in the shared pool, makes one new client: the map gains exactly its entry, it and
  every other client have their 32 receives posted, the connection is accepted after that, and
  the new client and its completion queue are each held exactly once when the request is done.\<close>

theorem request_accepted:
  fixes w :: "'a cworld_scheme" and k :: "'a cworld_scheme controller"
  assumes "accepting E (ev_id ev) q" and "map_laws U" and "distinct (map fst (clients k))"
    and "map_of (clients k) q = None" and "rdmaListener k = Some l" and "event l = Some ev" and "srq l = 0"
    and "preConnectionFunction k = None" and "protectionDomain k = Some d" and "uses_ok w"
    and "clients_hungry E (ctl_pool k) (clients k) w" and "ctl_pool k \<noteq> 0"
    and "heap_get (pools w) (ctl_pool k) = Some mp" and "mp_inv (mp, w)"
    and "(\<Sum>x\<leftarrow>clients k. missing (client_of w x)) + 32 \<le> length (free_list (small mp))"
  shows "\<exists>k' w' p c t. connect_request E U (k, w) = Some (Ok True, (k', w')) \<and>
    heap_get (client_objs w) p = None \<and> heap_get (client_objs w') p = Some c \<and>
    map_of (clients k') = (map_of (clients k))(q \<mapsto> p) \<and> cmId c = ev_id ev \<and> memoryPool c = ctl_pool k \<and>
    (\<forall>x \<in> insert (q, p) (set (clients k)). getNumReceives (client_of w' x) = 32) \<and>
    uses w' (Client_ref p) = 1 \<and> uses w' (CQ_ref (client_completionQ c)) = 1 \<and>
    trace w' = (Conn (Rdma_accept (ev_id ev) accept_param), R_int 0) # t"
proof -
  have "pre_connection E (k, w) = Some (Ok (), (k, w))" using assms(8) by (simp add: pre_connection_def)
  from request_served [OF assms(1-7) this assms(9-15)] show ?thesis .
qed

text \<open>The first client of a controller with a new pool.\<close>

definition ctl_ready :: "cworld controller" where
  "ctl_ready = (ctl_1 RDMA_CM_EVENT_CONNECT_REQUEST)\<lparr>clients := [], ctl_pool := 1,
     protectionDomain := Some \<lparr>pd_ptr = 70\<rparr>\<rparr>"

definition pool_world :: cworld where
  "pool_world = init_cworld\<lparr>regions := regions (snd fresh_pool), pools := [Some (fst fresh_pool)]\<rparr>"

lemma pool_world_facts:
  obtains mp where "heap_get (pools pool_world) 1 = Some mp" "mp_inv (mp, pool_world)"
    "length (free_list (small mp)) = 64"
proof -
  obtain mp w where f: "fresh_pool = (mp, w)" "mp_inv (mp, w)"
    "\<forall>c. length (free_list (container c mp)) = count_of c" by (rule fresh_pool_facts)
  have "regions w = regions pool_world" by (simp add: pool_world_def f(1))
  then have "mp_inv (mp, pool_world)" using f(2) mp_inv_cong by metis
  moreover have "heap_get (pools pool_world) 1 = Some mp" by (simp add: pool_world_def f(1) heap_get_def)
  ultimately show thesis using that f(3) [rule_format, of Small] by simp
qed

lemma accepting_ok: "accepting env_ok i 17"
  unfolding accepting_def by (simp add: env_ok_def MAP_FAILED_def)

theorem request_accepted_witness:
  "\<exists>k' w' p. connect_request env_ok list_map (ctl_ready, pool_world) = Some (Ok True, (k', w')) \<and>
     map_of (clients k') = [17 \<mapsto> p] \<and> getNumReceives (client_of w' (17, p)) = 32"
proof -
  obtain mp where mp: "heap_get (pools pool_world) 1 = Some mp" "mp_inv (mp, pool_world)"
    and small: "length (free_list (small mp)) = 64" by (rule pool_world_facts)
  have k: "clients ctl_ready = []" "ctl_pool ctl_ready = 1" "preConnectionFunction ctl_ready = None"
    "rdmaListener ctl_ready = Some (listener_1 RDMA_CM_EVENT_CONNECT_REQUEST)"
    "protectionDomain ctl_ready = Some \<lparr>pd_ptr = 70\<rparr>"
    "srq (listener_1 RDMA_CM_EVENT_CONNECT_REQUEST) = 0"
    by (simp_all add: ctl_ready_def ctl_1_def RdmaController_def listener_1_def)
  have "uses_ok pool_world" by (simp add: uses_ok_def pool_world_def)
  from request_accepted [OF accepting_ok list_map_laws _ _ k(4) _ k(6,3,5) this, of "event_1 RDMA_CM_EVENT_CONNECT_REQUEST" mp]
  obtain k' w' p where "connect_request env_ok list_map (ctl_ready, pool_world) = Some (Ok True, (k', w'))"
    "map_of (clients k') = [17 \<mapsto> p]" "getNumReceives (client_of w' (17, p)) = 32"
    using k mp small by (auto simp: clients_hungry_def)
  then show ?thesis by blast
qed



end
