(* ===== verification/ClientSession.thy ===== *)
theory ClientSession
  imports ClientAccept
begin

text \<open>
  A whole session of a server: connection requests, established connections and disconnects in
  any order that the connection manager can report.  An invariant of the controller and its
  world is kept by every event, an abstract server says what each event does to it, and the
  consequences of both for the lifetime of a server are drawn.
\<close>

section \<open>The invariant of the clients\<close>

definition cq_of :: "'a cworld_scheme \<Rightarrow> u32 \<times> ptr \<Rightarrow> ptr" where
  "cq_of w x = client_completionQ (client_of w x)"

definition regions_of :: "'a cworld_scheme \<Rightarrow> u32 \<times> ptr \<Rightarrow> ptr set" where
  "regions_of w x = {inMessageRegion (client_of w x), outMessageRegion (client_of w x)}"

definition held_mrs :: "'a cworld_scheme \<Rightarrow> u32 \<times> ptr \<Rightarrow> ibv_mr multiset" where
  "held_mrs w x = mrp w (inMessageRegion (client_of w x)) + mrp w (outMessageRegion (client_of w x))"

definition held_maps :: "'a cworld_scheme \<Rightarrow> u32 \<times> ptr \<Rightarrow> (u64 \<times> u64) multiset" where
  "held_maps w x = fp w (inMessageRegion (client_of w x)) + fp w (outMessageRegion (client_of w x))"

text \<open>One entry of the map: its client, regions and queue are there, and the map alone holds them.\<close>

definition entry_ok :: "env \<Rightarrow> (u64 \<Rightarrow> u32) \<Rightarrow> ptr \<Rightarrow> 'a cworld_scheme \<Rightarrow> u32 \<times> ptr \<Rightarrow> bool" where
  "entry_ok E qn pl w x \<longleftrightarrow> (\<exists>c cq. heap_get (client_objs w) (snd x) = Some c \<and> hungry E pl c \<and>
     inMessageRegion c \<noteq> 0 \<and> outMessageRegion c \<noteq> 0 \<and> inMessageRegion c \<noteq> outMessageRegion c \<and>
     region_ptr_ok w (inMessageRegion c) \<and> region_ptr_ok w (outMessageRegion c) \<and>
     heap_get (cqs w) (client_completionQ c) = Some cq \<and> completionQ cq \<noteq> 0 \<and>
     cmId c \<noteq> 0 \<and> qn (cmId c) = fst x \<and>
     uses w (Client_ref (snd x)) = 1 \<and> uses w (CQ_ref (client_completionQ c)) = 1)"

text \<open>No two clients share an object, a queue or a region, and none has a block of the pool.\<close>

definition apart :: "(u32 \<times> ptr) set \<Rightarrow> 'a cworld_scheme \<Rightarrow> memory_pool \<Rightarrow> bool" where
  "apart S w mp \<longleftrightarrow> inj_on snd S \<and> inj_on (cq_of w) S \<and>
     (\<forall>x \<in> S. \<forall>y \<in> S. x \<noteq> y \<longrightarrow> regions_of w x \<inter> regions_of w y = {}) \<and>
     (\<forall>x \<in> S. regions_of w x \<inter> set (all_blocks mp) = {})"

text \<open>There is nothing but what the entries lead to.\<close>

definition no_garbage :: "ptr \<Rightarrow> (u32 \<times> ptr) set \<Rightarrow> 'a cworld_scheme \<Rightarrow> bool" where
  "no_garbage pl S w \<longleftrightarrow> heap_live (client_objs w) = snd ` S \<and> heap_live (cqs w) = cq_of w ` S \<and>
     uses_ok w \<and> uses w (Pool_ref pl) = Suc (card S)"

text \<open>The books: \<open>B\<close> is what is held without the clients.\<close>

definition books_ok :: "books \<Rightarrow> (u32 \<times> ptr) set \<Rightarrow> 'a cworld_scheme \<Rightarrow> bool" where
  "books_ok B S w \<longleftrightarrow> ledger (trace w) =
     (fst B, fst (snd B) + (\<Sum>x\<in>S. held_mrs w x), snd (snd B) + (\<Sum>x\<in>S. held_maps w x))"

definition clients_inv ::
    "env \<Rightarrow> (u64 \<Rightarrow> u32) \<Rightarrow> ptr \<Rightarrow> books \<Rightarrow> (u32 \<times> ptr) set \<Rightarrow> 'a cworld_scheme \<Rightarrow> memory_pool \<Rightarrow> bool" where
  "clients_inv E qn pl B S w mp \<longleftrightarrow> finite S \<and> (\<forall>x \<in> S. entry_ok E qn pl w x) \<and> apart S w mp \<and>
     no_garbage pl S w \<and> books_ok B S w \<and> heap_get (pools w) pl = Some mp \<and> mp_inv (mp, w)"

lemma clients_invD:
  assumes "clients_inv E qn pl B S w mp"
  shows "finite S" "x \<in> S \<Longrightarrow> entry_ok E qn pl w x" "apart S w mp" "no_garbage pl S w" "books_ok B S w"
    "heap_get (pools w) pl = Some mp" "mp_inv (mp, w)"
  using assms by (simp_all add: clients_inv_def)

lemma entry_okE:
  assumes "entry_ok E qn pl w x"
  obtains c cq where "heap_get (client_objs w) (snd x) = Some c" "client_of w x = c" "hungry E pl c"
    "inMessageRegion c \<noteq> 0" "outMessageRegion c \<noteq> 0" "inMessageRegion c \<noteq> outMessageRegion c"
    "region_ptr_ok w (inMessageRegion c)" "region_ptr_ok w (outMessageRegion c)"
    "heap_get (cqs w) (client_completionQ c) = Some cq" "completionQ cq \<noteq> 0" "cmId c \<noteq> 0" "qn (cmId c) = fst x"
    "uses w (Client_ref (snd x)) = 1" "uses w (CQ_ref (client_completionQ c)) = 1"
  using assms by (auto simp: entry_ok_def client_of_def)

lemma entry_ok_client:
  "entry_ok E qn pl w x \<longleftrightarrow> (let c = client_of w x in heap_get (client_objs w) (snd x) = Some c \<and> hungry E pl c \<and>
     inMessageRegion c \<noteq> 0 \<and> outMessageRegion c \<noteq> 0 \<and> inMessageRegion c \<noteq> outMessageRegion c \<and>
     region_ptr_ok w (inMessageRegion c) \<and> region_ptr_ok w (outMessageRegion c) \<and>
     (\<exists>cq. heap_get (cqs w) (cq_of w x) = Some cq \<and> completionQ cq \<noteq> 0) \<and> cmId c \<noteq> 0 \<and> qn (cmId c) = fst x \<and>
     uses w (Client_ref (snd x)) = 1 \<and> uses w (CQ_ref (cq_of w x)) = 1)"
  by (auto simp: entry_ok_def cq_of_def client_of_def Let_def)

lemma region_ptr_shape: "region_ptr_ok w p \<Longrightarrow> p \<noteq> 0 \<Longrightarrow> shape w p \<noteq> None"
  by (auto simp: region_ptr_ok_def shape_def)

lemma block_shape: "mp_inv (mp, w) \<Longrightarrow> p \<in> set (all_blocks mp) \<Longrightarrow> shape w p \<noteq> None"
  using mp_invD(3) by (fastforce simp: set_all_blocks block_at_def shape_def)

lemma regions_of_shape: "entry_ok E qn pl w x \<Longrightarrow> r \<in> regions_of w x \<Longrightarrow> shape w r \<noteq> None"
  by (auto elim!: entry_okE simp: regions_of_def dest: region_ptr_shape)

section \<open>Worlds with the same clients\<close>

text \<open>Nothing the clients depend on has changed.\<close>

definition same_session :: "'a cworld_scheme \<Rightarrow> 'a cworld_scheme \<Rightarrow> bool" where
  "same_session w w' \<longleftrightarrow> client_objs w' = client_objs w \<and> cqs w' = cqs w \<and> uses w' = uses w \<and>
     pools w' = pools w \<and> shape w' = shape w \<and> ledger (trace w') = ledger (trace w) \<and>
     traffic (trace w') = traffic (trace w)"

lemma same_session_refl [simp]: "same_session w w"
  by (simp add: same_session_def)

lemma same_session_trans: "same_session w w1 \<Longrightarrow> same_session w1 w2 \<Longrightarrow> same_session w w2"
  by (simp add: same_session_def)

lemma client_of_cong: "client_objs w' = client_objs w \<Longrightarrow> client_of w' = client_of w"
  by (simp add: client_of_def fun_eq_iff)

lemma clients_inv_transfer:
  assumes "clients_inv E qn pl B S w mp"
    and "client_objs w' = client_objs w" "cqs w' = cqs w" "uses w' = uses w" "pools w' = pools w" "shape w' = shape w"
    and "ledger (trace w') = (fst B', snd (ledger (trace w)))" "snd B' = snd B"
  shows "clients_inv E qn pl B' S w' mp"
proof -
  note co = client_of_cong [OF assms(2)]
  have sh: "mrp w' = mrp w" "fp w' = fp w" "region_ptr_ok w' = region_ptr_ok w"
    using assms(6) shape_cong [of w' _ w] by (simp_all add: fun_eq_iff)
  have "mp_inv (mp, w')" by (rule mp_inv_shape [OF clients_invD(7) [OF assms(1)]]) (simp add: assms(6))
  then show ?thesis
    using assms co sh
    by (auto simp: clients_inv_def entry_ok_def apart_def no_garbage_def books_ok_def uses_ok_def cq_of_def regions_of_def
        held_mrs_def held_maps_def inj_on_def)
qed

lemma clients_inv_same:
  "clients_inv E qn pl B S w mp \<Longrightarrow> same_session w w' \<Longrightarrow> clients_inv E qn pl B S w' mp"
  by (rule clients_inv_transfer [where w = w and B = B])
     (simp_all add: same_session_def clients_inv_def books_ok_def)

section \<open>A client joins\<close>

text \<open>What the other clients are made of stays.\<close>

lemma joined_old:
  assumes "client_joined E i k w mp w' c mp'" and "x \<in> set (clients k)"
  shows "heap_get (client_objs w') (snd x) = Some (client_of w' x)" "hungry E (ctl_pool k) (client_of w' x)"
    "cmId (client_of w' x) = cmId (client_of w x)" "cq_of w' x = cq_of w x" "regions_of w' x = regions_of w x"
    "inMessageRegion (client_of w' x) = inMessageRegion (client_of w x)"
    "outMessageRegion (client_of w' x) = outMessageRegion (client_of w x)" "missing (client_of w' x) = 0"
proof -
  from assms have r: "heap_get (client_objs w') (snd x) \<noteq> None" "conn_core (client_of w' x) = conn_core (client_of w x)"
    "hungry E (ctl_pool k) (client_of w' x)" "missing (client_of w' x) = 0"
    by (auto simp: client_joined_def Let_def clients_refilled_def)
  then show "heap_get (client_objs w') (snd x) = Some (client_of w' x)" "hungry E (ctl_pool k) (client_of w' x)"
    "missing (client_of w' x) = 0" by (auto simp: client_of_def)
  from conn_core_fields [OF r(2)] have m: "cmId (client_of w' x) = cmId (client_of w x)"
    "connection.more (client_of w' x) = connection.more (client_of w x)" by blast+
  then show "cmId (client_of w' x) = cmId (client_of w x)" "cq_of w' x = cq_of w x" "regions_of w' x = regions_of w x"
    "inMessageRegion (client_of w' x) = inMessageRegion (client_of w x)"
    "outMessageRegion (client_of w' x) = outMessageRegion (client_of w x)"
    by (cases "client_of w' x"; cases "client_of w x"; simp add: cq_of_def regions_of_def)+
qed

lemma joined_shape:
  assumes "client_joined E i k w mp w' c mp'" and "fair_env E"
  shows "shapes_plus w [inMessageRegion c, outMessageRegion c] w'"
  using assms by (simp add: client_joined_def Let_def)

text \<open>The regions of the others, and the blocks of the pool, are not the new ones.\<close>

lemma joined_shape_old:
  assumes "client_joined E i k w mp w' c mp'" and "fair_env E" and "shape w r \<noteq> None"
  shows "shape w' r = shape w r" "r \<noteq> inMessageRegion c" "r \<noteq> outMessageRegion c"
proof -
  note plus = joined_shape [OF assms(1,2), unfolded shapes_plus_def]
  from plus assms(3) show ne: "r \<noteq> inMessageRegion c" "r \<noteq> outMessageRegion c" by auto
  with plus show "shape w' r = shape w r" by simp
qed

lemma joined_new:
  assumes "client_joined E i k w mp w' c mp'" and "fair_env E"
  defines "p \<equiv> Suc (length (client_objs w))"
  shows "heap_get (client_objs w') p = Some c" "client_of w' (q, p) = c" "hungry E (ctl_pool k) c" "cmId c = i"
    "client_completionQ c = Suc (length (cqs w))" "missing c = 0"
    "inMessageRegion c \<noteq> 0" "outMessageRegion c \<noteq> 0" "inMessageRegion c \<noteq> outMessageRegion c"
    "region_ptr_ok w' (inMessageRegion c)" "region_ptr_ok w' (outMessageRegion c)"
    "shape w (inMessageRegion c) = None" "shape w (outMessageRegion c) = None"
  using assms(1) joined_shape [OF assms(1,2)]
  by (simp_all add: client_joined_def Let_def p_def client_of_def shapes_plus_def)

lemma joined_uses:
  assumes "client_joined E i k w mp w' c mp'"
  shows "uses w' = (uses w)(Client_ref (Suc (length (client_objs w))) := 1, CQ_ref (Suc (length (cqs w))) := 1,
    Pool_ref (ctl_pool k) := uses w (Pool_ref (ctl_pool k)) + 1)"
    "\<exists>cq. cqs w' = heap_new cq (cqs w) \<and> completionQ cq \<noteq> 0"
  using assms by (simp_all add: client_joined_def Let_def)

lemma joined_entries:
  assumes "client_joined E i k w mp w' c mp'" and "fair_env E" and "\<forall>x \<in> set (clients k). entry_ok E qn (ctl_pool k) w x"
    and "qn i = q" and "i \<noteq> 0"
  shows "\<forall>x \<in> insert (q, Suc (length (client_objs w))) (set (clients k)). entry_ok E qn (ctl_pool k) w' x"
proof
  fix x
  assume x: "x \<in> insert (q, Suc (length (client_objs w))) (set (clients k))"
  note u = joined_uses(1) [OF assms(1)]
  obtain cq where cq: "cqs w' = heap_new cq (cqs w)" "completionQ cq \<noteq> 0" using joined_uses(2) [OF assms(1)] by blast
  show "entry_ok E qn (ctl_pool k) w' x"
  proof (cases "x \<in> set (clients k)")
    case True
    note o = joined_old [OF assms(1) True]
    from assms(3) True obtain cx qx where h: "heap_get (client_objs w) (snd x) = Some cx" "client_of w x = cx"
      "inMessageRegion cx \<noteq> 0" "outMessageRegion cx \<noteq> 0" "inMessageRegion cx \<noteq> outMessageRegion cx"
      "region_ptr_ok w (inMessageRegion cx)" "region_ptr_ok w (outMessageRegion cx)"
      "heap_get (cqs w) (client_completionQ cx) = Some qx" "completionQ qx \<noteq> 0" "cmId cx \<noteq> 0" "qn (cmId cx) = fst x"
      "uses w (Client_ref (snd x)) = 1" "uses w (CQ_ref (client_completionQ cx)) = 1"
      by (blast elim: entry_okE)
    have "region_ptr_ok w' r" if "region_ptr_ok w r" "r \<noteq> 0" for r
      using shape_cong(3) [OF joined_shape_old(1) [OF assms(1,2) region_ptr_shape [OF that]]] that(1) by simp
    then have "region_ptr_ok w' (inMessageRegion cx)" "region_ptr_ok w' (outMessageRegion cx)" using h(3,4,6,7) by blast+
    moreover have "snd x \<noteq> Suc (length (client_objs w))" using h(1) by auto
    moreover have "client_completionQ cx \<noteq> Suc (length (cqs w))" using h(8) by auto
    moreover have "client_completionQ (client_of w' x) = client_completionQ cx" using o(4) h(2) by (simp add: cq_of_def)
    ultimately show ?thesis using h(2-5,8-13) o(1-3,6,7) u cq(1)
      unfolding entry_ok_def by (intro exI [of _ "client_of w' x"] exI [of _ qx]) (simp add: heap_get_new)
  next
    case False
    with x have "x = (q, Suc (length (client_objs w)))" by simp
    with joined_new [OF assms(1,2)] u cq assms(4,5) show ?thesis
      unfolding entry_ok_def by (intro exI [of _ c] exI [of _ cq]) (simp add: heap_get_new)
  qed
qed

lemma joined_apart:
  assumes "client_joined E i k w mp w' c mp'" and "fair_env E" and "clients_inv E qn (ctl_pool k) B (set (clients k)) w mp"
  shows "apart (insert (q, Suc (length (client_objs w))) (set (clients k))) w' mp'"
proof -
  let ?x = "(q, Suc (length (client_objs w)))" and ?S = "set (clients k)"
  note inv = clients_invD [OF assms(3)]
  note new = joined_new [OF assms(1,2)]
  have rx: "regions_of w' ?x = {inMessageRegion c, outMessageRegion c}" "cq_of w' ?x = Suc (length (cqs w))"
    using new(2,5) by (simp_all add: regions_of_def cq_of_def)
  have same: "regions_of w' y = regions_of w y" "cq_of w' y = cq_of w y" if "y \<in> ?S" for y
    using joined_old [OF assms(1) that] by simp_all
  have fresh: "snd y \<noteq> snd ?x" "cq_of w' y \<noteq> cq_of w' ?x" "regions_of w' y \<inter> regions_of w' ?x = {}" if "y \<in> ?S" for y
  proof -
    note e = inv(2) [OF that]
    from e show "snd y \<noteq> snd ?x" by (auto elim!: entry_okE)
    from e same(2) [OF that] rx(2) show "cq_of w' y \<noteq> cq_of w' ?x" by (auto elim!: entry_okE simp: cq_of_def)
    show "regions_of w' y \<inter> regions_of w' ?x = {}"
      using joined_shape_old [OF assms(1,2) regions_of_shape [OF e]] same(1) [OF that] rx(1) by auto
  qed
  have "inj_on snd ?S" "inj_on (cq_of w') ?S"
    using inv(3) same(2) by (simp_all add: apart_def inj_on_def)
  moreover have "snd ?x \<notin> snd ` ?S" "cq_of w' ?x \<notin> cq_of w' ` ?S" by (metis imageE fresh(1)) (metis imageE fresh(2))
  ultimately have "inj_on snd (insert ?x ?S)" "inj_on (cq_of w') (insert ?x ?S)"
    by (blast intro: inj_on_insert [THEN iffD2])+
  moreover have "all_blocks mp' = all_blocks mp" using assms(1) by (simp add: client_joined_def Let_def)
  moreover have "regions_of w' ?x \<inter> set (all_blocks mp) = {}"
    using joined_shape_old [OF assms(1,2) block_shape [OF inv(7)]] rx(1) by auto
  moreover have "\<forall>y \<in> insert ?x ?S. \<forall>z \<in> insert ?x ?S. y \<noteq> z \<longrightarrow> regions_of w' y \<inter> regions_of w' z = {}"
    using inv(3) fresh(3) same(1) unfolding apart_def by (metis inf_commute insert_iff)
  ultimately show ?thesis using inv(3) same(1) by (auto simp: apart_def)
qed

lemma joined_garbage:
  assumes "client_joined E i k w mp w' c mp'" and "fair_env E" and "clients_inv E qn (ctl_pool k) B (set (clients k)) w mp"
  shows "no_garbage (ctl_pool k) (insert (q, Suc (length (client_objs w))) (set (clients k))) w'"
proof -
  let ?p = "Suc (length (client_objs w))" and ?r = "Suc (length (cqs w))" and ?S = "set (clients k)"
  note inv = clients_invD [OF assms(3)]
  note new = joined_new [OF assms(1,2)]
  note u = joined_uses(1) [OF assms(1)]
  from inv(4) have g: "heap_live (client_objs w) = snd ` ?S" "heap_live (cqs w) = cq_of w ` ?S" "uses_ok w"
    "uses w (Pool_ref (ctl_pool k)) = Suc (card ?S)" by (simp_all add: no_garbage_def)
  obtain cq where cq: "cqs w' = heap_new cq (cqs w)" using joined_uses(2) [OF assms(1)] by blast
  have others: "heap_get (client_objs w') x = heap_get (client_objs w) x" if "x \<noteq> ?p" "x \<notin> snd ` ?S" for x
    using assms(1) that by (simp add: client_joined_def Let_def)
  have p: "?p \<notin> snd ` ?S" using g(1) heap_live_fresh by metis
  then have nin: "(q, ?p) \<notin> ?S" by force
  have live: "x \<in> heap_live (client_objs w') \<longleftrightarrow> x = ?p \<or> x \<in> snd ` ?S" for x
  proof (cases "x = ?p \<or> x \<in> snd ` ?S")
    case True
    with new(1) joined_old(1) [OF assms(1)] show ?thesis by (auto simp: heap_live_def)
  next
    case False
    with others [of x] g(1) show ?thesis by (auto simp: heap_live_def)
  qed
  have cqs: "heap_live (cqs w') = insert ?r (cq_of w ` ?S)" using cq g(2) by (simp add: heap_live_new)
  have "cq_of w' ` ?S = cq_of w ` ?S" using joined_old(4) [OF assms(1)] by (auto simp: image_iff)
  then have "heap_live (cqs w') = cq_of w' ` insert (q, ?p) ?S" using cqs new(2,5) by (simp add: cq_of_def)
  moreover have "heap_live (client_objs w') = snd ` insert (q, ?p) ?S" using live by auto
  moreover have "uses_ok w'"
  proof -
    have "uses w' (Client_ref x) = 0" if "heap_get (client_objs w') x = None" for x
    proof -
      have "x \<notin> heap_live (client_objs w')" using that by (simp add: heap_live_def)
      then have x: "x \<noteq> ?p" "x \<notin> snd ` ?S" using live by simp_all
      with others [of x] that have "heap_get (client_objs w) x = None" by simp
      with g(3) u x(1) show ?thesis by (simp add: uses_ok_def)
    qed
    moreover have "uses w' (CQ_ref x) = 0" if "heap_get (cqs w') x = None" for x
      using that cq g(3) u by (auto simp: uses_ok_def heap_get_new split: if_splits)
    ultimately show ?thesis by (simp add: uses_ok_def)
  qed
  moreover have "uses w' (Pool_ref (ctl_pool k)) = Suc (card (insert (q, ?p) ?S))"
    using u g(4) nin by simp
  ultimately show ?thesis by (simp add: no_garbage_def)
qed

lemma joined_books:
  assumes "client_joined E i k w mp w' c mp'" and "fair_env E" and "clients_inv E qn (ctl_pool k) B (set (clients k)) w mp"
    and "(q, Suc (length (client_objs w))) \<notin> set (clients k)"
  shows "books_ok B (insert (q, Suc (length (client_objs w))) (set (clients k))) w'"
proof -
  let ?x = "(q, Suc (length (client_objs w)))" and ?S = "set (clients k)"
  note inv = clients_invD [OF assms(3)]
  note new = joined_new [OF assms(1,2)]
  have "held_mrs w' y = held_mrs w y \<and> held_maps w' y = held_maps w y" if "y \<in> ?S" for y
  proof -
    have "shape w' r = shape w r" if "r \<in> regions_of w y" for r
      using joined_shape_old(1) [OF assms(1,2) regions_of_shape [OF inv(2)]] \<open>y \<in> ?S\<close> that by blast
    then have "shape w' (inMessageRegion (client_of w y)) = shape w (inMessageRegion (client_of w y))"
      "shape w' (outMessageRegion (client_of w y)) = shape w (outMessageRegion (client_of w y))"
      by (simp_all add: regions_of_def)
    from shape_cong [OF this(1)] shape_cong [OF this(2)] joined_old(6,7) [OF assms(1) that] show ?thesis
      by (simp add: held_mrs_def held_maps_def)
  qed
  then have old: "(\<Sum>y\<in>?S. held_mrs w' y) = (\<Sum>y\<in>?S. held_mrs w y)" "(\<Sum>y\<in>?S. held_maps w' y) = (\<Sum>y\<in>?S. held_maps w y)"
    by simp_all
  have "cm_tally (trace w') = cm_tally (trace w)" using assms(1) by (simp add: client_joined_def Let_def)
  then show ?thesis
    using joined_shape [OF assms(1,2)] inv(5) old assms(4) new(2)
    by (simp add: books_ok_def ledger_def shapes_plus_def held_mrs_def held_maps_def ac_simps)
qed

lemma clients_inv_joined:
  assumes "client_joined E i k w mp w' c mp'" and "fair_env E" and "clients_inv E qn (ctl_pool k) B (set (clients k)) w mp"
    and "qn i = q" and "i \<noteq> 0"
  shows "clients_inv E qn (ctl_pool k) B (insert (q, Suc (length (client_objs w))) (set (clients k))) w' mp'"
proof -
  note inv = clients_invD [OF assms(3)]
  have "Suc (length (client_objs w)) \<notin> snd ` set (clients k)"
    using inv(4) heap_live_fresh unfolding no_garbage_def by metis
  then have "(q, Suc (length (client_objs w))) \<notin> set (clients k)" by force
  moreover have "\<forall>x \<in> set (clients k). entry_ok E qn (ctl_pool k) w x" using inv(2) by blast
  note entries = joined_entries [OF assms(1,2) this assms(4,5)]
  ultimately show ?thesis
    using joined_books [OF assms(1-3)] joined_garbage [OF assms(1-3), of q] joined_apart [OF assms(1-3), of q]
      entries assms(1)
    by (simp add: clients_inv_def client_joined_def Let_def)
qed

section \<open>A client leaves\<close>

text \<open>What the end of the client of the entry \<open>x\<close> leaves of the world \<open>w\<close>.\<close>

definition client_left :: "ptr \<Rightarrow> u32 \<times> ptr \<Rightarrow> 'a cworld_scheme \<Rightarrow> 'a cworld_scheme \<Rightarrow> bool" where
  "client_left pl x w w' \<longleftrightarrow>
     client_objs w' = heap_free (snd x) (client_objs w) \<and> cqs w' = heap_free (cq_of w x) (cqs w) \<and>
     uses w' = (uses w)(Client_ref (snd x) := 0, CQ_ref (cq_of w x) := 0, Pool_ref pl := uses w (Pool_ref pl) - 1) \<and>
     pools w' = pools w \<and>
     (\<forall>r. shape w' r = (if r \<in> regions_of w x then None else shape w r)) \<and>
     live_mrs (trace w') = live_mrs (trace w) - held_mrs w x \<and>
     live_maps (trace w') = live_maps (trace w) - held_maps w x"

lemma left_others:
  assumes "clients_inv E qn pl B S w mp" and "x \<in> S" and "client_left pl x w w'" and "y \<in> S - {x}"
  shows "snd y \<noteq> snd x" "cq_of w y \<noteq> cq_of w x" "client_of w' y = client_of w y"
    "heap_get (client_objs w') (snd y) = heap_get (client_objs w) (snd y)"
    "heap_get (cqs w') (cq_of w y) = heap_get (cqs w) (cq_of w y)"
    "r \<in> regions_of w y \<Longrightarrow> shape w' r = shape w r"
proof -
  note inv = clients_invD [OF assms(1)]
  note l = assms(3) [unfolded client_left_def]
  show ne: "snd y \<noteq> snd x" "cq_of w y \<noteq> cq_of w x"
    using inv(3) assms(2,4) by (auto simp: apart_def inj_on_def)
  have live: "heap_get (client_objs w) (snd x) \<noteq> None" "heap_get (cqs w) (cq_of w x) \<noteq> None"
    using inv(2) [OF assms(2)] by (auto elim!: entry_okE simp: cq_of_def)
  show "heap_get (client_objs w') (snd y) = heap_get (client_objs w) (snd y)"
    using l live ne(1) by (simp add: heap_get_free)
  then show "client_of w' y = client_of w y" by (simp add: client_of_def)
  show "heap_get (cqs w') (cq_of w y) = heap_get (cqs w) (cq_of w y)"
    using l live ne(2) by (simp add: heap_get_free)
  show "shape w' r = shape w r" if "r \<in> regions_of w y"
  proof -
    have "y \<in> S" "y \<noteq> x" using assms(4) by simp_all
    then have "regions_of w y \<inter> regions_of w x = {}" using inv(3) assms(2) unfolding apart_def by blast
    with that l show ?thesis by auto
  qed
qed

lemma left_entries:
  assumes "clients_inv E qn pl B S w mp" and "x \<in> S" and "client_left pl x w w'" and "y \<in> S - {x}"
  shows "entry_ok E qn pl w' y"
proof -
  note o = left_others [OF assms]
  have u: "uses w' (Client_ref (snd y)) = uses w (Client_ref (snd y))" "uses w' (CQ_ref (cq_of w y)) = uses w (CQ_ref (cq_of w y))"
    using assms(3) o(1,2) by (simp_all add: client_left_def)
  have "entry_ok E qn pl w y" using clients_invD(2) [OF assms(1)] assms(4) by blast
  then obtain c cq where h: "heap_get (client_objs w) (snd y) = Some c" "client_of w y = c" "hungry E pl c"
    "inMessageRegion c \<noteq> 0" "outMessageRegion c \<noteq> 0" "inMessageRegion c \<noteq> outMessageRegion c"
    "region_ptr_ok w (inMessageRegion c)" "region_ptr_ok w (outMessageRegion c)"
    "heap_get (cqs w) (client_completionQ c) = Some cq" "completionQ cq \<noteq> 0" "cmId c \<noteq> 0" "qn (cmId c) = fst y"
    "uses w (Client_ref (snd y)) = 1" "uses w (CQ_ref (client_completionQ c)) = 1" by (rule entry_okE)
  have "region_ptr_ok w' (inMessageRegion c)" "region_ptr_ok w' (outMessageRegion c)"
    using shape_cong(3) [OF o(6)] h(2,7,8) by (simp_all add: regions_of_def)
  with h o(4,5) u show ?thesis
    unfolding entry_ok_def by (intro exI [of _ c] exI [of _ cq]) (simp add: cq_of_def)
qed

lemma left_garbage:
  assumes "clients_inv E qn pl B S w mp" and "x \<in> S" and "client_left pl x w w'"
  shows "no_garbage pl (S - {x}) w'"
proof -
  note inv = clients_invD [OF assms(1)]
  note l = assms(3) [unfolded client_left_def]
  from inv(4) have g: "heap_live (client_objs w) = snd ` S" "heap_live (cqs w) = cq_of w ` S" "uses_ok w"
    "uses w (Pool_ref pl) = Suc (card S)" by (simp_all add: no_garbage_def)
  from inv(3) have inj: "inj_on snd S" "inj_on (cq_of w) S" by (simp_all add: apart_def)
  have live: "heap_get (client_objs w) (snd x) \<noteq> None" "heap_get (cqs w) (cq_of w x) \<noteq> None"
    using inv(2) [OF assms(2)] by (auto elim!: entry_okE simp: cq_of_def)
  have cq: "cq_of w' ` (S - {x}) = cq_of w ` (S - {x})"
    using left_others(3) [OF assms] by (auto simp: cq_of_def)
  have img: "snd ` (S - {x}) = snd ` S - {snd x}" "cq_of w ` (S - {x}) = cq_of w ` S - {cq_of w x}"
    using inj assms(2) by (simp_all add: inj_on_image_set_diff [of _ S])
  have "uses_ok w'"
    using l g(3) live by (auto simp: uses_ok_def heap_get_free split: if_splits)
  moreover obtain n where "card S = Suc n" using inv(1) assms(2) by (metis card_Suc_Diff1)
  ultimately show ?thesis
    using l live g img cq inv(1) assms(2) by (simp add: no_garbage_def heap_live_free)
qed

lemma left_books:
  assumes "clients_inv E qn pl B S w mp" and "x \<in> S" and "client_left pl x w w'"
    and "fst B' = cm_tally (trace w')" "snd B' = snd B"
  shows "books_ok B' (S - {x}) w'"
proof -
  note inv = clients_invD [OF assms(1)]
  note l = assms(3) [unfolded client_left_def]
  have "held_mrs w' y = held_mrs w y \<and> held_maps w' y = held_maps w y" if "y \<in> S - {x}" for y
  proof -
    note o = left_others [OF assms(1-3) that]
    have "shape w' (inMessageRegion (client_of w y)) = shape w (inMessageRegion (client_of w y))"
      "shape w' (outMessageRegion (client_of w y)) = shape w (outMessageRegion (client_of w y))"
      by (rule o(6), simp add: regions_of_def)+
    from shape_cong [OF this(1)] shape_cong [OF this(2)] o(3) show ?thesis by (simp add: held_mrs_def held_maps_def)
  qed
  then have same: "(\<Sum>y\<in>S - {x}. held_mrs w' y) = (\<Sum>y\<in>S - {x}. held_mrs w y)"
    "(\<Sum>y\<in>S - {x}. held_maps w' y) = (\<Sum>y\<in>S - {x}. held_maps w y)" by simp_all
  have "(\<Sum>y\<in>S. held_mrs w y) = held_mrs w x + (\<Sum>y\<in>S - {x}. held_mrs w y)"
    "(\<Sum>y\<in>S. held_maps w y) = held_maps w x + (\<Sum>y\<in>S - {x}. held_maps w y)"
    using inv(1) assms(2) by (simp_all add: sum.remove)
  with inv(5) l same assms(4,5) show ?thesis by (simp add: books_ok_def ledger_def)
qed

lemma clients_inv_left:
  assumes "clients_inv E qn pl B S w mp" and "x \<in> S" and "client_left pl x w w'"
    and "fst B' = cm_tally (trace w')" "snd B' = snd B"
  shows "clients_inv E qn pl B' (S - {x}) w' mp"
proof -
  note inv = clients_invD [OF assms(1)]
  note l = assms(3) [unfolded client_left_def]
  have same: "regions_of w' y = regions_of w y" "cq_of w' y = cq_of w y" if "y \<in> S - {x}" for y
    using left_others(3) [OF assms(1-3) that] by (simp_all add: regions_of_def cq_of_def)
  have "shape w' r = shape w r" if "r \<in> set (all_blocks mp)" for r
  proof -
    have "regions_of w x \<inter> set (all_blocks mp) = {}" using inv(3) assms(2) by (simp add: apart_def)
    with that l show ?thesis by auto
  qed
  then have "mp_inv (mp, w')" by (intro mp_inv_shape [OF inv(7)]) simp
  moreover have "apart (S - {x}) w' mp"
    using inv(3) same by (auto simp: apart_def inj_on_def)
  ultimately show ?thesis
    using left_entries [OF assms(1-3)] left_garbage [OF assms(1-3)] left_books [OF assms] inv(1,6) l
    by (simp add: clients_inv_def)
qed

end
