(* ===== verification/ClientFlight.thy ===== *)
theory ClientFlight
  imports ClientSession
begin

text \<open>
  The receives in flight: what the trace says is posted on the queue pair of a client and not
  yet taken from its completion queue.  They are as many as the client counts, each is a block
  that is out of the pool, and no block is in flight twice.
\<close>

section \<open>The invariant\<close>

definition in_flight :: "'a cworld_scheme \<Rightarrow> u32 \<times> ptr \<Rightarrow> ptr multiset" where
  "in_flight w x = image_mset unat (flights (trace w) (cmId (client_of w x)) - taken (trace w) (cq_handle w x))"

text \<open>The queue pair of the client delivers to its queue, and no other queue pair does.\<close>

definition tuned :: "'a cworld_scheme \<Rightarrow> u32 \<times> ptr \<Rightarrow> bool" where
  "tuned w x \<longleftrightarrow> recv_queue (trace w) (cmId (client_of w x)) = Some (cq_handle w x) \<and>
     (\<forall>j. recv_queue (trace w) j = Some (cq_handle w x) \<longrightarrow> j = cmId (client_of w x)) \<and>
     taken (trace w) (cq_handle w x) \<subseteq># flights (trace w) (cmId (client_of w x)) \<and>
     size (in_flight w x) = unat (waitingReceives (client_of w x))"

definition flying :: "(u32 \<times> ptr) set \<Rightarrow> 'a cworld_scheme \<Rightarrow> memory_pool \<Rightarrow> bool" where
  "flying S w mp \<longleftrightarrow> (\<forall>p \<in> set (all_blocks mp). p < 2 ^ 64) \<and> (\<forall>x \<in> S. tuned w x) \<and>
     dom (recv_queue (trace w)) \<subseteq> (\<lambda>x. cmId (client_of w x)) ` S \<and>
     (\<Sum>x\<in>S. in_flight w x) \<subseteq># handed_out mp"

lemma cq_handle_of: "cq_handle w x = completionQ (the (heap_get (cqs w) (cq_of w x)))"
  by (simp add: cq_handle_def cq_of_def)

lemma handed_out_blocks: "p \<in># handed_out mp \<Longrightarrow> p \<in> set (all_blocks mp)"
  by (simp add: handed_out_def outstanding_def all_blocks_def)

text \<open>An address of a block is found again in the identifier of the request.\<close>

lemma address_roundtrip:
  assumes "\<forall>p \<in># Q. p < 2 ^ 64"
  shows "image_mset unat (image_mset (of_nat :: nat \<Rightarrow> u64) Q) = Q"
proof -
  have "image_mset (unat \<circ> (of_nat :: nat \<Rightarrow> u64)) Q = image_mset id Q"
    using assms by (intro image_mset_cong) (simp add: unsigned_of_nat take_bit_nat_eq_self)
  then show ?thesis by (simp add: multiset.map_comp)
qed

lemma in_flight_cong:
  assumes "client_of w' x = client_of w x" and "cq_handle w' x = cq_handle w x"
    and "flights (trace w') (cmId (client_of w x)) = flights (trace w) (cmId (client_of w x))"
    and "taken (trace w') (cq_handle w x) = taken (trace w) (cq_handle w x)"
  shows "in_flight w' x = in_flight w x"
  using assms by (simp add: in_flight_def)

lemma traffic_parts:
  "traffic t' = traffic t \<Longrightarrow> flights t' = flights t \<and> taken t' = taken t \<and> recv_queue t' = recv_queue t"
  by (simp add: traffic_def)

lemma flying_cong:
  assumes "flying S w mp" and "client_objs w' = client_objs w" and "cqs w' = cqs w"
    and "traffic (trace w') = traffic (trace w)"
  shows "flying S w' mp"
proof -
  have "client_of w' = client_of w" "cq_handle w' = cq_handle w"
    using assms(2,3) by (simp_all add: client_of_def cq_handle_def fun_eq_iff)
  with traffic_parts [OF assms(4)] assms(1) show ?thesis by (simp add: flying_def tuned_def in_flight_def)
qed

lemma flying_same: "flying S w mp \<Longrightarrow> same_session w w' \<Longrightarrow> flying S w' mp"
  by (rule flying_cong [where w = w]) (simp_all add: same_session_def)

text \<open>There are more handles than clients, as the clients are told apart by 32 bits.\<close>

lemma flying_queue_left:
  assumes "flying S w mp" and "inj_on fst S"
  shows "queue_left (trace w)"
proof (rule ccontr)
  let ?m = "recv_queue (trace w)"
  assume "\<not> queue_left (trace w)"
  then have "- {0} \<subseteq> (\<lambda>i. the (?m i)) ` dom ?m" unfolding queue_left_def by force
  then have "card (- {0} :: u64 set) \<le> card (dom ?m)" by (meson card_image_le card_mono finite finite_imageI le_trans)
  also have "\<dots> \<le> card ((\<lambda>x. cmId (client_of w x)) ` S)"
    using assms(1) by (intro card_mono) (simp_all add: flying_def)
  finally have le: "card (- {0} :: u64 set) \<le> card ((\<lambda>x. cmId (client_of w x)) ` S)" .
  have fin: "finite S" using assms(2) by (rule finite_imageD [rotated]) simp
  have "card ((\<lambda>x. cmId (client_of w x)) ` S) \<le> card S" using fin by (rule card_image_le)
  also have "\<dots> = card (fst ` S)" using card_image [OF assms(2)] by simp
  also have "\<dots> \<le> card (UNIV :: u32 set)" by (intro card_mono) simp_all
  finally have "card (- {0} :: u64 set) \<le> 2 ^ 32" using le by (simp add: card_word)
  moreover have "card (- {0} :: u64 set) = 2 ^ 64 - 1" unfolding Compl_eq_Diff_UNIV by (simp add: card_Diff_singleton card_word)
  ultimately show False by simp
qed

section \<open>A client joins\<close>

text \<open>What the traffic is afterwards.\<close>

lemma joined_traffic:
  assumes "traffic t' = sent i N (sent_all ids P X (wired i h (opened h (traffic t))))"
  shows "flights t' j = (if j = i then {#} else flights t j) + (\<Sum>x\<in>X. if ids x = j then P x else {#}) + (if j = i then N else {#})"
    "taken t' = (taken t)(h := {#})" "recv_queue t' = (recv_queue t)(i \<mapsto> h)"
  using assms by (auto simp: traffic_def sent_def sent_all_def wired_def opened_def)

lemma sum_single:
  assumes "finite X" and "y \<in> X" and "inj_on ids X"
  shows "(\<Sum>x\<in>X. if ids x = ids y then P x else {#}) = (P y :: 'b multiset)"
proof -
  have "(\<Sum>x\<in>X. if ids x = ids y then P x else {#}) = (\<Sum>x\<in>X. if x = y then P x else {#})"
    using assms(2,3) by (intro sum.cong refl) (auto simp: inj_on_def)
  also have "\<dots> = P y" using assms(1,2) by simp
  finally show ?thesis .
qed

lemma sum_none: "\<forall>x \<in> X. ids x \<noteq> i \<Longrightarrow> (\<Sum>x\<in>X. if ids x = i then P x else {#}) = ({#} :: 'b multiset)"
  by (rule sum.neutral) simp

text \<open>Identifiers differ, since each has its own queue pair number.\<close>

lemma ids_differ:
  assumes "\<forall>x \<in> S. entry_ok E qn pl w x" and "inj_on fst S"
  shows "inj_on (\<lambda>x. cmId (client_of w x)) S"
proof (rule inj_onI)
  fix x y
  assume "x \<in> S" "y \<in> S" "cmId (client_of w x) = cmId (client_of w y)"
  moreover from this(1,2) assms(1) have "qn (cmId (client_of w x)) = fst x" "qn (cmId (client_of w y)) = fst y"
    by (auto elim!: entry_okE)
  ultimately show "x = y" using assms(2) by (simp add: inj_on_def)
qed

lemma multiset_diff_union_assoc2: "T \<subseteq># A \<Longrightarrow> (A + B) - T = (A - T) + B"
  for A :: "'b multiset"
  by (simp add: multiset_eq_iff subseteq_mset_def)

lemma full_client: "hungry E pl c \<Longrightarrow> missing c = 0 \<Longrightarrow> unat (waitingReceives c) = 32"
  by (simp add: hungry_def missing_def)

text \<open>The receives of a client that was there: those in flight before, and the new ones.\<close>

lemma joined_flight_old:
  assumes "client_joined E i k w mp w' c mp'" and "clients_inv E qn (ctl_pool k) B (set (clients k)) w mp"
    and "inj_on fst (set (clients k))" and "qn i \<notin> fst ` set (clients k)" and "flying (set (clients k)) w mp"
    and cq: "cqs w' = heap_new cq (cqs w)" "\<forall>j. recv_queue (trace w) j \<noteq> Some (completionQ cq)"
    and tr: "traffic (trace w') = sent i N (sent_all (\<lambda>x. cmId (client_of w x)) (\<lambda>x. image_mset of_nat (Q x))
      (set (clients k)) (wired i (completionQ cq) (opened (completionQ cq) (traffic (trace w)))))"
    and q: "size (Q x) = missing (client_of w x)" "\<forall>p \<in># Q x. p < 2 ^ 64" and x: "x \<in> set (clients k)"
  shows "in_flight w' x = in_flight w x + Q x" "tuned w' x"
proof -
  let ?S = "set (clients k)" and ?i = "cmId (client_of w x)" and ?h = "cq_handle w x"
  note inv = clients_invD [OF assms(2)]
  from inv(2) [OF x] have e: "entry_ok E qn (ctl_pool k) w x" .
  then have "qn ?i = fst x" by (auto elim!: entry_okE)
  then have i: "?i \<noteq> i" using assms(4) x by auto
  note o = joined_old [OF assms(1) x]
  from e have "heap_get (cqs w) (cq_of w x) \<noteq> None" by (auto simp: entry_ok_client Let_def)
  then have "heap_get (cqs w') (cq_of w' x) = heap_get (cqs w) (cq_of w x)"
    using o(4) cq(1) by (auto simp: heap_get_new)
  then have h: "cq_handle w' x = ?h" by (simp add: cq_handle_of)
  from assms(5) x have t: "recv_queue (trace w) ?i = Some ?h" "\<And>j. recv_queue (trace w) j = Some ?h \<Longrightarrow> j = ?i"
    "taken (trace w) ?h \<subseteq># flights (trace w) ?i" "size (in_flight w x) = unat (waitingReceives (client_of w x))"
    by (auto simp: flying_def tuned_def)
  then have ne: "?h \<noteq> completionQ cq" using cq(2) by metis
  note new = joined_traffic [OF tr]
  have f: "flights (trace w') ?i = flights (trace w) ?i + image_mset of_nat (Q x)"
    using sum_single [OF _ x ids_differ [of ?S E qn "ctl_pool k" w], of "\<lambda>x. image_mset of_nat (Q x)"] inv(2) assms(3) i
    unfolding new(1) by simp
  have tk: "taken (trace w') ?h = taken (trace w) ?h" using ne new(2) by simp
  show fl: "in_flight w' x = in_flight w x + Q x"
    using address_roundtrip [OF q(2)]
    unfolding in_flight_def h o(3) tk f multiset_diff_union_assoc2 [OF t(3)] by simp
  have "unat (waitingReceives (client_of w x)) \<le> 32" using e by (auto elim!: entry_okE simp: hungry_def)
  then have "size (in_flight w' x) = 32" using fl t(4) q(1) by (simp add: missing_def)
  moreover have "unat (waitingReceives (client_of w' x)) = 32" using full_client o(2,8) by blast
  moreover have "recv_queue (trace w') j = Some ?h \<longleftrightarrow> j = ?i" for j
  proof (cases "j = i")
    case True
    then show ?thesis using new(3) i ne by simp
  next
    case False
    then show ?thesis using new(3) t(1) t(2) [of j] by auto
  qed
  moreover have "taken (trace w') ?h \<subseteq># flights (trace w') ?i" unfolding f tk by (rule subset_mset.order_trans [OF t(3)]) simp
  ultimately show "tuned w' x" using h o(3) by (simp add: tuned_def)
qed

lemma joined_flight_new:
  assumes "client_joined E i k w mp w' c mp'" and "fair_env E"
    and "clients_inv E qn (ctl_pool k) B (set (clients k)) w mp" and "qn i \<notin> fst ` set (clients k)"
    and cq: "cqs w' = heap_new cq (cqs w)" "\<forall>j. recv_queue (trace w) j \<noteq> Some (completionQ cq)"
    and tr: "traffic (trace w') = sent i (image_mset of_nat N) (sent_all (\<lambda>x. cmId (client_of w x)) P
      (set (clients k)) (wired i (completionQ cq) (opened (completionQ cq) (traffic (trace w)))))"
    and n: "size N = 32" "\<forall>p \<in># N. p < 2 ^ 64"
    and x: "x = (q, Suc (length (client_objs w)))"
  shows "in_flight w' x = N" "tuned w' x"
proof -
  note inv = clients_invD [OF assms(3)]
  note o = joined_new [OF assms(1,2)]
  have c: "client_of w' x = c" "cmId (client_of w' x) = i" using o(2,4) x by simp_all
  have h: "cq_handle w' x = completionQ cq" using c(1) o(5) cq(1) by (simp add: cq_handle_def heap_get_new)
  note new = joined_traffic [OF tr]
  have "\<forall>y \<in> set (clients k). cmId (client_of w y) \<noteq> i"
  proof
    fix y
    assume y: "y \<in> set (clients k)"
    from inv(2) [OF this] have "qn (cmId (client_of w y)) = fst y" by (auto elim!: entry_okE)
    with y assms(4) show "cmId (client_of w y) \<noteq> i" by auto
  qed
  from sum_none [OF this, of P] have f: "flights (trace w') i = image_mset of_nat N" unfolding new(1) by simp
  have tk: "taken (trace w') (completionQ cq) = {#}" using new(2) by simp
  show fl: "in_flight w' x = N" using f tk h c(2) address_roundtrip [OF n(2)] by (simp add: in_flight_def)
  have "unat (waitingReceives c) = 32" using full_client o(3,6) by blast
  moreover have "recv_queue (trace w') j = Some (completionQ cq) \<longleftrightarrow> j = i" for j using new(3) cq(2) by auto
  ultimately show "tuned w' x" using h c fl n(1) tk by (simp add: tuned_def)
qed

lemma flying_joined:
  assumes "client_joined E i k w mp w' c mp'" and "receives_joined E i k w mp w' mp'" and "fair_env E" and "fresh_queues E"
    and "clients_inv E qn (ctl_pool k) B (set (clients k)) w mp" and "inj_on fst (set (clients k))"
    and "qn i \<notin> fst ` set (clients k)" and "flying (set (clients k)) w mp"
  shows "flying (insert (q, Suc (length (client_objs w))) (set (clients k))) w' mp'"
proof -
  let ?S = "set (clients k)" and ?x = "(q, Suc (length (client_objs w)))"
  from assms(2,4) flying_queue_left [OF assms(8,6)] obtain cq N Q where cq: "cqs w' = heap_new cq (cqs w)" "\<forall>j. recv_queue (trace w) j \<noteq> Some (completionQ cq)"
    and out: "handed_out mp' = handed_out mp + N + (\<Sum>x\<in>?S. Q x)" and n: "size N = 32"
    and q: "\<forall>x \<in> ?S. size (Q x) = missing (client_of w x)"
    and tr: "traffic (trace w') = sent i (image_mset of_nat N) (sent_all (\<lambda>x. cmId (client_of w x)) (\<lambda>x. image_mset of_nat (Q x))
      ?S (wired i (completionQ cq) (opened (completionQ cq) (traffic (trace w)))))"
    unfolding receives_joined_def by blast
  have "all_blocks mp' = all_blocks mp" using assms(1) by (simp add: client_joined_def Let_def)
  then have small: "\<forall>p \<in> set (all_blocks mp'). p < 2 ^ 64" using assms(8) by (simp add: flying_def)
  then have addr: "p < 2 ^ 64" if "p \<in># handed_out mp'" for p using handed_out_blocks [OF that] by blast
  have "N \<subseteq># handed_out mp'" using out by simp
  then have n64: "\<forall>p \<in># N. p < 2 ^ 64" using addr by (meson mset_subset_eqD)
  have q64: "\<forall>p \<in># Q x. p < 2 ^ 64" if "x \<in> ?S" for x
    using addr out that by (auto simp: in_Union_mset_iff set_mset_sum)
  note old = joined_flight_old [OF assms(1,5,6,7,8) cq tr bspec [OF q] q64]
  note new = joined_flight_new [OF assms(1,3,5,7) cq tr n n64 refl, of q]
  have nin: "?x \<notin> ?S"
  proof
    assume "?x \<in> ?S"
    then have "heap_get (client_objs w) (Suc (length (client_objs w))) \<noteq> None"
      using clients_invD(2) [OF assms(5)] by (fastforce simp: entry_ok_client Let_def)
    then show False by (simp add: heap_get_def)
  qed
  have "(\<Sum>x\<in>insert ?x ?S. in_flight w' x) = N + (\<Sum>x\<in>?S. in_flight w x + Q x)"
    using nin new(1) old(1) by simp
  also have "\<dots> = (\<Sum>x\<in>?S. in_flight w x) + (N + (\<Sum>x\<in>?S. Q x))" by (simp add: sum.distrib ac_simps)
  also have "\<dots> \<subseteq># handed_out mp'" using assms(8) out by (simp add: flying_def ac_simps)
  finally have sum: "(\<Sum>x\<in>insert ?x ?S. in_flight w' x) \<subseteq># handed_out mp'" .
  have ids: "cmId (client_of w' ?x) = i" "\<forall>x \<in> ?S. cmId (client_of w' x) = cmId (client_of w x)"
    using joined_new(2,4) [OF assms(1,3)] joined_old(3) [OF assms(1)] by simp_all
  have "dom (recv_queue (trace w')) = insert i (dom (recv_queue (trace w)))" using joined_traffic(3) [OF tr] by simp
  also have "\<dots> \<subseteq> insert i ((\<lambda>x. cmId (client_of w x)) ` ?S)" using assms(8) by (auto simp: flying_def)
  also have "\<dots> = (\<lambda>x. cmId (client_of w' x)) ` insert ?x ?S" using ids by (simp cong: image_cong_simp)
  finally show ?thesis using small new(2) old(2) sum by (simp add: flying_def)
qed

section \<open>A client leaves\<close>

lemma flying_left:
  assumes "clients_inv E qn pl B S w mp" and "x \<in> S" and "inj_on fst S" and "client_left pl x w w'"
    and tr: "traffic (trace w') = hung_up (cmId (client_of w x)) (traffic (trace w))" and "flying S w mp"
  shows "flying (S - {x}) w' mp"
proof -
  note inv = clients_invD [OF assms(1)]
  from tr have t: "flights (trace w') = flights (trace w)" "taken (trace w') = taken (trace w)"
    "recv_queue (trace w') = (recv_queue (trace w))(cmId (client_of w x) := None)"
    by (simp_all add: traffic_def hung_up_def)
  have "inj_on (\<lambda>x. cmId (client_of w x)) S" by (rule ids_differ [OF _ assms(3)]) (use inv(2) in blast)
  then have ids: "cmId (client_of w y) \<noteq> cmId (client_of w x)" if "y \<in> S - {x}" for y
    using that assms(2) by (auto simp: inj_on_def)
  have old: "client_of w' y = client_of w y" "cq_handle w' y = cq_handle w y" if "y \<in> S - {x}" for y
    using left_others(3,5) [OF assms(1,2,4) that] by (simp_all add: cq_handle_of cq_of_def)
  have same: "in_flight w' y = in_flight w y" "tuned w' y" if y: "y \<in> S - {x}" for y
  proof -
    show "in_flight w' y = in_flight w y" using old [OF y] t by (simp add: in_flight_def)
    with assms(6) y old [OF y] t ids [OF y] show "tuned w' y" by (auto simp: flying_def tuned_def)
  qed
  have "(\<Sum>y\<in>S - {x}. in_flight w' y) = (\<Sum>y\<in>S - {x}. in_flight w y)" using same(1) by (rule sum.cong [OF refl])
  moreover have "(\<Sum>y\<in>S. in_flight w y) = in_flight w x + (\<Sum>y\<in>S - {x}. in_flight w y)"
    using inv(1) assms(2) by (simp add: sum.remove)
  then have "(\<Sum>y\<in>S - {x}. in_flight w y) \<subseteq># (\<Sum>y\<in>S. in_flight w y)" by simp
  ultimately have sum: "(\<Sum>y\<in>S - {x}. in_flight w' y) \<subseteq># handed_out mp"
    using assms(6) by (auto simp: flying_def intro: subset_mset.order_trans)
  have "dom (recv_queue (trace w')) \<subseteq> (\<lambda>y. cmId (client_of w y)) ` (S - {x})"
    using assms(6) t(3) by (auto simp: flying_def)
  also have "\<dots> = (\<lambda>y. cmId (client_of w' y)) ` (S - {x})" using old(1) by (intro image_cong) simp_all
  finally show ?thesis using assms(6) same(2) sum by (simp add: flying_def)
qed

end
