(* ===== verification/ServerSession.thy ===== *)
theory ServerSession
  imports ClientFlight
begin

text \<open>
  The events of a session, one by one and in sequence: an abstract server that knows only how
  many receives each peer has posted and how many blocks are free, the proof that the event
  handler of the controller refines it, and what that says about the life of a server.
\<close>

section \<open>An abstract server\<close>

record server_spec =
  posted :: "u32 \<Rightarrow> nat option"
  free :: nat

text \<open>The receives that are missing to 32 for each peer.\<close>

definition hunger :: "server_spec \<Rightarrow> nat" where
  "hunger a = (\<Sum>q\<in>dom (posted a). 32 - the (posted a q))"

text \<open>
  What an event of the peer \<open>q\<close> does; \<open>None\<close> when the server never comes back.  A request gives
  everybody all receives; a disconnect loses the blocks that are posted.
\<close>

fun serve :: "cm_event_type \<Rightarrow> u32 \<Rightarrow> server_spec \<Rightarrow> server_spec option" where
  "serve RDMA_CM_EVENT_CONNECT_REQUEST q a =
     (if hunger a + 32 \<le> free a
      then Some \<lparr>posted = (\<lambda>p. if p = q \<or> p \<in> dom (posted a) then Some 32 else None), free = free a - (hunger a + 32)\<rparr>
      else None)"
| "serve RDMA_CM_EVENT_DISCONNECTED q a = Some (a\<lparr>posted := (posted a)(q := None)\<rparr>)"
| "serve _ q a = Some a"

text \<open>What the connection manager can report to it; \<open>qn\<close> is the queue pair of an identifier.\<close>

definition valid_event :: "(u64 \<Rightarrow> u32) \<Rightarrow> server_spec \<Rightarrow> cm_event \<Rightarrow> bool" where
  "valid_event qn a ev \<longleftrightarrow> ev_id ev \<noteq> 0 \<and> (case ev_type ev of
       RDMA_CM_EVENT_CONNECT_REQUEST \<Rightarrow> qn (ev_id ev) \<notin> dom (posted a)
     | RDMA_CM_EVENT_ESTABLISHED \<Rightarrow> qn (ev_id ev) \<in> dom (posted a)
     | RDMA_CM_EVENT_DISCONNECTED \<Rightarrow> qn (ev_id ev) \<in> dom (posted a)
     | _ \<Rightarrow> True)"

definition abs_server :: "'w controller \<Rightarrow> 'a cworld_scheme \<Rightarrow> memory_pool \<Rightarrow> server_spec" where
  "abs_server k w mp = \<lparr>posted = (\<lambda>q. map_option (\<lambda>p. unat (waitingReceives (client_of w (q, p)))) (map_of (clients k) q)),
     free = length (free_list (small mp))\<rparr>"

section \<open>A controller that serves\<close>

text \<open>The books when an event has been taken, acknowledged, or both.\<close>

definition book_taken :: "books \<Rightarrow> books" where
  "book_taken B = ((fst (fst B) + 1, Suc (snd (fst B))), snd B)"

definition book_acked :: "books \<Rightarrow> books" where
  "book_acked B = ((fst (fst B) - 1, snd (fst B)), snd B)"

definition book_handled :: "books \<Rightarrow> books" where
  "book_handled B = ((fst (fst B), Suc (snd (fst B))), snd B)"

lemma book_simps [simp]: "book_acked (book_taken B) = book_handled B" "snd (book_acked B) = snd B"
    "snd (book_taken B) = snd B" "snd (book_handled B) = snd B" "snd (fst (book_handled B)) = Suc (snd (fst B))"
    "fst (fst (book_handled B)) = fst (fst B)"
  by (simp_all add: book_acked_def book_taken_def book_handled_def)

text \<open>Functions of the user that return, agree, and leave the clients alone.\<close>

definition calm :: "('a cworld_scheme, int) M \<Rightarrow> bool" where
  "calm f \<longleftrightarrow> (\<forall>w. \<exists>n w'. f w = Some (Ok n, w') \<and> n \<noteq> 0 \<and> same_session w w')"

definition listening :: "'a cworld_scheme controller \<Rightarrow> bool" where
  "listening k \<longleftrightarrow> (\<exists>l. rdmaListener k = Some l \<and> srq l = 0) \<and> protectionDomain k \<noteq> None \<and> ctl_pool k \<noteq> 0 \<and>
     (\<forall>f. preConnectionFunction k = Some f \<longrightarrow> calm f) \<and>
     (\<forall>f x p. connectionFunction k = Some f \<longrightarrow> calm (f x p))"

definition server_inv ::
    "env \<Rightarrow> (u64 \<Rightarrow> u32) \<Rightarrow> books \<Rightarrow> 'a cworld_scheme controller \<Rightarrow> 'a cworld_scheme \<Rightarrow> memory_pool \<Rightarrow> bool" where
  "server_inv E qn B k w mp \<longleftrightarrow> listening k \<and> distinct (map fst (clients k)) \<and>
     clients_inv E qn (ctl_pool k) B (set (clients k)) w mp"

text \<open>A device that serves every identifier, each with its own queue pair, and takes back events.\<close>

definition serving :: "env \<Rightarrow> (u64 \<Rightarrow> u32) \<Rightarrow> bool" where
  "serving E qn \<longleftrightarrow> fair_env E \<and> (\<forall>i. i \<noteq> 0 \<longrightarrow> accepting E i (qn i)) \<and>
     (\<forall>t ev. rc_of E t (CM (Rdma_ack_cm_event ev)) = 0)"

lemma server_invD:
  assumes "server_inv E qn B k w mp"
  shows "listening k" "distinct (map fst (clients k))" "clients_inv E qn (ctl_pool k) B (set (clients k)) w mp"
  using assms by (simp_all add: server_inv_def)

lemma listening_same:
  "listening k \<Longrightarrow> rdmaListener k = Some l \<Longrightarrow> srq l' = srq l \<Longrightarrow> listening (k\<lparr>rdmaListener := Some l', clients := m\<rparr>)"
  "listening k \<Longrightarrow> listening (k\<lparr>clients := m\<rparr>)"
  by (auto simp: listening_def)

lemma sum_map_of:
  fixes f :: "'k \<times> 'v \<Rightarrow> nat"
  assumes "distinct (map fst m)"
  shows "(\<Sum>x\<leftarrow>m. f x) = (\<Sum>q\<in>dom (map_of m). f (q, the (map_of m q)))"
  using assms
proof (induction m)
  case (Cons x m)
  have fin: "finite (dom (map_of m))" by (rule finite_dom_map_of)
  have nin: "fst x \<notin> dom (map_of m)" using Cons.prems by (simp add: dom_map_of_conv_image_fst)
  have "(\<Sum>q\<in>dom (map_of (x # m)). f (q, the (map_of (x # m) q))) =
      f x + (\<Sum>q\<in>dom (map_of m). f (q, the (map_of (x # m) q)))"
    using fin nin by (cases x) simp
  also have "(\<Sum>q\<in>dom (map_of m). f (q, the (map_of (x # m) q))) = (\<Sum>q\<in>dom (map_of m). f (q, the (map_of m q)))"
    using nin by (intro sum.cong) (cases x; auto)+
  finally show ?case using Cons by simp
qed simp

lemma hunger_abs:
  assumes "distinct (map fst (clients k))"
  shows "hunger (abs_server k w mp) = (\<Sum>x\<leftarrow>clients k. missing (client_of w x))"
proof -
  have "dom (posted (abs_server k w mp)) = dom (map_of (clients k))" by (auto simp: abs_server_def dom_def)
  then show ?thesis unfolding hunger_def sum_map_of [OF assms]
    by (intro sum.cong) (auto simp: abs_server_def missing_def)
qed

lemma free_abs [simp]: "free (abs_server k w mp) = length (free_list (small mp))"
  by (simp add: abs_server_def)

lemma dom_abs: "dom (posted (abs_server k w mp)) = fst ` set (clients k)"
  by (auto simp: abs_server_def dom_map_of_conv_image_fst [symmetric])

lemma clients_inv_hungry:
  assumes "clients_inv E qn pl B (set cs) w mp"
  shows "clients_hungry E pl cs w \<longleftrightarrow> distinct (map snd cs)" "uses_ok w" "distinct cs \<Longrightarrow> distinct (map snd cs)"
  using clients_invD(2-4) [OF assms]
  by (auto simp: clients_hungry_def no_garbage_def apart_def distinct_map elim!: entry_okE)

text \<open>
  What goes on from one state to the next: the large region, the blocks of the pool and every other
  region that is not a client's stay as they are and are not a client's, and the receives in flight
  stay in order when the device gives every completion queue its own address.
\<close>

definition foreign :: "'w controller \<Rightarrow> 'a cworld_scheme \<Rightarrow> ptr \<Rightarrow> bool" where
  "foreign k w p \<longleftrightarrow> shape w p \<noteq> None \<and> (\<forall>x \<in> set (clients k). p \<notin> regions_of w x)"

definition estate_kept ::
    "'w controller \<Rightarrow> 'a cworld_scheme \<Rightarrow> memory_pool \<Rightarrow> 'w controller \<Rightarrow> 'a cworld_scheme \<Rightarrow> memory_pool \<Rightarrow> bool" where
  "estate_kept k w mp k' w' mp' \<longleftrightarrow> largeRegion k' = largeRegion k \<and> all_blocks mp' = all_blocks mp \<and>
     (\<forall>p. foreign k w p \<longrightarrow> foreign k' w' p \<and> shape w' p = shape w p)"

definition flights_kept ::
    "env \<Rightarrow> 'w controller \<Rightarrow> 'a cworld_scheme \<Rightarrow> memory_pool \<Rightarrow> 'w controller \<Rightarrow> 'a cworld_scheme \<Rightarrow> memory_pool \<Rightarrow> bool" where
  "flights_kept E k w mp k' w' mp' \<longleftrightarrow> (fresh_queues E \<longrightarrow> flying (set (clients k)) w mp \<longrightarrow> flying (set (clients k')) w' mp')"

definition goes_on ::
    "env \<Rightarrow> 'w controller \<Rightarrow> 'a cworld_scheme \<Rightarrow> memory_pool \<Rightarrow> 'w controller \<Rightarrow> 'a cworld_scheme \<Rightarrow> memory_pool \<Rightarrow> bool" where
  "goes_on E k w mp k' w' mp' \<longleftrightarrow> estate_kept k w mp k' w' mp' \<and> flights_kept E k w mp k' w' mp'"

lemma goes_on_trans: "goes_on E k w mp k1 w1 mp1 \<Longrightarrow> goes_on E k1 w1 mp1 k2 w2 mp2 \<Longrightarrow> goes_on E k w mp k2 w2 mp2"
  by (auto simp: goes_on_def estate_kept_def flights_kept_def)

lemma estate_kept_same:
  assumes "shape w' = shape w" and "clients k' = clients k" and "largeRegion k' = largeRegion k"
    and "all_blocks mp' = all_blocks mp" and "\<forall>x \<in> set (clients k). regions_of w' x = regions_of w x"
  shows "estate_kept k w mp k' w' mp'"
  using assms by (simp add: estate_kept_def foreign_def)

lemma regions_of_cong: "client_objs w' = client_objs w \<Longrightarrow> regions_of w' = regions_of w"
  by (simp add: regions_of_def client_of_def fun_eq_iff)

lemma goes_on_same:
  "same_session w w' \<Longrightarrow> clients k' = clients k \<Longrightarrow> largeRegion k' = largeRegion k \<Longrightarrow> goes_on E k w mp k' w' mp"
  using flying_same estate_kept_same [of w' w k' k mp mp] regions_of_cong [of w' w]
  by (auto simp: goes_on_def flights_kept_def same_session_def)

text \<open>A call that is no business of the clients.\<close>

lemma goes_on_call:
  assumes "client_objs w' = client_objs w" "cqs w' = cqs w" "regions w' = regions w" "traffic (trace w') = traffic (trace w)"
    and "clients k' = clients k" "largeRegion k' = largeRegion k"
  shows "goes_on E k w mp k' w' mp"
proof -
  have "estate_kept k w mp k' w' mp"
    using assms(3,5,6) by (intro estate_kept_same) (simp_all add: regions_of_cong [OF assms(1)] shape_def fun_eq_iff)
  then show ?thesis
    using flying_cong [OF _ assms(1,2,4)] assms(5) by (simp add: goes_on_def flights_kept_def)
qed

text \<open>Clients that come and go bring and take their own regions only.\<close>

lemma estate_joined:
  assumes "client_joined E i k w mp w' c mp'" and "fair_env E" and "largeRegion k' = largeRegion k"
    and "set (clients k') = insert (q, Suc (length (client_objs w))) (set (clients k))"
  shows "estate_kept k w mp k' w' mp'"
proof -
  have "foreign k' w' p \<and> shape w' p = shape w p" if "foreign k w p" for p
  proof -
    from that have p: "shape w p \<noteq> None" "\<forall>x \<in> set (clients k). p \<notin> regions_of w x" by (simp_all add: foreign_def)
    note s = joined_shape_old [OF assms(1,2) p(1)]
    have "p \<notin> regions_of w' (q, Suc (length (client_objs w)))"
      using joined_new(2) [OF assms(1,2)] s(2,3) by (simp add: regions_of_def)
    then show ?thesis using p s(1) assms(4) joined_old(5) [OF assms(1)] by (simp add: foreign_def)
  qed
  then show ?thesis using assms(1,3) by (simp add: estate_kept_def client_joined_def Let_def)
qed

lemma estate_left:
  assumes "clients_inv E qn pl B (set (clients k)) w mp" and "x \<in> set (clients k)" and "client_left pl x w w'"
    and "set (clients k') = set (clients k) - {x}" and "largeRegion k' = largeRegion k"
  shows "estate_kept k w mp k' w' mp"
proof -
  have "foreign k' w' p \<and> shape w' p = shape w p" if "foreign k w p" for p
  proof -
    from that have p: "shape w p \<noteq> None" "\<forall>x \<in> set (clients k). p \<notin> regions_of w x" by (simp_all add: foreign_def)
    then have "shape w' p = shape w p" using assms(2,3) by (simp add: client_left_def)
    moreover have "regions_of w' y = regions_of w y" if "y \<in> set (clients k) - {x}" for y
      using left_others(3) [OF assms(1-3) that] by (simp add: regions_of_def)
    ultimately show ?thesis using p assms(4) by (simp add: foreign_def)
  qed
  then show ?thesis using assms(5) by (simp add: estate_kept_def)
qed

section \<open>A connection request\<close>

lemma calm_pre:
  assumes "listening k" and "rdmaListener k = Some l" and "event l = Some ev"
  shows "\<exists>w'. pre_connection E (k, w) = Some (Ok (), (k, w')) \<and> same_session w w'"
proof (cases "preConnectionFunction k")
  case None
  then show ?thesis by (simp add: pre_connection_def)
next
  case (Some f)
  with assms(1) have "calm f" by (simp add: listening_def)
  then obtain n w' where f: "f w = Some (Ok n, w')" "n \<noteq> 0" "same_session w w'"
    unfolding calm_def by blast
  have "on_listener getEventId (k, w) = Some (Ok (ev_id ev), (k, w))"
    using assms(2,3) by (simp add: on_listener_run getEventId_def through_event_def run_simps)
  with Some f show ?thesis by (simp add: pre_connection_def)
qed

lemma abs_joined:
  assumes "client_joined E i k w mp w' c mp'" and "fair_env E" and "map_laws U" and "distinct (map fst (clients k))"
    and "map_of (clients k) q = None"
  shows "abs_server (k\<lparr>clients := map_insert U q (Suc (length (client_objs w))) (clients k)\<rparr>) w' mp' =
    \<lparr>posted = (\<lambda>p. if p = q \<or> p \<in> dom (posted (abs_server k w mp)) then Some 32 else None),
     free = length (free_list (small mp)) - (hunger (abs_server k w mp) + 32)\<rparr>"
proof -
  let ?p = "Suc (length (client_objs w))"
  have full: "unat (waitingReceives c') = 32" if "hungry E (ctl_pool k) c'" "missing c' = 0" for c'
    using that by (simp add: hungry_def missing_def)
  have "map_of (map_insert U q ?p (clients k)) = (map_of (clients k))(q \<mapsto> ?p)"
    using map_insert_new [OF assms(3-5)] by blast
  moreover have "unat (waitingReceives (client_of w' (q, ?p))) = 32"
    using full joined_new(2,3,6) [OF assms(1,2)] by simp
  moreover have "unat (waitingReceives (client_of w' (r, p))) = 32" if "map_of (clients k) r = Some p" for r p
    using full joined_old(2,8) [OF assms(1) map_of_SomeD [OF that]] by simp
  moreover have "length (free_list (small mp')) + (\<Sum>x\<leftarrow>clients k. missing (client_of w x)) + 32 = length (free_list (small mp))"
    using assms(1) by (simp add: client_joined_def Let_def)
  then have "length (free_list (small mp')) = length (free_list (small mp)) - (hunger (abs_server k w mp) + 32)"
    unfolding hunger_abs [OF assms(4)] by linarith
  moreover have "dom (posted (abs_server k w mp)) = dom (map_of (clients k))"
    unfolding dom_abs by (rule dom_map_of_conv_image_fst [symmetric])
  ultimately show ?thesis by (auto simp: abs_server_def fun_eq_iff)
qed

lemma same_session_abs:
  assumes "same_session w w'"
  shows "abs_server k w' mp = abs_server k w mp"
proof -
  have "client_of w' = client_of w" using assms by (intro client_of_cong) (simp add: same_session_def)
  then show ?thesis by (simp add: abs_server_def)
qed

lemma request_refines:
  assumes "serving E qn" and "map_laws U" and "server_inv E qn B k w mp"
    and "rdmaListener k = Some l" and "event l = Some ev" and "ev_id ev \<noteq> 0"
    and "qn (ev_id ev) \<notin> dom (posted (abs_server k w mp))"
  shows "case serve RDMA_CM_EVENT_CONNECT_REQUEST (qn (ev_id ev)) (abs_server k w mp) of
      None \<Rightarrow> connect_request E U (k, w) = None
    | Some a \<Rightarrow> \<exists>m w' mp'. connect_request E U (k, w) = Some (Ok True, (k\<lparr>clients := m\<rparr>, w')) \<and>
        server_inv E qn B (k\<lparr>clients := m\<rparr>) w' mp' \<and> abs_server (k\<lparr>clients := m\<rparr>) w' mp' = a \<and>
        goes_on E k w mp (k\<lparr>clients := m\<rparr>) w' mp'"
proof -
  let ?q = "qn (ev_id ev)" and ?pl = "ctl_pool k"
  note inv = server_invD [OF assms(3)]
  from calm_pre [OF inv(1) assms(4,5)] obtain w1 where
    pre: "pre_connection E (k, w) = Some (Ok (), (k, w1))" and same: "same_session w w1" by blast
  note inv1 = clients_inv_same [OF inv(3) same]
  from assms(1) have e: "fair_env E" "accepting E (ev_id ev) ?q" using assms(6) by (auto simp: serving_def)
  have new: "map_of (clients k) ?q = None" using assms(7) by (simp add: dom_abs map_of_eq_None_iff)
  from inv(1) assms(4) obtain d where k: "srq l = 0" "protectionDomain k = Some d" "?pl \<noteq> 0"
    by (auto simp: listening_def)
  have hungry: "clients_hungry E ?pl (clients k) w1"
    using clients_inv_hungry(1,3) [OF inv1] inv(2) by (simp add: distinct_map)
  note args = e(2) assms(2) inv(2) new assms(4,5) k(1) pre k(2) clients_inv_hungry(2) [OF inv1] hungry k(3) clients_invD(6,7) [OF inv1]
  note hg = hunger_abs [OF inv(2), of w1 mp]
  note ab = same_session_abs [OF same, of k mp]
  show ?thesis
  proof (cases "hunger (abs_server k w1 mp) + 32 \<le> length (free_list (small mp))")
    case True
    from request_joins [OF args] True[unfolded hg] obtain w' c mp' where
      run: "connect_request E U (k, w) =
        Some (Ok True, (k\<lparr>clients := map_insert U ?q (Suc (length (client_objs w1))) (clients k)\<rparr>, w'))"
      and j: "client_joined E (ev_id ev) k w1 mp w' c mp'" and r: "receives_joined E (ev_id ev) k w1 mp w' mp'" by blast
    let ?k = "k\<lparr>clients := map_insert U ?q (Suc (length (client_objs w1))) (clients k)\<rparr>"
    have set: "set (clients ?k) = insert (?q, Suc (length (client_objs w1))) (set (clients k))"
      using insert_set(1) [OF assms(2) inv(2) new] by simp
    have "flights_kept E k w1 mp ?k w' mp'"
      using flying_joined [OF j r e(1) _ inv1] inv(2) assms(7)
      unfolding flights_kept_def set by (simp add: distinct_map dom_abs)
    then have "goes_on E k w1 mp ?k w' mp'" using estate_joined [OF j e(1) _ set] by (simp add: goes_on_def)
    then have flights: "goes_on E k w mp ?k w' mp'" by (rule goes_on_trans [OF goes_on_same [OF same refl refl]])
    note set
    moreover have "distinct (map fst (clients ?k))" using map_insert_new [OF assms(2) inv(2) new] by simp
    ultimately have "server_inv E qn B ?k w' mp'"
      using clients_inv_joined [OF j e(1) inv1 refl assms(6)] listening_same(2) [OF inv(1)] by (simp add: server_inv_def)
    moreover have "serve RDMA_CM_EVENT_CONNECT_REQUEST ?q (abs_server k w mp) = Some (abs_server ?k w' mp')"
      using True unfolding abs_joined [OF j e(1) assms(2) inv(2) new] ab by simp
    ultimately show ?thesis using run flights by auto
  next
    case False
    then have "connect_request E U (k, w) = None" using request_hangs [OF args] hg by simp
    moreover have "serve RDMA_CM_EVENT_CONNECT_REQUEST ?q (abs_server k w mp) = None" using False ab by simp
    ultimately show ?thesis by simp
  qed
qed

section \<open>Events of a known client\<close>

text \<open>The listener goes on with the same event channel, the controller with its functions and pool.\<close>

definition same_listener :: "'w controller \<Rightarrow> 'w controller \<Rightarrow> bool" where
  "same_listener k k' \<longleftrightarrow> map_option eventChannel (rdmaListener k') = map_option eventChannel (rdmaListener k) \<and>
     event_poll_count k' = event_poll_count k \<and> completionFunction k' = completionFunction k \<and> ctl_pool k' = ctl_pool k"

lemma same_listener_trans: "same_listener k k1 \<Longrightarrow> same_listener k1 k2 \<Longrightarrow> same_listener k k2"
  by (simp add: same_listener_def)

lemma same_listener_channel:
  "same_listener k k' \<Longrightarrow> rdmaListener k = Some l \<Longrightarrow> \<exists>l'. rdmaListener k' = Some l' \<and> eventChannel l' = eventChannel l"
  by (auto simp: same_listener_def)

lemma known_entry:
  assumes "server_inv E qn B k w mp" and "q \<in> dom (posted (abs_server k w mp))"
  obtains p where "map_of (clients k) q = Some p" "(q, p) \<in> set (clients k)" "p \<noteq> 0"
    "entry_ok E qn (ctl_pool k) w (q, p)"
proof -
  from assms(2) have "q \<in> dom (map_of (clients k))" unfolding dom_abs by (simp add: dom_map_of_conv_image_fst)
  then obtain p where p: "map_of (clients k) q = Some p" by blast
  from clients_invD(2) [OF server_invD(3) [OF assms(1)] map_of_SomeD [OF p]]
  have e: "entry_ok E qn (ctl_pool k) w (q, p)" .
  then have "p \<noteq> 0" by (cases "p = 0") (auto simp: entry_ok_def)
  with that [OF p map_of_SomeD [OF p] _ e] show thesis .
qed

lemma calm_established:
  assumes "serving E qn" and "entry_ok E qn pl w (q, p)" and "listening k" and "connectionFunction k = Some f" and "p \<noteq> 0"
  shows "\<exists>n w1. bindM (on_world (on_client p (getQpNum E))) (\<lambda>n. bindM (on_world (f (n, 0) p)) (\<lambda>_. returnM ()))
      (k, w\<lparr>uses := (uses w)(Client_ref p := 2)\<rparr>) = Some (Ok (), (k, w1)) \<and>
    same_session (w\<lparr>uses := (uses w)(Client_ref p := 2)\<rparr>) w1"
proof -
  let ?w = "w\<lparr>uses := (uses w)(Client_ref p := 2)\<rparr>"
  from assms(2) obtain c where c: "heap_get (client_objs ?w) p = Some c" "cmId c \<noteq> 0" "qn (cmId c) = q"
    by (auto elim!: entry_okE)
  with assms(1) have "accepting E (cmId c) q" by (auto simp: serving_def)
  from acceptingD(2) [OF this] have qp: "on_client p (getQpNum E) ?w = Some (Ok q, ?w)"
    by (intro on_client_read [OF c(1)]) (simp add: getQpNum_run)
  from assms(3,4) have "calm (f (q, 0) p)" by (simp add: listening_def)
  then obtain n w1 where "f (q, 0) p ?w = Some (Ok n, w1)" "same_session ?w w1" unfolding calm_def by blast
  with qp show ?thesis by simp
qed

lemma established_same:
  assumes "serving E qn" and "server_inv E qn B k w mp"
    and "rdmaListener k = Some l" and "event l = Some ev" and "ev_id ev \<noteq> 0"
    and "qn (ev_id ev) \<in> dom (posted (abs_server k w mp))"
  shows "\<exists>w'. established E U (k, w) = Some (Ok (), (k, w')) \<and> same_session w w'"
proof -
  let ?q = "qn (ev_id ev)"
  obtain p where p: "map_of (clients k) ?q = Some p" "(?q, p) \<in> set (clients k)" "p \<noteq> 0"
    "entry_ok E qn (ctl_pool k) w (?q, p)" by (rule known_entry [OF assms(2,6)])
  let ?w = "w\<lparr>uses := (uses w)(Client_ref p := 2)\<rparr>"
  from assms(1,5) have "accepting E (ev_id ev) ?q" "\<not> logging E" by (auto simp: serving_def fair_env_def)
  note ev = event_qp_run [OF assms(3,4) acceptingD(2) [OF this(1)], of w] and nolog = this(2)
  have one: "uses w (Client_ref p) = 1" using p(4) by (auto elim!: entry_okE)
  have "\<exists>w1. (case connectionFunction k of None \<Rightarrow> returnM () | Some f \<Rightarrow> bindM (on_world (on_client p (getQpNum E)))
      (\<lambda>n. bindM (on_world (f (n, 0) p)) (\<lambda>_. returnM ()))) (k, ?w) = Some (Ok (), (k, w1)) \<and> same_session ?w w1"
  proof (cases "connectionFunction k")
    case (Some f)
    with calm_established [OF assms(1) p(4) server_invD(1) [OF assms(2)] Some p(3)] show ?thesis by simp
  qed simp
  then obtain w1 where cb: "(case connectionFunction k of None \<Rightarrow> returnM () | Some f \<Rightarrow> bindM (on_world (on_client p (getQpNum E)))
      (\<lambda>n. bindM (on_world (f (n, 0) p)) (\<lambda>_. returnM ()))) (k, ?w) = Some (Ok (), (k, w1))" and same: "same_session ?w w1"
    by blast
  let ?w2 = "w1\<lparr>uses := (uses w1)(Client_ref p := 1)\<rparr>"
  have "uses w1 (Client_ref p) = Suc (Suc 0)" using same by (simp add: same_session_def)
  from drop_client_shared [OF p(3) this, of E] have drop: "drop_client E p w1 = Some (Ok (), ?w2)" by simp
  have "established E U (k, w) = Some (Ok (), (k, ?w2))"
    unfolding established_def using ev client_at_known [OF p(1)] p(3) one nolog cb drop
    by (simp add: share_def finallyM_run numeral_2_eq_2)
  moreover have "same_session w ?w2"
    using same one by (auto simp: same_session_def shape_def fun_eq_iff)
  ultimately show ?thesis by blast
qed

lemma erase_set:
  assumes "map_laws U" and "distinct (map fst m)" and "map_of m q = Some p"
  shows "set (map_erase U q m) = set m - {(q, p)}" "distinct (map fst (map_erase U q m))"
    "map_of (map_erase U q m) = (map_of m)(q := None)"
proof -
  from assms(1,2) show e: "distinct (map fst (map_erase U q m))" "map_of (map_erase U q m) = (map_of m)(q := None)"
    by (simp_all add: map_laws_def)
  show "set (map_erase U q m) = set m - {(q, p)}"
  proof (rule set_eqI)
    fix x :: "u32 \<times> ptr"
    have "x \<in> set (map_erase U q m) \<longleftrightarrow> ((map_of m)(q := None)) (fst x) = Some (snd x)"
      using e by (metis Some_eq_map_of_iff prod.collapse)
    also have "\<dots> \<longleftrightarrow> x \<in> set m - {(q, p)}"
      using assms(2,3) by (cases x) (auto simp: map_of_eq_Some_iff dest: eq_key_imp_eq_value)
    finally show "x \<in> set (map_erase U q m) \<longleftrightarrow> x \<in> set m - {(q, p)}" .
  qed
qed

lemma entry_sole:
  assumes "serving E qn" and "clients_inv E qn pl B S w mp" and "(q, p) \<in> S"
  obtains c cq where "sole_client E w p c cq" "client_of w (q, p) = c" "memoryPool c = pl"
proof -
  from clients_invD(2) [OF assms(2,3)] obtain c cq where h: "heap_get (client_objs w) p = Some c" "client_of w (q, p) = c"
    "hungry E pl c" "inMessageRegion c \<noteq> 0" "inMessageRegion c \<noteq> outMessageRegion c"
    "region_ptr_ok w (inMessageRegion c)" "region_ptr_ok w (outMessageRegion c)"
    "heap_get (cqs w) (client_completionQ c) = Some cq" "completionQ cq \<noteq> 0" "cmId c \<noteq> 0"
    "uses w (Client_ref p) = 1" "uses w (CQ_ref (client_completionQ c)) = 1"
    by (auto elim!: entry_okE)
  have "card S \<noteq> 0" using clients_invD(1) [OF assms(2)] assms(3) by auto
  then have "2 \<le> uses w (Pool_ref pl)" using clients_invD(4) [OF assms(2)] by (simp add: no_garbage_def)
  then have "client_ok w c" using h by (simp add: client_ok_def client_regions_ok_def hungry_def)
  then have "sole_client E w p c cq" using h by (simp add: sole_client_def hungry_def ready_conn_def)
  with that h(2,3) show thesis by (simp add: hungry_def)
qed

lemma gone_left:
  assumes "client_of w (q, p) = c" and "memoryPool c = pl" and "pl \<noteq> 0"
    and "client_objs w' = heap_free p (client_objs w)" "cqs w' = heap_free (client_completionQ c) (cqs w)"
      "uses w' = unpool c ((uses w)(Client_ref p := 0, CQ_ref (client_completionQ c) := 0))" "pools w' = pools w"
    and "regions_gone (w\<lparr>trace := t\<rparr>) c w'" and "ledger t = (n, live_mrs (trace w), live_maps (trace w))"
  shows "client_left pl (q, p) w w'" "cm_tally (trace w') = n"
proof -
  have "mrp (w\<lparr>trace := t\<rparr>) = mrp w" "fp (w\<lparr>trace := t\<rparr>) = fp w"
    by (simp_all add: fun_eq_iff mrp_def fp_def)
  then show "client_left pl (q, p) w w'" "cm_tally (trace w') = n"
    using assms
    by (simp_all add: client_left_def regions_gone_def ledger_def unpool_def cq_of_def regions_of_def shape_def
        held_mrs_def held_maps_def)
qed

lemma disconnect_refines:
  assumes "serving E qn" and "map_laws U" and "server_inv E qn B k w mp"
    and "rdmaListener k = Some l" and "event l = Some ev" and "ev_id ev \<noteq> 0"
    and "qn (ev_id ev) \<in> dom (posted (abs_server k w mp))"
  shows "\<exists>k' w'. disconnected E U (k, w) = Some (Ok (), (k', w')) \<and>
    server_inv E qn (book_acked B) k' w' mp \<and> same_listener k k' \<and> goes_on E k w mp k' w' mp \<and>
    Some (abs_server k' w' mp) = serve RDMA_CM_EVENT_DISCONNECTED (qn (ev_id ev)) (abs_server k w mp)"
proof -
  let ?q = "qn (ev_id ev)" and ?pl = "ctl_pool k"
  note inv = server_invD [OF assms(3)]
  obtain p where p: "map_of (clients k) ?q = Some p" "(?q, p) \<in> set (clients k)"
    by (rule known_entry [OF assms(3,7)])
  obtain c cq where sole: "sole_client E w p c cq" and c: "client_of w (?q, p) = c" "memoryPool c = ?pl"
    by (rule entry_sole [OF assms(1) inv(3) p(2)])
  have pl: "?pl \<noteq> 0" using inv(1) by (simp add: listening_def)
  let ?k = "k\<lparr>rdmaListener := Some (l\<lparr>event := None\<rparr>), clients := map_erase U ?q (clients k)\<rparr>"
  from assms(1) have e: "fair_env E" "accepting E (ev_id ev) ?q" "\<forall>t. rc_of E t (CM (Rdma_ack_cm_event ev)) = 0"
    using assms(6) by (auto simp: serving_def)
  from disconnected_runs [OF e(1) assms(4,5) acceptingD(2) [OF e(2)] p(1) sole e(3), of U] obtain w' t where
    run: "disconnected E U (k, w) = Some (Ok (), (?k, w'))" and
    d: "client_objs w' = heap_free p (client_objs w)" "cqs w' = heap_free (client_completionQ c) (cqs w)"
      "uses w' = unpool c ((uses w)(Client_ref p := 0, CQ_ref (client_completionQ c) := 0))" "pools w' = pools w"
      "regions_gone (w\<lparr>trace := t\<rparr>) c w'" "ledger t = ((cm_unacked (trace w) - 1, cm_taken (trace w)), live_mrs (trace w), live_maps (trace w))"
    and tr: "traffic (trace w') = hung_up (cmId c) (traffic (trace w))" by blast
  note left = gone_left [OF c pl d]
  have "fst B = cm_tally (trace w)" using clients_invD(5) [OF inv(3)] by (simp add: books_ok_def ledger_def)
  then have "fst (book_acked B) = cm_tally (trace w')" "snd (book_acked B) = snd B"
    using left(2) by (simp_all add: cm_tally_def book_acked_def)
  note inv' = clients_inv_left [OF inv(3) p(2) left(1) this]
  note er = erase_set [OF assms(2) inv(2) p(1)]
  have "listening ?k" using listening_same(1) [OF inv(1) assms(4)] by simp
  with inv' er have "server_inv E qn (book_acked B) ?k w' mp" by (simp add: server_inv_def)
  moreover have "inj_on fst (set (clients k))" using inv(2) by (simp add: distinct_map)
  from flying_left [OF inv(3) p(2) this left(1)] estate_left [OF inv(3) p(2) left(1), of ?k] tr c(1) er(1)
  have "goes_on E k w mp ?k w' mp" by (simp add: goes_on_def flights_kept_def)
  moreover have "same_listener k ?k" using assms(4) by (simp add: same_listener_def)
  moreover have "client_of w' (r, s) = client_of w (r, s)" if "map_of (clients k) r = Some s" "r \<noteq> ?q" for r s
    using left_others(3) [OF inv(3) p(2) left(1), of "(r, s)"] map_of_SomeD [OF that(1)] that(2) by simp
  then have "abs_server ?k w' mp = (abs_server k w mp)\<lparr>posted := (posted (abs_server k w mp))(?q := None)\<rparr>"
    using er(3) by (auto simp: abs_server_def fun_eq_iff map_option_case split: option.split)
  ultimately show ?thesis using run by auto
qed

section \<open>The event handler\<close>

lemma server_inv_books:
  assumes "server_inv E qn B k w mp" and "rdmaListener k = Some l" and "srq l' = srq l"
    and "client_objs w' = client_objs w" "cqs w' = cqs w" "uses w' = uses w" "pools w' = pools w" "regions w' = regions w"
    and "ledger (trace w') = (fst B', snd (ledger (trace w)))" and "snd B' = snd B"
  shows "server_inv E qn B' (k\<lparr>rdmaListener := Some l'\<rparr>) w' mp"
proof -
  have "shape w' = shape w" using assms(8) by (simp add: shape_def fun_eq_iff)
  moreover have "listening (k\<lparr>rdmaListener := Some l'\<rparr>)"
    using server_invD(1) [OF assms(1)] assms(2,3) by (simp add: listening_def)
  ultimately show ?thesis
    using server_invD(2) [OF assms(1)] clients_inv_transfer [OF server_invD(3) [OF assms(1)], of w' B'] assms(4-10)
    by (simp add: server_inv_def)
qed

lemma server_ack:
  assumes "serving E qn" and "server_inv E qn B k w mp" and "rdmaListener k = Some l" and "event l = Some ev"
  shows "\<exists>k' w'. on_listener (ackEvent E) (k, w) = Some (Ok 0, (k', w')) \<and>
    server_inv E qn (book_acked B) k' w' mp \<and> same_listener k k' \<and> goes_on E k w mp k' w' mp \<and>
    abs_server k' w' mp = abs_server k w mp"
proof -
  let ?k = "k\<lparr>rdmaListener := Some (l\<lparr>event := None\<rparr>)\<rparr>"
  let ?w = "w\<lparr>trace := (CM (Rdma_ack_cm_event ev), R_int 0) # trace w\<rparr>"
  have "rc_of E (trace w) (CM (Rdma_ack_cm_event ev)) = 0" using assms(1) by (simp add: serving_def)
  note run = ack_run [OF assms(3,4) this]
  have "ledger (trace ?w) = (fst (book_acked B), snd (ledger (trace w)))"
    using clients_invD(5) [OF server_invD(3) [OF assms(2)]]
    by (cases B) (auto simp: books_ok_def ledger_def cm_tally_def book_acked_def)
  with server_inv_books [OF assms(2,3), of "l\<lparr>event := None\<rparr>" ?w "book_acked B"]
  have "server_inv E qn (book_acked B) ?k ?w mp" by simp
  moreover have "same_listener k ?k" using assms(3) by (simp add: same_listener_def)
  moreover have "abs_server ?k ?w mp = abs_server k w mp"
    using client_of_cong [of ?w w] by (simp add: abs_server_def)
  moreover have "goes_on E k w mp ?k ?w mp"
    by (rule goes_on_call) simp_all
  ultimately show ?thesis using run by blast
qed

text \<open>After \<open>waitForEvent\<close> the event is taken and the books have one more.\<close>

lemma server_wait:
  fixes w :: "'a cworld_scheme"
  assumes "serving E qn" and "server_inv E qn B k w mp" and "rdmaListener k = Some l"
    and "event_of E (trace w) (CM (Rdma_get_cm_event (eventChannel l))) = (0, Some ev)"
  defines "k1 \<equiv> k\<lparr>rdmaListener := Some (l\<lparr>event := Some ev\<rparr>)\<rparr>"
  shows "\<exists>w1. on_listener (waitForEvent E) (k, w) = Some (Ok 0, (k1, w1)) \<and>
    on_listener getEventType (k1, w1) = Some (Ok (ev_type ev), (k1, w1)) \<and>
    server_inv E qn (book_taken B) k1 w1 mp \<and> goes_on E k w mp k1 w1 mp \<and> abs_server k1 w1 mp = abs_server k w mp"
proof -
  let ?w = "w\<lparr>trace := (CM (Rdma_get_cm_event (eventChannel l)), R_event (0, Some ev)) # trace w\<rparr>"
  have "\<not> logging E" using assms(1) by (simp add: serving_def fair_env_def)
  then have "on_listener (waitForEvent E) (k, w) = Some (Ok 0, (k1, ?w))"
    using assms(3,4) by (simp add: k1_def on_listener_run waitForEvent_def run_simps)
  moreover have "on_listener getEventType (k1, ?w) = Some (Ok (ev_type ev), (k1, ?w))"
    by (simp add: k1_def on_listener_run getEventType_def through_event_def run_simps)
  moreover have "ledger (trace ?w) = (fst (book_taken B), snd (ledger (trace w)))"
    using clients_invD(5) [OF server_invD(3) [OF assms(2)]]
    by (cases B) (auto simp: books_ok_def ledger_def cm_tally_def book_taken_def)
  with server_inv_books [OF assms(2,3), of "l\<lparr>event := Some ev\<rparr>" ?w "book_taken B"]
  have "server_inv E qn (book_taken B) k1 ?w mp" by (simp add: k1_def)
  moreover have "goes_on E k w mp k1 ?w mp"
    by (rule goes_on_call) (simp_all add: k1_def)
  moreover have "abs_server k1 ?w mp = abs_server k w mp"
    using client_of_cong [of ?w w] by (simp add: abs_server_def k1_def)
  ultimately show ?thesis by blast
qed

lemma server_inv_same:
  "server_inv E qn B k w mp \<Longrightarrow> same_session w w' \<Longrightarrow> server_inv E qn B k w' mp"
  by (auto simp: server_inv_def intro: clients_inv_same)

lemma handler_acks:
  assumes "serving E qn" and "server_inv E qn (book_taken B) k w mp" and "rdmaListener k = Some l" and "event l = Some ev"
  shows "\<exists>k' w'. bindM (on_listener (ackEvent E)) (\<lambda>_. returnM ()) (k, w) = Some (Ok (), (k', w')) \<and>
    server_inv E qn (book_handled B) k' w' mp \<and> same_listener k k' \<and> goes_on E k w mp k' w' mp \<and>
    abs_server k' w' mp = abs_server k w mp"
  using server_ack [OF assms] by auto

lemma event_refines':
  fixes w :: "'a cworld_scheme"
  assumes "serving E qn" and "map_laws U" and "server_inv E qn B k w mp" and "rdmaListener k = Some l"
    and "event_of E (trace w) (CM (Rdma_get_cm_event (eventChannel l))) = (0, Some ev)"
    and "valid_event qn (abs_server k w mp) ev"
  shows "case serve (ev_type ev) (qn (ev_id ev)) (abs_server k w mp) of
      None \<Rightarrow> eventChannelHandler E U (k, w) = None
    | Some a \<Rightarrow> \<exists>k' w' mp'. eventChannelHandler E U (k, w) = Some (Ok (), (k', w')) \<and>
        server_inv E qn (book_handled B) k' w' mp' \<and> same_listener k k' \<and> goes_on E k w mp k' w' mp' \<and>
        abs_server k' w' mp' = a"
proof -
  let ?k = "k\<lparr>rdmaListener := Some (l\<lparr>event := Some ev\<rparr>)\<rparr>"
  from server_wait [OF assms(1,3-5)] obtain w1 where wait: "on_listener (waitForEvent E) (k, w) = Some (Ok 0, (?k, w1))"
    and ty: "on_listener getEventType (?k, w1) = Some (Ok (ev_type ev), (?k, w1))"
    and inv: "server_inv E qn (book_taken B) ?k w1 mp" and fl: "goes_on E k w mp ?k w1 mp" and ab: "abs_server ?k w1 mp = abs_server k w mp" by blast
  have l: "rdmaListener ?k = Some (l\<lparr>event := Some ev\<rparr>)" "event (l\<lparr>event := Some ev\<rparr>) = Some ev" by simp_all
  from assms(6) have id: "ev_id ev \<noteq> 0" by (simp add: valid_event_def)
  note ack = handler_acks [OF assms(1)]
  have same_l: "same_listener k ?k" using assms(4) by (simp add: same_listener_def)
  note listener = same_listener_trans [OF this] and flights = goes_on_trans [OF fl]
  consider "ev_type ev = RDMA_CM_EVENT_CONNECT_REQUEST" | "ev_type ev = RDMA_CM_EVENT_ESTABLISHED"
    | "ev_type ev = RDMA_CM_EVENT_DISCONNECTED" | "ev_type ev = RDMA_CM_EVENT_ADDR_RESOLVED"
    | "ev_type ev = RDMA_CM_EVENT_ROUTE_RESOLVED" | n where "ev_type ev = RDMA_CM_EVENT_OTHER n"
    by (cases "ev_type ev")
  then show ?thesis
  proof cases
    case 1
    then have "qn (ev_id ev) \<notin> dom (posted (abs_server ?k w1 mp))" using assms(6) ab by (simp add: valid_event_def)
    note req = request_refines [OF assms(1,2) inv l id this]
    show ?thesis
    proof (cases "serve RDMA_CM_EVENT_CONNECT_REQUEST (qn (ev_id ev)) (abs_server k w mp)")
      case None
      with req ab wait ty 1 show ?thesis by (simp add: eventChannelHandler_def)
    next
      case (Some a)
      with req ab obtain m w2 mp' where run: "connect_request E U (?k, w1) = Some (Ok True, (?k\<lparr>clients := m\<rparr>, w2))"
        and inv2: "server_inv E qn (book_taken B) (?k\<lparr>clients := m\<rparr>) w2 mp'"
        and a: "abs_server (?k\<lparr>clients := m\<rparr>) w2 mp' = a" and f2: "goes_on E ?k w1 mp (?k\<lparr>clients := m\<rparr>) w2 mp'" by auto
      have "rdmaListener (?k\<lparr>clients := m\<rparr>) = Some (l\<lparr>event := Some ev\<rparr>)" by simp
      from ack [OF inv2 this l(2)] obtain k' w' where
        "bindM (on_listener (ackEvent E)) (\<lambda>_. returnM ()) (?k\<lparr>clients := m\<rparr>, w2) = Some (Ok (), (k', w'))"
        "server_inv E qn (book_handled B) k' w' mp'" "same_listener (?k\<lparr>clients := m\<rparr>) k'" "abs_server k' w' mp' = a"
        "goes_on E (?k\<lparr>clients := m\<rparr>) w2 mp' k' w' mp'" using a by blast
      moreover from this(3) have "same_listener k k'" by (intro listener) (simp add: same_listener_def)
      moreover note flights [OF goes_on_trans [OF f2 calculation(5)]]
      ultimately show ?thesis using wait ty 1 run Some by (simp add: eventChannelHandler_def bindM_run) blast
    qed
  next
    case 2
    then have "qn (ev_id ev) \<in> dom (posted (abs_server ?k w1 mp))" using assms(6) ab by (simp add: valid_event_def)
    from established_same [OF assms(1) inv l id this, of U] obtain w2 where
      run: "established E U (?k, w1) = Some (Ok (), (?k, w2))" and same: "same_session w1 w2" by blast
    from ack [OF server_inv_same [OF inv same] l] obtain k' w' where
      "bindM (on_listener (ackEvent E)) (\<lambda>_. returnM ()) (?k, w2) = Some (Ok (), (k', w'))"
      "server_inv E qn (book_handled B) k' w' mp" "same_listener k k'" "abs_server k' w' mp = abs_server k w mp"
      "goes_on E k w mp k' w' mp"
      using listener goes_on_trans [OF flights [OF goes_on_same [OF same refl refl]]] same_session_abs [OF same, of ?k mp] ab by auto
    with wait ty 2 run show ?thesis by (simp add: eventChannelHandler_def bindM_run) blast
  next
    case 3
    then have "qn (ev_id ev) \<in> dom (posted (abs_server ?k w1 mp))" using assms(6) ab by (simp add: valid_event_def)
    from disconnect_refines [OF assms(1,2) inv l id this] obtain k' w' where
      "disconnected E U (?k, w1) = Some (Ok (), (k', w'))" "server_inv E qn (book_handled B) k' w' mp" "same_listener k k'"
      "goes_on E k w mp k' w' mp"
      "Some (abs_server k' w' mp) = serve RDMA_CM_EVENT_DISCONNECTED (qn (ev_id ev)) (abs_server k w mp)"
      using ab listener flights by auto
    with wait ty 3 show ?thesis by (simp add: eventChannelHandler_def bindM_run) blast
  qed (use ack [OF inv l] wait ty ab listener flights in \<open>force simp: eventChannelHandler_def bindM_run\<close>)+
qed

text \<open>C3: The event handler refines the abstract server.  Whatever valid event comes next, the
  handler either never returns, exactly when the abstract server says so, or it returns without
  an error, all invariants hold again, the event has been acknowledged, and the abstract state
  is the one the abstract server computes.\<close>

theorem event_refines:
  fixes w :: "'a cworld_scheme"
  assumes "serving E qn" and "map_laws U" and "server_inv E qn B k w mp" and "rdmaListener k = Some l"
    and "event_of E (trace w) (CM (Rdma_get_cm_event (eventChannel l))) = (0, Some ev)"
    and "valid_event qn (abs_server k w mp) ev"
  shows "case serve (ev_type ev) (qn (ev_id ev)) (abs_server k w mp) of
      None \<Rightarrow> eventChannelHandler E U (k, w) = None
    | Some a \<Rightarrow> \<exists>k' w' mp'. eventChannelHandler E U (k, w) = Some (Ok (), (k', w')) \<and>
        server_inv E qn (book_handled B) k' w' mp' \<and> abs_server k' w' mp' = a"
  using event_refines' [OF assms] by (auto split: option.splits)

section \<open>A server with a new pool\<close>

definition env_script :: "cm_event list \<Rightarrow> env" where
  "env_script evs = env_ok\<lparr>event_of := (\<lambda>t c. case c of
     CM (Rdma_get_cm_event ch) \<Rightarrow> (0, Some (evs ! cm_taken t)) | _ \<Rightarrow> (0, None))\<rparr>"

definition idle_world :: cworld where
  "idle_world = pool_world\<lparr>uses := (\<lambda>r. if r = Pool_ref 1 then 1 else 0)\<rparr>"

definition empty_books :: books where
  "empty_books = ((0, 0), {#}, {#})"

lemma env_script_serving: "serving (env_script evs) (\<lambda>i. 17)"
proof -
  have "fair_env (env_script evs)" using fair_env_ok
    by (simp add: fair_env_def honest_reg_def dereg_ok_def errno_set_def env_script_def)
  moreover have "accepting (env_script evs) i 17" for i
    using accepting_ok [of i] by (simp add: accepting_def env_script_def)
  ultimately show ?thesis by (simp add: serving_def env_script_def)
qed

lemma idle_server:
  obtains mp where "server_inv (env_script evs) (\<lambda>i. 17) empty_books ctl_ready idle_world mp"
    "length (free_list (small mp)) = 64"
proof -
  obtain mp where mp: "heap_get (pools pool_world) 1 = Some mp" "mp_inv (mp, pool_world)"
    and small: "length (free_list (small mp)) = 64" by (rule pool_world_facts)
  have k: "clients ctl_ready = []" "ctl_pool ctl_ready = 1" "preConnectionFunction ctl_ready = None"
    "connectionFunction ctl_ready = None" "protectionDomain ctl_ready = Some \<lparr>pd_ptr = 70\<rparr>"
    "rdmaListener ctl_ready = Some (listener_1 RDMA_CM_EVENT_CONNECT_REQUEST)"
    "srq (listener_1 RDMA_CM_EVENT_CONNECT_REQUEST) = 0"
    by (simp_all add: ctl_ready_def ctl_1_def RdmaController_def listener_1_def)
  have inv: "mp_inv (mp, idle_world)"
    using mp(2) by (rule mp_inv_cong [THEN iffD1, rotated]) (simp add: idle_world_def)
  have "heap_live (client_objs idle_world) = {}" "heap_live (cqs idle_world) = {}" "trace idle_world = []"
    by (simp_all add: idle_world_def pool_world_def heap_live_def heap_get_def)
  then have "clients_inv (env_script evs) (\<lambda>i. 17) 1 empty_books {} idle_world mp"
    using mp(1) inv
    by (simp add: clients_inv_def apart_def no_garbage_def books_ok_def empty_books_def ledger_def cm_tally_def uses_ok_def)
       (simp add: idle_world_def)
  then have "server_inv (env_script evs) (\<lambda>i. 17) empty_books ctl_ready idle_world mp"
    using k by (simp add: server_inv_def listening_def)
  with that small show thesis by blast
qed

text \<open>The same peer comes, is established, and goes; then it comes again.\<close>

definition come_and_go :: "cm_event list" where
  "come_and_go = [event_1 RDMA_CM_EVENT_CONNECT_REQUEST, event_1 RDMA_CM_EVENT_ESTABLISHED,
     event_1 RDMA_CM_EVENT_DISCONNECTED]"

lemma event_1_simps [simp]: "ev_type (event_1 ty) = ty" "ev_id (event_1 ty) = 64"
  by (simp_all add: event_1_def)

lemma listener_1_channel [simp]: "eventChannel (listener_1 ty) = 6"
  by (simp add: listener_1_def)

lemma ctl_ready_simps [simp]: "clients ctl_ready = []" "ctl_pool ctl_ready = 1"
    "rdmaListener ctl_ready = Some (listener_1 RDMA_CM_EVENT_CONNECT_REQUEST)"
  by (simp_all add: ctl_ready_def ctl_1_def RdmaController_def)

lemma abs_idle: "abs_server ctl_ready w mp = \<lparr>posted = Map.empty, free = length (free_list (small mp))\<rparr>"
  by (simp add: abs_server_def)

lemma serve_first:
  "serve RDMA_CM_EVENT_CONNECT_REQUEST q \<lparr>posted = Map.empty, free = n\<rparr> =
     (if 32 \<le> n then Some \<lparr>posted = [q \<mapsto> 32], free = n - 32\<rparr> else None)"
  by (auto simp: hunger_def)

theorem event_refines_witness:
  "\<exists>k' w' mp'. eventChannelHandler (env_script come_and_go) list_map (ctl_ready, idle_world) = Some (Ok (), (k', w')) \<and>
     abs_server k' w' mp' = \<lparr>posted = [17 \<mapsto> 32], free = 32\<rparr>"
proof -
  obtain mp where inv: "server_inv (env_script come_and_go) (\<lambda>i. 17) empty_books ctl_ready idle_world mp"
    and n: "length (free_list (small mp)) = 64" by (rule idle_server)
  have l: "rdmaListener ctl_ready = Some (listener_1 RDMA_CM_EVENT_CONNECT_REQUEST)" by simp
  have "cm_taken (trace idle_world) = 0" by (simp add: idle_world_def pool_world_def)
  then have "event_of (env_script come_and_go) (trace idle_world) (CM (Rdma_get_cm_event 6)) =
      (0, Some (event_1 RDMA_CM_EVENT_CONNECT_REQUEST))" by (simp add: env_script_def come_and_go_def)
  then show ?thesis
    using event_refines [OF env_script_serving list_map_laws inv l, of "event_1 RDMA_CM_EVENT_CONNECT_REQUEST"] n
    by (auto simp: abs_idle valid_event_def serve_first simp del: serve.simps(1))
qed

end
