(* ===== verification/ServerLife.thy ===== *)
theory ServerLife
  imports ServerSession
begin

text \<open>
  The life of a server: whole sequences of events, what they leave, how many requests a server
  can answer, and how a completed receive gives its block back.
\<close>

section \<open>Whole sessions\<close>

fun serve_all :: "(u64 \<Rightarrow> u32) \<Rightarrow> cm_event list \<Rightarrow> server_spec \<Rightarrow> server_spec option" where
  "serve_all qn [] a = Some a"
| "serve_all qn (ev # evs) a = Option.bind (serve (ev_type ev) (qn (ev_id ev)) a) (serve_all qn evs)"

fun valid_run :: "(u64 \<Rightarrow> u32) \<Rightarrow> cm_event list \<Rightarrow> server_spec \<Rightarrow> bool" where
  "valid_run qn [] a \<longleftrightarrow> True"
| "valid_run qn (ev # evs) a \<longleftrightarrow> valid_event qn a ev \<and>
     (case serve (ev_type ev) (qn (ev_id ev)) a of None \<Rightarrow> True | Some b \<Rightarrow> valid_run qn evs b)"

text \<open>The handler is called for one event after the other; the channel delivers the script.\<close>

fun handle_events :: "env \<Rightarrow> map_api \<Rightarrow> nat \<Rightarrow> ('a, unit) ctl" where
  "handle_events E U 0 = returnM ()"
| "handle_events E U (Suc n) = thenM (eventChannelHandler E U) (handle_events E U n)"

definition delivers :: "env \<Rightarrow> u64 \<Rightarrow> cm_event list \<Rightarrow> bool" where
  "delivers E ch evs \<longleftrightarrow> (\<forall>t. cm_taken t < length evs \<longrightarrow>
     event_of E t (CM (Rdma_get_cm_event ch)) = (0, Some (evs ! cm_taken t)))"

text \<open>The books after \<open>n\<close> events.\<close>

definition book_after :: "nat \<Rightarrow> books \<Rightarrow> books" where
  "book_after n B = ((fst (fst B), snd (fst B) + n), snd B)"

lemma book_after_simps [simp]: "book_after 0 B = B" "book_after n (book_handled B) = book_after (Suc n) B"
    "snd (book_after n B) = snd B" "fst (fst (book_after n B)) = fst (fst B)"
  by (simp_all add: book_after_def book_handled_def)

lemma session_refines':
  fixes w :: "'a cworld_scheme"
  assumes "serving E qn" and "map_laws U" and "server_inv E qn B k w mp" and "rdmaListener k = Some l"
    and "delivers E (eventChannel l) evs" and "drop (snd (fst B)) evs = todo"
    and "valid_run qn todo (abs_server k w mp)"
  shows "case serve_all qn todo (abs_server k w mp) of
      None \<Rightarrow> handle_events E U (length todo) (k, w) = None
    | Some a \<Rightarrow> \<exists>k' w' mp'. handle_events E U (length todo) (k, w) = Some (Ok (), (k', w')) \<and>
        server_inv E qn (book_after (length todo) B) k' w' mp' \<and> abs_server k' w' mp' = a"
  using assms(3-7)
proof (induction todo arbitrary: k w mp B l)
  case Nil
  then show ?case by auto
next
  case (Cons ev todo)
  let ?n = "snd (fst B)" and ?a = "abs_server k w mp"
  have n: "?n < length evs" using Cons.prems(4) by (metis drop_all list.distinct(1) not_le_imp_less)
  then have ev: "evs ! ?n = ev" "drop (Suc ?n) evs = todo"
    using Cons.prems(4) by (simp_all add: Cons_nth_drop_Suc [symmetric])
  have "cm_taken (trace w) = ?n"
    using clients_invD(5) [OF server_invD(3) [OF Cons.prems(1)]] by (cases B) (auto simp: books_ok_def ledger_def cm_tally_def)
  then have next_ev: "event_of E (trace w) (CM (Rdma_get_cm_event (eventChannel l))) = (0, Some ev)"
    using Cons.prems(3) n ev(1) by (auto simp: delivers_def)
  from Cons.prems(5) have valid: "valid_event qn ?a ev" by simp
  note ref = event_refines' [OF assms(1,2) Cons.prems(1,2) next_ev valid]
  show ?case
  proof (cases "serve (ev_type ev) (qn (ev_id ev)) ?a")
    case None
    with ref show ?thesis by simp
  next
    case (Some b)
    with ref obtain k1 w1 mp1 where run: "eventChannelHandler E U (k, w) = Some (Ok (), (k1, w1))"
      and inv: "server_inv E qn (book_handled B) k1 w1 mp1" and same: "same_listener k k1" and b: "abs_server k1 w1 mp1 = b"
      by auto
    from same_listener_channel [OF same Cons.prems(2)] obtain l1 where
      l1: "rdmaListener k1 = Some l1" "eventChannel l1 = eventChannel l" by blast
    have "valid_run qn todo (abs_server k1 w1 mp1)" using Cons.prems(5) Some b by simp
    with Cons.IH [OF inv l1(1)] l1(2) Cons.prems(3) ev(2) run Some b show ?thesis
      by (cases "serve_all qn todo b") simp_all
  qed
qed

text \<open>C4: A whole session.  For every sequence of events that the connection manager can deliver,
  handling them one after the other returns if and only if the abstract server gets through; then
  no call ended with an error, the invariant of all clients holds, every event was acknowledged,
  and the final state is what the abstract server computes.\<close>

theorem session_refines:
  fixes w :: "'a cworld_scheme"
  assumes "serving E qn" and "map_laws U" and "server_inv E qn B k w mp" and "rdmaListener k = Some l"
    and "delivers E (eventChannel l) evs" and "snd (fst B) = 0" and "valid_run qn evs (abs_server k w mp)"
  shows "case serve_all qn evs (abs_server k w mp) of
      None \<Rightarrow> handle_events E U (length evs) (k, w) = None
    | Some a \<Rightarrow> \<exists>k' w' mp'. handle_events E U (length evs) (k, w) = Some (Ok (), (k', w')) \<and>
        server_inv E qn (book_after (length evs) B) k' w' mp' \<and> abs_server k' w' mp' = a"
  using session_refines' [OF assms(1-5) _ assms(7)] assms(6) by simp

section \<open>The life of a server\<close>

definition requests :: "cm_event list \<Rightarrow> nat" where
  "requests evs = length (filter (\<lambda>ev. ev_type ev = RDMA_CM_EVENT_CONNECT_REQUEST) evs)"

definition all_full :: "server_spec \<Rightarrow> bool" where
  "all_full a \<longleftrightarrow> ran (posted a) \<subseteq> {32}"

lemma full_hunger: "all_full a \<Longrightarrow> hunger a = 0"
  by (auto simp: all_full_def hunger_def ran_def)

lemma serve_full:
  assumes "all_full a"
  shows "case serve ty q a of
      None \<Rightarrow> ty = RDMA_CM_EVENT_CONNECT_REQUEST \<and> free a < 32
    | Some b \<Rightarrow> all_full b \<and> free b + (if ty = RDMA_CM_EVENT_CONNECT_REQUEST then 32 else 0) = free a"
  using assms full_hunger [OF assms] by (cases ty) (auto simp: all_full_def ran_def split: if_splits)

lemma serve_all_full:
  assumes "all_full a"
  shows "case serve_all qn evs a of
      None \<Rightarrow> free a < 32 * requests evs
    | Some b \<Rightarrow> all_full b \<and> free b + 32 * requests evs = free a"
  using assms
proof (induction evs arbitrary: a)
  case Nil
  then show ?case by (simp add: requests_def)
next
  case (Cons ev evs)
  show ?case
  proof (cases "serve (ev_type ev) (qn (ev_id ev)) a")
    case None
    with serve_full [OF Cons.prems, of "ev_type ev" "qn (ev_id ev)"] show ?thesis by (simp add: requests_def)
  next
    case (Some b)
    with serve_full [OF Cons.prems, of "ev_type ev" "qn (ev_id ev)"] have
      b: "all_full b" "free b + (if ev_type ev = RDMA_CM_EVENT_CONNECT_REQUEST then 32 else 0) = free a" by simp_all
    from Cons.IH [OF b(1)] b(2) Some show ?thesis
      by (cases "serve_all qn evs b") (auto simp: requests_def split: if_splits)
  qed
qed

lemma no_clients_full: "clients k = [] \<Longrightarrow> all_full (abs_server k w mp)"
  by (simp add: all_full_def abs_server_def ran_def)

lemma session_ends:
  fixes w :: "'a cworld_scheme"
  assumes "serving E qn" and "map_laws U" and "server_inv E qn B k w mp" and "rdmaListener k = Some l"
    and "delivers E (eventChannel l) evs" and "snd (fst B) = 0" and "valid_run qn evs (abs_server k w mp)"
    and "clients k = []"
  shows "if 32 * requests evs \<le> length (free_list (small mp))
    then \<exists>k' w' mp'. handle_events E U (length evs) (k, w) = Some (Ok (), (k', w')) \<and>
      server_inv E qn (book_after (length evs) B) k' w' mp' \<and>
      serve_all qn evs (abs_server k w mp) = Some (abs_server k' w' mp') \<and>
      length (free_list (small mp')) + 32 * requests evs = length (free_list (small mp))
    else handle_events E U (length evs) (k, w) = None"
proof -
  note ref = session_refines' [OF assms(1-5) _ assms(7)]
  note full = serve_all_full [OF no_clients_full [OF assms(8), of w mp], of evs qn]
  show ?thesis
  proof (cases "serve_all qn evs (abs_server k w mp)")
    case None
    with ref full assms(6) show ?thesis by simp
  next
    case (Some a)
    with ref assms(6) obtain k' w' mp' where "handle_events E U (length evs) (k, w) = Some (Ok (), (k', w'))"
      "server_inv E qn (book_after (length evs) B) k' w' mp'" "abs_server k' w' mp' = a" by auto
    moreover from this(3) Some full have "length (free_list (small mp')) + 32 * requests evs = length (free_list (small mp))"
      by auto
    ultimately show ?thesis using Some by auto
  qed
qed

text \<open>C9: The pool bounds the life of a server.  From a server without clients, any sequence of
  events is handled if it has at most one connection request per 32 free small blocks; the request
  after that never returns, however many of the earlier clients have disconnected: a disconnect
  gives none of the posted blocks back.\<close>

theorem server_capacity:
  fixes w :: "'a cworld_scheme"
  assumes "serving E qn" and "map_laws U" and "server_inv E qn B k w mp" and "rdmaListener k = Some l"
    and "delivers E (eventChannel l) evs" and "snd (fst B) = 0" and "valid_run qn evs (abs_server k w mp)"
    and "clients k = []"
  shows "if 32 * requests evs \<le> length (free_list (small mp))
    then \<exists>k' w' mp'. handle_events E U (length evs) (k, w) = Some (Ok (), (k', w')) \<and>
      heap_get (pools w') (ctl_pool k') = Some mp' \<and>
      length (free_list (small mp')) + 32 * requests evs = length (free_list (small mp))
    else handle_events E U (length evs) (k, w) = None"
  using session_ends [OF assms] by (auto simp: server_inv_def clients_inv_def split: if_splits)

text \<open>C7: When all clients that came have gone, the server is as it was: no client, no completion
  queue and no message region is left, every registration and mapping that was made for them has
  been taken back, every event is acknowledged and the pool is held by the controller alone; only
  the blocks of the pool, 32 for each request, are missing.\<close>

theorem session_balanced:
  fixes w :: "'a cworld_scheme"
  assumes "serving E qn" and "map_laws U" and "server_inv E qn B k w mp" and "rdmaListener k = Some l"
    and "delivers E (eventChannel l) evs" and "snd (fst B) = 0" and "valid_run qn evs (abs_server k w mp)"
    and "clients k = []" and "32 * requests evs \<le> length (free_list (small mp))"
    and "\<exists>n. serve_all qn evs (abs_server k w mp) = Some \<lparr>posted = Map.empty, free = n\<rparr>"
  shows "\<exists>k' w' mp'. handle_events E U (length evs) (k, w) = Some (Ok (), (k', w')) \<and> clients k' = [] \<and>
    heap_live (client_objs w') = {} \<and> heap_live (cqs w') = {} \<and>
    live_mrs (trace w') = live_mrs (trace w) \<and> live_maps (trace w') = live_maps (trace w) \<and>
    cm_unacked (trace w') = cm_unacked (trace w) \<and> uses w' (Pool_ref (ctl_pool k')) = 1 \<and>
    heap_get (pools w') (ctl_pool k') = Some mp' \<and> mp_inv (mp', w') \<and>
    length (free_list (small mp')) + 32 * requests evs = length (free_list (small mp))"
proof -
  from session_ends [OF assms(1-8)] assms(9) obtain k' w' mp' where
    run: "handle_events E U (length evs) (k, w) = Some (Ok (), (k', w'))"
    and inv: "server_inv E qn (book_after (length evs) B) k' w' mp'"
    and a: "serve_all qn evs (abs_server k w mp) = Some (abs_server k' w' mp')"
    and n: "length (free_list (small mp')) + 32 * requests evs = length (free_list (small mp))" by auto
  from a assms(10) have "posted (abs_server k' w' mp') = Map.empty" by auto
  then have "fst ` set (clients k') = {}" unfolding dom_abs [of k' w' mp', symmetric] by simp
  then have none: "clients k' = []" by simp
  note c = server_invD(3) [OF inv, unfolded none] and c0 = server_invD(3) [OF assms(3), unfolded assms(8)]
  from clients_invD(4,5) [OF c] clients_invD(5) [OF c0] show ?thesis
    using run none clients_invD(6,7) [OF c] n
    by (intro exI [of _ k'] exI [of _ w'] exI [of _ mp'])
       (cases B, auto simp: no_garbage_def books_ok_def ledger_def cm_tally_def book_after_def)
qed

section \<open>A receive completes\<close>

text \<open>Counters of the clients and free lists of the pool do not matter to the invariant.\<close>

lemma clients_inv_counts:
  assumes "clients_inv E qn pl B S w mp"
    and "cqs w' = cqs w" "uses w' = uses w" "shape w' = shape w" "ledger (trace w') = ledger (trace w)"
    and clients: "\<And>x. x \<in> S \<Longrightarrow> heap_get (client_objs w') (snd x) \<noteq> None \<and>
      conn_core (client_of w' x) = conn_core (client_of w x) \<and> hungry E pl (client_of w' x)"
    and others: "\<And>p. p \<notin> snd ` S \<Longrightarrow> heap_get (client_objs w') p = heap_get (client_objs w) p"
    and pool: "heap_get (pools w') pl = Some mp'" "mp_inv (mp', w')" "all_blocks mp' = all_blocks mp"
  shows "clients_inv E qn pl B S w' mp'"
proof -
  note inv = clients_invD [OF assms(1)]
  have same: "cmId (client_of w' x) = cmId (client_of w x)" "cq_of w' x = cq_of w x" "regions_of w' x = regions_of w x"
    "held_mrs w' x = held_mrs w x" "held_maps w' x = held_maps w x"
    "inMessageRegion (client_of w' x) = inMessageRegion (client_of w x)"
    "outMessageRegion (client_of w' x) = outMessageRegion (client_of w x)" if "x \<in> S" for x
  proof -
    have sh: "mrp w' = mrp w" "fp w' = fp w" using assms(4) shape_cong [of w' _ w] by (simp_all add: fun_eq_iff)
    from conn_core_fields [of "client_of w' x" "client_of w x"] clients [OF that]
    have "cmId (client_of w' x) = cmId (client_of w x)" "connection.more (client_of w' x) = connection.more (client_of w x)"
      by blast+
    with sh show "cmId (client_of w' x) = cmId (client_of w x)" "cq_of w' x = cq_of w x" "regions_of w' x = regions_of w x"
      "held_mrs w' x = held_mrs w x" "held_maps w' x = held_maps w x"
      "inMessageRegion (client_of w' x) = inMessageRegion (client_of w x)"
      "outMessageRegion (client_of w' x) = outMessageRegion (client_of w x)"
      by (cases "client_of w' x"; cases "client_of w x"; simp add: cq_of_def regions_of_def held_mrs_def held_maps_def)+
  qed
  have "entry_ok E qn pl w' x" if x: "x \<in> S" for x
  proof -
    have "heap_get (client_objs w') (snd x) = Some (client_of w' x)"
      using clients [OF x] by (auto simp: client_of_def)
    moreover have "region_ptr_ok w' = region_ptr_ok w" using assms(4) shape_cong(3) [of w' _ w] by (simp add: fun_eq_iff)
    ultimately show ?thesis using inv(2) [OF x] same [OF x] clients [OF x] assms(2,3)
      by (simp add: entry_ok_client Let_def)
  qed
  moreover have "apart S w' mp'" using inv(3) same pool(3) by (auto simp: apart_def inj_on_def)
  moreover have live: "heap_get (client_objs w') p = None \<longleftrightarrow> heap_get (client_objs w) p = None" for p
  proof (cases "p \<in> snd ` S")
    case True
    then obtain x where x: "x \<in> S" "p = snd x" by blast
    with clients [OF x(1)] inv(2) [OF x(1)] show ?thesis by (simp add: entry_ok_client Let_def)
  next
    case False
    with others show ?thesis by simp
  qed
  then have "no_garbage pl S w'"
    using inv(4) same(2) assms(2,3) by (simp add: no_garbage_def heap_live_def uses_ok_def)
  moreover have "books_ok B S w'" using inv(5) same(4,5) assms(5) by (simp add: books_ok_def)
  ultimately show ?thesis using inv(1) pool by (simp add: clients_inv_def)
qed

text \<open>The block goes back to the pool.\<close>

lemma give_small:
  assumes "mp_inv (mp, w)" and "r \<in> outstanding (small mp)"
  obtains mp' where "deallocate E r (mp, w) = Some (Ok (), (mp', w))" "mp_inv (mp', w)" "all_blocks mp' = all_blocks mp"
    "length (free_list (small mp')) = Suc (length (free_list (small mp)))"
    "outstanding (small mp') = outstanding (small mp) - {r}"
proof -
  have r: "r \<in> set (block_list (container Small mp))" using assms(2) by (simp add: outstanding_def)
  have "pool_inv (small mp)" using mp_invD(1) [OF assms(1), of Small] by simp
  from push_inv [OF this assms(2), of E "(mp, w)"] obtain pc where
    p: "push E r (small mp, (mp, w)) = Some (Ok (), (pc, (mp, w)))" "pool_inv pc" "free_list pc = free_list (small mp) @ [r]"
      "block_list pc = block_list (small mp)" "chunk_size pc = chunk_size (small mp)"
      "outstanding pc = outstanding (small mp) - {r}" by blast
  let ?mp = "set_container Small pc mp"
  have "deallocate E r (mp, w) = Some (Ok (), (?mp, w))"
    using deallocate_chunk [OF assms(1) mp_invD(3) [OF assms(1) r], of E] p(1) by (simp add: on_chunk_run)
  moreover have "mp_inv (?mp, w)"
    using assms(1) p(2,4,5) by (auto simp: mp_inv_def block_at_def all_chunk split: if_splits)
  ultimately show thesis using that p(3,4,6) by (simp add: all_blocks_def)
qed

lemma receive_recycled':
  fixes w :: "'a cworld_scheme"
  assumes "server_inv E qn B k w mp" and "map_of (clients k) q = Some p" and "r \<in> outstanding (small mp)"
    and "posted (abs_server k w mp) q = Some (Suc n)"
  shows "\<exists>w' mp'. thenM (on_client p popReceive) (on_pool (ctl_pool k) (deallocate E r)) w = Some (Ok (), w') \<and>
    server_inv E qn B k w' mp' \<and>
    abs_server k w' mp' = \<lparr>posted = (posted (abs_server k w mp))(q \<mapsto> n), free = Suc (free (abs_server k w mp))\<rparr> \<and>
    trace w' = trace w \<and> cqs w' = cqs w \<and> shape w' = shape w \<and> outstanding (small mp') = outstanding (small mp) - {r} \<and>
    all_blocks mp' = all_blocks mp \<and>
    (\<forall>x \<in> set (clients k). cq_of w' x = cq_of w x \<and> cmId (client_of w' x) = cmId (client_of w x) \<and> regions_of w' x = regions_of w x)"
proof -
  let ?pl = "ctl_pool k" and ?S = "set (clients k)"
  note inv = server_invD [OF assms(1)]
  note ci = clients_invD [OF inv(3)]
  have x: "(q, p) \<in> ?S" using assms(2) by (rule map_of_SomeD)
  from ci(2) [OF x] obtain c where c: "heap_get (client_objs w) p = Some c" "client_of w (q, p) = c" "hungry E ?pl c"
    by (auto elim!: entry_okE)
  have wr: "unat (waitingReceives c) = Suc n" using assms(2,4) c(2) by (simp add: abs_server_def)
  let ?c = "c\<lparr>waitingReceives := waitingReceives c - 1\<rparr>"
  have "waitingReceives c \<noteq> 0" using wr by auto
  then have "unat (waitingReceives c - 1) = n" using wr by (simp add: unat_minus_one)
  then have h: "hungry E ?pl ?c" "unat (waitingReceives ?c) = n"
    using c(3) wr by (simp_all add: hungry_def ready_conn_def)
  let ?w1 = "w\<lparr>client_objs := heap_put p ?c (client_objs w)\<rparr>"
  have pop: "on_client p popReceive w = Some (Ok (), ?w1)" using c(1) by (simp add: on_heap_run popReceive_def)
  have "mp_inv (mp, ?w1)" using ci(7) by (rule mp_inv_cong [THEN iffD1, rotated]) simp
  then obtain mp' where give: "deallocate E r (mp, ?w1) = Some (Ok (), (mp', ?w1))" "mp_inv (mp', ?w1)"
    "all_blocks mp' = all_blocks mp" "length (free_list (small mp')) = Suc (length (free_list (small mp)))"
    "outstanding (small mp') = outstanding (small mp) - {r}"
    by (rule give_small [OF _ assms(3)])
  let ?w2 = "?w1\<lparr>pools := heap_put ?pl mp' (pools w)\<rparr>"
  have run: "thenM (on_client p popReceive) (on_pool ?pl (deallocate E r)) w = Some (Ok (), ?w2)"
    using pop give(1) ci(6) by (simp add: on_heap_run)
  have get: "heap_get (client_objs ?w2) y = (if y = p then Some ?c else heap_get (client_objs w) y)" for y
    using c(1) by (simp add: heap_get_put)
  have co: "client_of ?w2 y = (if snd y = p then ?c else client_of w y)" for y by (simp add: client_of_def heap_get_put c(1))
  have only: "y = (q, p)" if "y \<in> ?S" "snd y = p" for y
    using ci(3) x that by (auto simp: apart_def inj_on_def)
  have "clients_inv E qn ?pl B ?S ?w2 mp'"
  proof (rule clients_inv_counts [OF inv(3)])
    fix y
    assume y: "y \<in> ?S"
    from ci(2) [OF y] have "heap_get (client_objs w) (snd y) = Some (client_of w y)" "hungry E ?pl (client_of w y)"
      by (auto elim!: entry_okE)
    with get co h(1) only [OF y] c(2) show "heap_get (client_objs ?w2) (snd y) \<noteq> None \<and>
        conn_core (client_of ?w2 y) = conn_core (client_of w y) \<and> hungry E ?pl (client_of ?w2 y)"
      by (cases "snd y = p") (auto simp: conn_core_def)
  next
    fix y
    assume "y \<notin> snd ` ?S"
    with x get show "heap_get (client_objs ?w2) y = heap_get (client_objs w) y" by force
  next
    show "mp_inv (mp', ?w2)" using give(2) by (rule mp_inv_cong [THEN iffD1, rotated]) simp
  qed (use give(3) ci(6) in \<open>simp_all add: shape_def fun_eq_iff heap_get_put\<close>)
  then have "server_inv E qn B k ?w2 mp'" using inv(1,2) by (simp add: server_inv_def)
  moreover have "posted (abs_server k ?w2 mp') s = ((posted (abs_server k w mp))(q \<mapsto> n)) s" for s
  proof (cases "s = q")
    case True
    with assms(2) co [of "(q, p)"] h(2) show ?thesis by (simp add: abs_server_def)
  next
    case False
    then have "map_of (clients k) s \<noteq> Some p" using only [OF map_of_SomeD, of s p] by auto
    with False co show ?thesis by (cases "map_of (clients k) s") (auto simp: abs_server_def)
  qed
  then have "abs_server k ?w2 mp' = \<lparr>posted = (posted (abs_server k w mp))(q \<mapsto> n), free = Suc (free (abs_server k w mp))\<rparr>"
    using give(4) by (intro server_spec.equality ext) simp_all
  moreover have "cq_of ?w2 x = cq_of w x \<and> cmId (client_of ?w2 x) = cmId (client_of w x) \<and> regions_of ?w2 x = regions_of w x"
    if "x \<in> ?S" for x
    using co [of x] only [OF that] c(2) by (auto simp: cq_of_def regions_of_def)
  moreover have "shape ?w2 = shape w" by (simp add: shape_def fun_eq_iff)
  ultimately show ?thesis using run give(3,5) by (intro exI [of _ ?w2] exI [of _ mp']) simp
qed

text \<open>What a completion function has to do for a completed receive: count it, and return its
  block.  Both together keep the invariant of the whole server, and what the peer has less the
  pool has more, so that the next request can post it again.\<close>

theorem receive_recycled:
  fixes w :: "'a cworld_scheme"
  assumes "server_inv E qn B k w mp" and "map_of (clients k) q = Some p" and "r \<in> outstanding (small mp)"
    and "posted (abs_server k w mp) q = Some (Suc n)"
  shows "\<exists>w' mp'. thenM (on_client p popReceive) (on_pool (ctl_pool k) (deallocate E r)) w = Some (Ok (), w') \<and>
    server_inv E qn B k w' mp' \<and>
    abs_server k w' mp' = \<lparr>posted = (posted (abs_server k w mp))(q \<mapsto> n), free = Suc (free (abs_server k w mp))\<rparr>"
  using receive_recycled' [OF assms] by blast

section \<open>Examples\<close>

lemma env_script_delivers: "delivers (env_script evs) ch evs"
  by (simp add: delivers_def env_script_def)

lemma come_and_go_run:
  "valid_run (\<lambda>i. 17) (come_and_go @ evs) \<lparr>posted = Map.empty, free = n\<rparr> \<longleftrightarrow>
     32 \<le> n \<longrightarrow> valid_run (\<lambda>i. 17) evs \<lparr>posted = Map.empty, free = n - 32\<rparr>"
  "32 \<le> n \<Longrightarrow> serve_all (\<lambda>i. 17) come_and_go \<lparr>posted = Map.empty, free = n\<rparr> = Some \<lparr>posted = Map.empty, free = n - 32\<rparr>"
  by (simp_all add: come_and_go_def valid_event_def serve_first del: serve.simps(1))

theorem session_refines_witness:
  "\<exists>k' w' mp'. handle_events (env_script come_and_go) list_map 3 (ctl_ready, idle_world) = Some (Ok (), (k', w')) \<and>
     abs_server k' w' mp' = \<lparr>posted = Map.empty, free = 32\<rparr>"
proof -
  obtain mp where inv: "server_inv (env_script come_and_go) (\<lambda>i. 17) empty_books ctl_ready idle_world mp"
    and n: "length (free_list (small mp)) = 64" by (rule idle_server)
  have l: "rdmaListener ctl_ready = Some (listener_1 RDMA_CM_EVENT_CONNECT_REQUEST)" by simp
  have "length come_and_go = 3" "snd (fst empty_books) = 0" by (simp_all add: come_and_go_def empty_books_def)
  moreover have "valid_run (\<lambda>i. 17) come_and_go (abs_server ctl_ready idle_world mp)"
    "serve_all (\<lambda>i. 17) come_and_go (abs_server ctl_ready idle_world mp) = Some \<lparr>posted = Map.empty, free = 32\<rparr>"
    using n come_and_go_run(1) [of "[]"] come_and_go_run(2) by (simp_all add: abs_idle)
  ultimately show ?thesis
    using session_refines [OF env_script_serving list_map_laws inv l env_script_delivers] by auto
qed

theorem server_capacity_witness:
  "handle_events (env_script (come_and_go @ come_and_go @ come_and_go)) list_map 9 (ctl_ready, idle_world) = None"
proof -
  let ?evs = "come_and_go @ come_and_go @ come_and_go"
  obtain mp where inv: "server_inv (env_script ?evs) (\<lambda>i. 17) empty_books ctl_ready idle_world mp"
    and n: "length (free_list (small mp)) = 64" by (rule idle_server)
  have l: "rdmaListener ctl_ready = Some (listener_1 RDMA_CM_EVENT_CONNECT_REQUEST)" by simp
  have "length ?evs = 9" "snd (fst empty_books) = 0" "requests ?evs = 3"
    by (simp_all add: come_and_go_def empty_books_def requests_def)
  moreover have "valid_run (\<lambda>i. 17) ?evs (abs_server ctl_ready idle_world mp)"
    using n come_and_go_run(1) [of "[]"] by (simp add: abs_idle come_and_go_run(1))
  ultimately show ?thesis
    using server_capacity [OF env_script_serving list_map_laws inv l env_script_delivers] n by simp
qed

theorem session_balanced_witness:
  "\<exists>k' w'. handle_events (env_script come_and_go) list_map 3 (ctl_ready, idle_world) = Some (Ok (), (k', w')) \<and>
     clients k' = [] \<and> heap_live (client_objs w') = {} \<and> live_mrs (trace w') = {#} \<and> cm_unacked (trace w') = 0"
proof -
  obtain mp where inv: "server_inv (env_script come_and_go) (\<lambda>i. 17) empty_books ctl_ready idle_world mp"
    and n: "length (free_list (small mp)) = 64" by (rule idle_server)
  have l: "rdmaListener ctl_ready = Some (listener_1 RDMA_CM_EVENT_CONNECT_REQUEST)" by simp
  have t: "trace idle_world = []" by (simp add: idle_world_def pool_world_def)
  have "length come_and_go = 3" "snd (fst empty_books) = 0" "requests come_and_go = 1"
    by (simp_all add: come_and_go_def empty_books_def requests_def)
  moreover have "valid_run (\<lambda>i. 17) come_and_go (abs_server ctl_ready idle_world mp)"
    "serve_all (\<lambda>i. 17) come_and_go (abs_server ctl_ready idle_world mp) = Some \<lparr>posted = Map.empty, free = 32\<rparr>"
    using n come_and_go_run(1) [of "[]"] come_and_go_run(2) by (simp_all add: abs_idle)
  ultimately show ?thesis
    using session_balanced [OF env_script_serving list_map_laws inv l env_script_delivers] n t by fastforce
qed

text \<open>A client with one receive posted, whose block is out.\<close>

definition pool_taken :: memory_pool where
  "pool_taken = (case on_chunk Small pop fresh_pool of Some (_, (mp, _)) \<Rightarrow> mp | None \<Rightarrow> fst fresh_pool)"

definition busy_client :: client where
  "busy_client = client_1\<lparr>memoryPool := 1, waitingReceives := 1, inMessageRegion := Suc (length (regions pool_world)),
     outMessageRegion := Suc (Suc (length (regions pool_world)))\<rparr>"

definition busy_world :: cworld where
  "busy_world = pool_world\<lparr>regions := heap_new empty_region (heap_new empty_region (regions pool_world)),
     pools := [Some pool_taken], cqs := [Some ((blank_cq 5)\<lparr>completionQ := 9\<rparr>)], client_objs := [Some busy_client],
     uses := (\<lambda>r. if r = Pool_ref 1 then 2 else if r = Client_ref 1 \<or> r = CQ_ref 1 then 1 else 0)\<rparr>"

lemma pool_taken_facts:
  obtains r where "mp_inv (pool_taken, busy_world)" "r \<in> outstanding (small pool_taken)"
    "\<forall>p \<in> set (all_blocks pool_taken). p \<le> length (regions pool_world)"
proof -
  obtain mp w where f: "fresh_pool = (mp, w)" "mp_inv (mp, w)"
    "\<forall>c. length (free_list (container c mp)) = count_of c" by (rule fresh_pool_facts)
  have "length (free_list (container Small mp)) = 64" using f(3) [rule_format, of Small] by simp
  then have "free_list (container Small mp) \<noteq> []" by auto
  then obtain r mp1 where run: "on_chunk Small pop (mp, w) = Some (Ok r, (mp1, w))"
    by (cases "on_chunk Small pop (mp, w)") (auto simp: run_simps)
  then have mp1: "pool_taken = mp1" by (simp add: pool_taken_def f(1))
  from pop_chunk [OF f(2) run] have inv: "mp_inv (mp1, w)" and r: "r \<in> outstanding (small mp1)" by simp_all
  have w: "regions w = regions pool_world" by (simp add: pool_world_def f(1))
  have le: "p \<le> length (regions pool_world)" if "p \<in> set (all_blocks mp1)" for p
    using block_shape [OF inv that] w by (auto simp: shape_def heap_get_def split: if_splits)
  have "shape busy_world p = shape w p" if "p \<in> set (all_blocks mp1)" for p
    using le [OF that] w by (simp add: shape_def busy_world_def heap_get_new)
  then have "mp_inv (mp1, busy_world)"
    using mp_inv_shape [of mp1 "init_cworld\<lparr>regions := regions w\<rparr>" busy_world] mp_inv_cong [of w "init_cworld\<lparr>regions := regions w\<rparr>" mp1] inv
    by (simp add: shape_def)
  with that r le mp1 show thesis by blast
qed

lemma busy_simps:
  "client_of busy_world x = (if snd x = 1 then busy_client else client_of busy_world x)"
  "client_objs busy_world = [Some busy_client]" "cqs busy_world = [Some ((blank_cq 5)\<lparr>completionQ := 9\<rparr>)]"
  "pools busy_world = [Some pool_taken]" "trace busy_world = []"
  "heap_get (regions busy_world) p = (if p = Suc (Suc (length (regions pool_world))) \<or> p = Suc (length (regions pool_world))
     then Some empty_region else heap_get (regions pool_world) p)"
  by (simp_all add: busy_world_def client_of_def heap_get_def [of "[_]"] pool_world_def heap_get_new)

lemma busy_server:
  obtains r where "server_inv (env_script []) (\<lambda>i. 17) empty_books (ctl_ready\<lparr>clients := [(17, 1)]\<rparr>) busy_world pool_taken"
    "r \<in> outstanding (small pool_taken)"
proof -
  obtain mp where idle: "server_inv (env_script []) (\<lambda>i. 17) empty_books ctl_ready idle_world mp" by (rule idle_server)
  have l: "listening (ctl_ready\<lparr>clients := [(17, 1)]\<rparr>)" using listening_same(2) server_invD(1) [OF idle] by blast
  obtain r where r: "mp_inv (pool_taken, busy_world)" "r \<in> outstanding (small pool_taken)"
    "\<forall>p \<in> set (all_blocks pool_taken). p \<le> length (regions pool_world)" by (rule pool_taken_facts)
  let ?x = "(17, 1) :: u32 \<times> ptr"
  have c: "client_of busy_world ?x = busy_client" using busy_simps(1) [of ?x] by simp
  have live: "heap_live (client_objs busy_world) = {1}" "heap_live (cqs busy_world) = {1}"
    by (auto simp: busy_simps heap_live_def heap_get_def split: if_splits)
  have "accepting (env_script []) 64 17" using env_script_serving by (simp add: serving_def)
  then have h: "hungry (env_script []) 1 busy_client"
    by (simp add: hungry_def ready_conn_def accepting_def busy_client_def client_1_def)
  then have "entry_ok (env_script []) (\<lambda>i. 17) 1 busy_world ?x"
    using c h by (simp add: entry_ok_client Let_def region_ptr_ok_def busy_simps cq_of_def)
      (simp add: busy_client_def client_1_def busy_world_def heap_get_def tidy_def empty_region_def)
  moreover have "apart {?x} busy_world pool_taken"
    using r(3) c by (auto simp: apart_def regions_of_def busy_client_def)
  moreover have "no_garbage 1 {?x} busy_world"
    using live c by (simp add: no_garbage_def uses_ok_def busy_simps cq_of_def)
      (auto simp: busy_client_def client_1_def busy_world_def heap_get_def split: if_splits)
  moreover have "books_ok empty_books {?x} busy_world"
    using c by (simp add: books_ok_def busy_simps ledger_def cm_tally_def empty_books_def held_mrs_def held_maps_def mrp_def fp_def)
      (simp add: busy_client_def empty_region_def)
  ultimately have "clients_inv (env_script []) (\<lambda>i. 17) 1 empty_books {?x} busy_world pool_taken"
    using r(1) by (simp add: clients_inv_def busy_simps heap_get_def)
  with l that r(2) show thesis by (simp add: server_inv_def)
qed

theorem receive_recycled_witness:
  "\<exists>r w' mp'. thenM (on_client 1 popReceive) (on_pool 1 (deallocate (env_script []) r)) busy_world = Some (Ok (), w') \<and>
     posted (abs_server (ctl_ready\<lparr>clients := [(17, 1)]\<rparr>) w' mp') = [17 \<mapsto> 0]"
proof -
  let ?k = "ctl_ready\<lparr>clients := [(17, 1)]\<rparr> :: cworld controller"
  obtain r where inv: "server_inv (env_script []) (\<lambda>i. 17) empty_books ?k busy_world pool_taken"
    and r: "r \<in> outstanding (small pool_taken)" by (rule busy_server)
  have "client_of busy_world (17, 1) = busy_client" using busy_simps(1) [of "(17, 1)"] by simp
  then have p: "posted (abs_server ?k busy_world pool_taken) = [17 \<mapsto> Suc 0]"
    by (simp add: abs_server_def busy_client_def fun_eq_iff)
  then obtain w' mp' where
    "thenM (on_client 1 popReceive) (on_pool 1 (deallocate (env_script []) r)) busy_world = Some (Ok (), w')"
    "abs_server ?k w' mp' = \<lparr>posted = [17 \<mapsto> 0], free = Suc (free (abs_server ?k busy_world pool_taken))\<rparr>"
    using receive_recycled [OF inv _ r, of 17 1 0] by (auto simp: p)
  then show ?thesis by (intro exI [of _ r] exI [of _ w'] exI [of _ mp'] conjI) simp_all
qed

end
