(* ===== verification/ServerLoop.thy ===== *)
theory ServerLoop
  imports ServerLife
begin

text \<open>
  One round of the event loop of a server, \<open>eventMonitor\<close>: the completions of all clients are
  taken and their blocks go back to the pool, and in every tenth round an event of the
  connection manager is handled.  Both together refine the abstract server.
\<close>

section \<open>A completion function that returns the blocks\<close>

text \<open>
  What a user of the library has to do at least: a completed receive is counted and its block,
  whose address is the identifier of the work request, is returned.
\<close>

definition recycle :: "env \<Rightarrow> ptr \<Rightarrow> ibv_wc \<Rightarrow> ptr \<Rightarrow> ('a cworld_scheme, int) M" where
  "recycle E pl completion p =
     (if wc_op completion = IBV_WC_RECV
      then thenM (thenM (on_client p popReceive) (on_pool pl (deallocate E (unat (wc_wr_id completion))))) (returnM 0)
      else returnM 0)"

definition receipts :: "ibv_wc list \<Rightarrow> ptr list" where
  "receipts wcs = map (\<lambda>wc. unat (wc_wr_id wc)) (filter (\<lambda>wc. wc_op wc = IBV_WC_RECV) wcs)"

lemma receipts_simps [simp]:
  "receipts [] = []"
  "receipts (wc # wcs) = (if wc_op wc = IBV_WC_RECV then [unat (wc_wr_id wc)] else []) @ receipts wcs"
  by (simp_all add: receipts_def)

text \<open>The abstract server when \<open>n\<close> receives of the peer \<open>q\<close> have completed.\<close>

definition took :: "u32 \<Rightarrow> nat \<Rightarrow> server_spec \<Rightarrow> server_spec" where
  "took q n a = \<lparr>posted = (posted a)(q := map_option (\<lambda>m. m - n) (posted a q)), free = free a + n\<rparr>"

lemma took_simps [simp]:
  "took q 0 a = a" "took q m (took q n a) = took q (n + m) a" "dom (posted (took q n a)) = dom (posted a)"
  "posted (took q n a) q' = (if q' = q then map_option (\<lambda>m. m - n) (posted a q) else posted a q')"
  "free (took q n a) = free a + n"
  by (cases "posted a q"; auto simp: took_def fun_eq_iff split: if_splits)+

section \<open>The completions of one client\<close>

text \<open>A poll is not seen by the clients.\<close>

lemma poll_step:
  assumes "server_inv E qn B k w mp"
  shows "server_inv E qn B k (w\<lparr>trace := (CQ (Ibv_poll_cq h n), r) # trace w\<rparr>) mp"
    "abs_server k (w\<lparr>trace := (CQ (Ibv_poll_cq h n), r) # trace w\<rparr>) mp = abs_server k w mp"
    "cq_of (w\<lparr>trace := (CQ (Ibv_poll_cq h n), r) # trace w\<rparr>) x = cq_of w x"
    "client_of (w\<lparr>trace := (CQ (Ibv_poll_cq h n), r) # trace w\<rparr>) x = client_of w x"
proof -
  let ?w = "w\<lparr>trace := (CQ (Ibv_poll_cq h n), r) # trace w\<rparr>"
  note inv = server_invD [OF assms]
  have "clients_inv E qn (ctl_pool k) B (set (clients k)) ?w mp"
    using clients_invD(5) [OF inv(3)]
    by (intro clients_inv_transfer [OF inv(3)]) (auto simp: books_ok_def shape_def fun_eq_iff)
  then show "server_inv E qn B k ?w mp" using inv(1,2) by (simp add: server_inv_def)
  show "abs_server k ?w mp = abs_server k w mp" "cq_of ?w x = cq_of w x" "client_of ?w x = client_of w x"
    by (simp_all add: abs_server_def client_of_def cq_of_def)
qed

lemma recycle_step:
  fixes w :: "'a cworld_scheme"
  assumes "server_inv E qn B k w mp" and "map_of (clients k) q = Some p"
    and "set (receipts [wc]) \<subseteq> outstanding (small mp)"
    and "length (receipts [wc]) \<le> the (posted (abs_server k w mp) q)"
  shows "\<exists>w' mp'. recycle E (ctl_pool k) wc p w = Some (Ok 0, w') \<and> server_inv E qn B k w' mp' \<and>
    abs_server k w' mp' = took q (length (receipts [wc])) (abs_server k w mp) \<and>
    trace w' = trace w \<and> cqs w' = cqs w \<and> shape w' = shape w \<and> outstanding (small mp') = outstanding (small mp) - set (receipts [wc]) \<and>
    all_blocks mp' = all_blocks mp \<and>
    (\<forall>x \<in> set (clients k). cq_of w' x = cq_of w x \<and> cmId (client_of w' x) = cmId (client_of w x) \<and> regions_of w' x = regions_of w x)"
proof (cases "wc_op wc = IBV_WC_RECV")
  case True
  have "posted (abs_server k w mp) q \<noteq> None" using assms(2) by (simp add: abs_server_def)
  with assms(4) True obtain n where n: "posted (abs_server k w mp) q = Some (Suc n)"
    by (cases "posted (abs_server k w mp) q") (auto simp: Suc_le_eq gr0_conv_Suc)
  from True assms(3) have "unat (wc_wr_id wc) \<in> outstanding (small mp)" by simp
  from receive_recycled' [OF assms(1,2) this n] obtain w' mp' where
    run: "thenM (on_client p popReceive) (on_pool (ctl_pool k) (deallocate E (unat (wc_wr_id wc)))) w = Some (Ok (), w')"
    and inv: "server_inv E qn B k w' mp'"
    and ab: "abs_server k w' mp' = \<lparr>posted = (posted (abs_server k w mp))(q \<mapsto> n), free = Suc (free (abs_server k w mp))\<rparr>"
    and rest: "trace w' = trace w" "cqs w' = cqs w" "shape w' = shape w" "outstanding (small mp') = outstanding (small mp) - {unat (wc_wr_id wc)}"
      "all_blocks mp' = all_blocks mp"
      "\<forall>x \<in> set (clients k). cq_of w' x = cq_of w x \<and> cmId (client_of w' x) = cmId (client_of w x) \<and> regions_of w' x = regions_of w x" by blast
  have "abs_server k w' mp' = took q 1 (abs_server k w mp)" using ab n by (simp add: took_def)
  with True run inv rest show ?thesis by (intro exI [of _ w'] exI [of _ mp']) (simp add: recycle_def bindM_run)
qed (use assms(1) in \<open>auto simp: recycle_def\<close>)

text \<open>What the device may have completed for a client: receives that are posted, each once.\<close>

definition credible :: "memory_pool \<Rightarrow> nat option \<Rightarrow> ibv_wc list \<Rightarrow> bool" where
  "credible mp n wcs \<longleftrightarrow> (\<forall>wc \<in> set wcs. wc_status wc = IBV_WC_SUCCESS) \<and> distinct (receipts wcs) \<and>
     set (receipts wcs) \<subseteq> outstanding (small mp) \<and> length (receipts wcs) \<le> the n"

text \<open>A round over one queue has kept the server: \<open>ids\<close> are back in the pool.\<close>

definition drained ::
    "env \<Rightarrow> (u64 \<Rightarrow> u32) \<Rightarrow> books \<Rightarrow> 'a cworld_scheme controller \<Rightarrow> 'a cworld_scheme \<Rightarrow> memory_pool \<Rightarrow>
     ptr list \<Rightarrow> 'a cworld_scheme \<Rightarrow> memory_pool \<Rightarrow> bool" where
  "drained E qn B k w mp ids w' mp' \<longleftrightarrow> server_inv E qn B k w' mp' \<and> cqs w' = cqs w \<and> shape w' = shape w \<and>
     outstanding (small mp') = outstanding (small mp) - set ids \<and> all_blocks mp' = all_blocks mp \<and>
     (\<forall>x \<in> set (clients k). cq_of w' x = cq_of w x \<and> cmId (client_of w' x) = cmId (client_of w x) \<and> regions_of w' x = regions_of w x)"

lemma drained_trans:
  "drained E qn B k w mp ids w1 mp1 \<Longrightarrow> drained E qn B k w1 mp1 ids' w2 mp2 \<Longrightarrow> drained E qn B k w mp (ids @ ids') w2 mp2"
  by (auto simp: drained_def)

lemma drained_poll:
  "server_inv E qn B k w mp \<Longrightarrow> drained E qn B k w mp [] (w\<lparr>trace := (CQ (Ibv_poll_cq h n), r) # trace w\<rparr>) mp"
  using poll_step [of E qn B k w mp h n r] by (simp add: drained_def regions_of_def shape_def fun_eq_iff)

lemma drain_recycles:
  fixes w :: "'a cworld_scheme"
  assumes "device_queues E avail" and "server_inv E qn B k w mp" and "map_of (clients k) q = Some p"
    and "heap_get (cqs w) c = Some cq"
    and "credible mp (posted (abs_server k w mp) q) (avail (trace w) (completionQ cq))"
  shows "\<exists>w' mp'. drain_queue E (Some (recycle E (ctl_pool k))) p c n w =
      Some (Ok (n + int (length (avail (trace w) (completionQ cq)))), w') \<and>
    drained E qn B k w mp (receipts (avail (trace w) (completionQ cq))) w' mp' \<and>
    abs_server k w' mp' = took q (length (receipts (avail (trace w) (completionQ cq)))) (abs_server k w mp) \<and>
    (\<forall>h. avail (trace w') h = (if h = completionQ cq then [] else avail (trace w) h))"
  using assms(2,4,5)
proof (induction "avail (trace w) (completionQ cq)" arbitrary: w mp n)
  case Nil
  let ?w = "w\<lparr>trace := (CQ (Ibv_poll_cq (completionQ cq) 1), R_wcs (Inr [])) # trace w\<rparr>"
  from poll_none [OF assms(1) Nil.prems(2) Nil.hyps [symmetric]]
  have run: "drain_queue E (Some (recycle E (ctl_pool k))) p c n w = Some (Ok n, ?w)" by (subst drain_queue.simps) simp
  have "avail (trace ?w) h = (if h = completionQ cq then [] else avail (trace w) h)" for h
    using device_poll [OF assms(1) Nil.hyps [symmetric]] by simp
  then show ?case using run Nil.hyps [symmetric] drained_poll [OF Nil.prems(1)] poll_step(2) [OF Nil.prems(1)]
    by (intro exI [of _ ?w] exI [of _ mp]) simp
next
  case (Cons wc wcs)
  let ?q = "completionQ cq" and ?a = "abs_server k w mp"
  note all = Cons.hyps(2) [symmetric]
  let ?w1 = "w\<lparr>trace := (CQ (Ibv_poll_cq ?q 1), R_wcs (Inr [wc])) # trace w\<rparr>"
  note p = poll_step [OF Cons.prems(1), of ?q 1 "R_wcs (Inr [wc])"]
  have st: "wc_status wc = IBV_WC_SUCCESS" "set (receipts [wc]) \<subseteq> outstanding (small mp)"
    "length (receipts [wc]) \<le> the (posted (abs_server k ?w1 mp) q)"
    using Cons.prems(3) all p(2) by (auto simp: credible_def)
  have a1: "avail (trace ?w1) h = (if h = ?q then wcs else avail (trace w) h)" for h
    using device_poll [OF assms(1) all] by simp
  from recycle_step [OF p(1) assms(3) st(2,3)] p(2-4) obtain w2 mp2 where
    f: "recycle E (ctl_pool k) wc p ?w1 = Some (Ok 0, w2)" "server_inv E qn B k w2 mp2"
      "abs_server k w2 mp2 = took q (length (receipts [wc])) ?a" "trace w2 = trace ?w1"
    and d: "drained E qn B k w mp (receipts [wc]) w2 mp2" by (auto simp: drained_def shape_def regions_of_def fun_eq_iff)
  have a2: "avail (trace w2) h = (if h = ?q then wcs else avail (trace w) h)" for h using f(4) a1 by simp
  have "posted ?a q \<noteq> None" using assms(3) by (simp add: abs_server_def)
  then have "credible mp2 (posted (abs_server k w2 mp2) q) (avail (trace w2) ?q)"
    using Cons.prems(3) all d a2 [of ?q] f(3) by (auto simp: credible_def drained_def split: if_splits)
  moreover have "heap_get (cqs w2) c = Some cq" using d Cons.prems(2) by (simp add: drained_def)
  ultimately obtain w' mp' where
    IH: "drain_queue E (Some (recycle E (ctl_pool k))) p c (n + 1) w2 = Some (Ok (n + 1 + int (length wcs)), w')"
    "drained E qn B k w2 mp2 (receipts wcs) w' mp'"
    "abs_server k w' mp' = took q (length (receipts wcs)) (abs_server k w2 mp2)"
    "\<forall>h. avail (trace w') h = (if h = ?q then [] else avail (trace w2) h)"
    using Cons.hyps(1) [of w2 mp2 "n + 1"] f(2) a2 by auto
  have "drain_queue E (Some (recycle E (ctl_pool k))) p c n w =
      drain_queue E (Some (recycle E (ctl_pool k))) p c (n + 1) w2"
    using poll_some [OF assms(1) Cons.prems(2) all st(1)] st(1) f(1) by (subst drain_queue.simps) simp
  moreover have "receipts (wc # wcs) = receipts [wc] @ receipts wcs" by simp
  ultimately show ?case using IH(1-4) f(3) a2 all drained_trans [OF d IH(2)]
    by (intro exI [of _ w'] exI [of _ mp']) (simp del: receipts_simps)
qed

section \<open>The completions of all clients\<close>

definition arrived :: "(trace \<Rightarrow> u64 \<Rightarrow> ibv_wc list) \<Rightarrow> 'a cworld_scheme \<Rightarrow> u32 \<times> ptr \<Rightarrow> ibv_wc list" where
  "arrived avail w x = avail (trace w) (cq_handle w x)"

text \<open>What the completions of the clients do to the abstract server, client by client.\<close>

definition collected ::
    "(trace \<Rightarrow> u64 \<Rightarrow> ibv_wc list) \<Rightarrow> 'a cworld_scheme \<Rightarrow> (u32 \<times> ptr) list \<Rightarrow> server_spec \<Rightarrow> server_spec" where
  "collected avail w cs = fold (\<lambda>x. took (fst x) (length (receipts (arrived avail w x)))) cs"

text \<open>The device completes for every client what is posted, and nothing twice; live queues differ.\<close>

definition credible_device ::
    "(trace \<Rightarrow> u64 \<Rightarrow> ibv_wc list) \<Rightarrow> 'w controller \<Rightarrow> (u32 \<times> ptr) list \<Rightarrow> 'a cworld_scheme \<Rightarrow> memory_pool \<Rightarrow> bool" where
  "credible_device avail k cs w mp \<longleftrightarrow> distinct (map (cq_handle w) cs) \<and>
     distinct (concat (map (\<lambda>x. receipts (arrived avail w x)) cs)) \<and>
     (\<forall>x \<in> set cs. credible mp (posted (abs_server k w mp) (fst x)) (arrived avail w x))"

lemma drained_handles: "drained E qn B k w mp ids w' mp' \<Longrightarrow> x \<in> set (clients k) \<Longrightarrow> cq_handle w' x = cq_handle w x"
  by (simp add: drained_def cq_handle_of)

text \<open>The clients behind the first find their completions untouched.\<close>

lemma credible_rest:
  assumes "credible_device avail k (x # cs) w mp" and "distinct (map fst (x # cs))" and "set (x # cs) \<subseteq> set (clients k)"
    and "drained E qn B k w mp (receipts (arrived avail w x)) w1 mp1"
    and "abs_server k w1 mp1 = took (fst x) (length (receipts (arrived avail w x))) (abs_server k w mp)"
    and "\<forall>c. avail (trace w1) c = (if c = cq_handle w x then [] else avail (trace w) c)"
  shows "credible_device avail k cs w1 mp1" "\<forall>y \<in> set cs. arrived avail w1 y = arrived avail w y"
    "\<forall>y \<in> set cs. cq_handle w1 y = cq_handle w y"
proof -
  show h: "\<forall>y \<in> set cs. cq_handle w1 y = cq_handle w y" using assms(3) drained_handles [OF assms(4)] by auto
  have "cq_handle w x \<notin> cq_handle w ` set cs" using assms(1) by (simp add: credible_device_def)
  then have "\<forall>y \<in> set cs. cq_handle w y \<noteq> cq_handle w x" by (metis imageI)
  with h assms(6) show same: "\<forall>y \<in> set cs. arrived avail w1 y = arrived avail w y" by (simp add: arrived_def)
  have "credible mp1 (posted (abs_server k w1 mp1) (fst y)) (arrived avail w1 y)" if y: "y \<in> set cs" for y
  proof -
    have "fst x \<notin> fst ` set cs" using assms(2) by simp
    then have "fst y \<noteq> fst x" using y by (metis imageI)
    moreover have "set (receipts (arrived avail w y)) \<inter> set (receipts (arrived avail w x)) = {}"
      using assms(1) y by (auto simp: credible_device_def)
    ultimately show ?thesis
      using assms(1,4,5) y same by (auto simp: credible_device_def credible_def drained_def)
  qed
  moreover have m: "map (cq_handle w1) cs = map (cq_handle w) cs"
    "map (\<lambda>x. receipts (arrived avail w1 x)) cs = map (\<lambda>x. receipts (arrived avail w x)) cs" using same h by simp_all
  have "distinct (map (cq_handle w1) cs)" "distinct (concat (map (\<lambda>x. receipts (arrived avail w1 x)) cs))"
    unfolding m using assms(1) by (simp_all add: credible_device_def)
  ultimately show "credible_device avail k cs w1 mp1" by (simp add: credible_device_def)
qed

lemma poll_clients_recycles:
  fixes w :: "'a cworld_scheme"
  assumes "device_queues E avail" and "server_inv E qn B k w mp" and "set cs \<subseteq> set (clients k)"
    and "distinct (map fst cs)" and "credible_device avail k cs w mp"
  shows "\<exists>w' mp'. poll_clients E (Some (recycle E (ctl_pool k))) cs n w =
      Some (Ok (n + int (\<Sum>x\<leftarrow>cs. length (arrived avail w x))), w') \<and>
    drained E qn B k w mp (concat (map (\<lambda>x. receipts (arrived avail w x)) cs)) w' mp' \<and>
    abs_server k w' mp' = collected avail w cs (abs_server k w mp) \<and>
    (\<forall>h. avail (trace w') h = (if h \<in> cq_handle w ` set cs then [] else avail (trace w) h))"
  using assms(2-5)
proof (induction cs arbitrary: w mp n)
  case Nil
  then show ?case by (auto simp: drained_def collected_def)
next
  case (Cons x cs)
  let ?a = "abs_server k w mp"
  have x: "x \<in> set (clients k)" using Cons.prems(2) by simp
  then have p: "map_of (clients k) (fst x) = Some (snd x)" using server_invD(2) [OF Cons.prems(1)] by (intro map_of_is_SomeI) simp_all
  from clients_invD(2) [OF server_invD(3) [OF Cons.prems(1)] x] obtain cq where
    live: "heap_get (client_objs w) (snd x) \<noteq> None" and cq: "heap_get (cqs w) (cq_of w x) = Some cq"
    by (auto simp: entry_ok_client Let_def)
  have h: "completionQ cq = cq_handle w x" using cq by (simp add: cq_handle_of)
  have "credible mp (posted ?a (fst x)) (avail (trace w) (completionQ cq))"
    using Cons.prems(4) h by (simp add: credible_device_def arrived_def)
  from drain_recycles [OF assms(1) Cons.prems(1) p cq this, of n] obtain w1 mp1 where
    d: "drain_queue E (Some (recycle E (ctl_pool k))) (snd x) (cq_of w x) n w =
        Some (Ok (n + int (length (arrived avail w x))), w1)"
      "drained E qn B k w mp (receipts (arrived avail w x)) w1 mp1"
      "abs_server k w1 mp1 = took (fst x) (length (receipts (arrived avail w x))) ?a"
      "\<forall>c. avail (trace w1) c = (if c = cq_handle w x then [] else avail (trace w) c)"
    unfolding arrived_def h by blast
  have inv1: "server_inv E qn B k w1 mp1" using d(2) by (simp add: drained_def)
  note rest = credible_rest [OF Cons.prems(4,3,2) d(2-4)]
  from rest(2) have cong: "collected avail w1 cs = collected avail w cs"
    "(\<Sum>x\<leftarrow>cs. length (arrived avail w1 x)) = (\<Sum>x\<leftarrow>cs. length (arrived avail w x))"
    "concat (map (\<lambda>x. receipts (arrived avail w1 x)) cs) = concat (map (\<lambda>x. receipts (arrived avail w x)) cs)"
    by (auto simp: collected_def intro!: fold_cong ext arg_cong [where f = sum_list] arg_cong [where f = concat])
  have handles: "cq_handle w1 ` set cs = cq_handle w ` set cs" using rest(3) by (auto simp: image_iff)
  from cong handles obtain w' mp' where
    IH: "poll_clients E (Some (recycle E (ctl_pool k))) cs (n + int (length (arrived avail w x))) w1 =
      Some (Ok (n + int (length (arrived avail w x)) + int (\<Sum>x\<leftarrow>cs. length (arrived avail w x))), w')"
    "drained E qn B k w1 mp1 (concat (map (\<lambda>x. receipts (arrived avail w x)) cs)) w' mp'"
    "abs_server k w' mp' = collected avail w cs (abs_server k w1 mp1)"
    "\<forall>h. avail (trace w') h = (if h \<in> cq_handle w ` set cs then [] else avail (trace w1) h)"
    using Cons.IH [OF inv1 _ _ rest(1), of "n + int (length (arrived avail w x))"] Cons.prems(2,3) by auto
  have "poll_clients E (Some (recycle E (ctl_pool k))) (x # cs) n w =
      poll_clients E (Some (recycle E (ctl_pool k))) cs (n + int (length (arrived avail w x))) w1"
    using on_client_get [OF live] d(1) by (simp add: cq_of_def)
  then show ?case using IH(1-4) d(3,4) drained_trans [OF d(2) IH(2)]
    by (intro exI [of _ w'] exI [of _ mp']) (simp add: collected_def)
qed

lemma poll_recycles':
  fixes w :: "'a cworld_scheme"
  assumes "device_queues E avail" and "server_inv E qn B k w mp"
    and "completionFunction k = Some (recycle E (ctl_pool k))" and "credible_device avail k (clients k) w mp"
  shows "\<exists>w' mp'. pollCompletionQueues E (k, w) = Some (Ok (int (\<Sum>x\<leftarrow>clients k. length (arrived avail w x))), (k, w')) \<and>
    server_inv E qn B k w' mp' \<and> abs_server k w' mp' = collected avail w (clients k) (abs_server k w mp) \<and>
    (\<forall>x \<in> set (clients k). arrived avail w' x = [])"
proof -
  from poll_clients_recycles [OF assms(1,2) subset_refl server_invD(2) [OF assms(2)] assms(4), of 0] obtain w' mp' where
    run: "poll_clients E (Some (recycle E (ctl_pool k))) (clients k) 0 w =
      Some (Ok (int (\<Sum>x\<leftarrow>clients k. length (arrived avail w x))), w')"
    and d: "drained E qn B k w mp (concat (map (\<lambda>x. receipts (arrived avail w x)) (clients k))) w' mp'"
    and ab: "abs_server k w' mp' = collected avail w (clients k) (abs_server k w mp)"
    and gone: "\<forall>h. avail (trace w') h = (if h \<in> cq_handle w ` set (clients k) then [] else avail (trace w) h)"
    by auto
  have "arrived avail w' x = []" if "x \<in> set (clients k)" for x
    using that gone drained_handles [OF d that] by (simp add: arrived_def)
  then show ?thesis using run d ab assms(3)
    by (intro exI [of _ w'] exI [of _ mp']) (simp add: pollCompletionQueues_def drained_def)
qed

section \<open>A round of the event loop\<close>

text \<open>HPX polls the event channel: the handler runs when an event of the script is still to come.\<close>

definition channel_polls :: "cm_event list \<Rightarrow> ('a cworld_scheme controller \<times> 'a cworld_scheme) poll_api \<Rightarrow> bool" where
  "channel_polls evs poll \<longleftrightarrow> (\<forall>fd h k w. poll fd h (k, w) =
     (if cm_taken (trace w) < length evs then bindM h (\<lambda>_. returnM 1) (k, w) else Some (Ok 0, (k, w))))"

text \<open>The abstract round: in every tenth the next event is due.\<close>

definition due :: "'w controller \<Rightarrow> cm_event list \<Rightarrow> books \<Rightarrow> bool" where
  "due k evs B \<longleftrightarrow> event_poll_count k mod 10 = 0 \<and> snd (fst B) < length evs"

definition serve_next :: "(u64 \<Rightarrow> u32) \<Rightarrow> cm_event \<Rightarrow> server_spec \<Rightarrow> server_spec option" where
  "serve_next qn ev = serve (ev_type ev) (qn (ev_id ev))"

lemma server_inv_count:
  "server_inv E qn B (k\<lparr>event_poll_count := n\<rparr>) w mp \<longleftrightarrow> server_inv E qn B k w mp"
  "abs_server (k\<lparr>event_poll_count := n\<rparr>) w mp = abs_server k w mp"
  by (simp_all add: server_inv_def listening_def abs_server_def)

lemma server_inv_taken: "server_inv E qn B k w mp \<Longrightarrow> cm_taken (trace w) = snd (fst B)"
  using clients_invD(5) [OF server_invD(3)] by (cases B) (force simp: books_ok_def ledger_def cm_tally_def)

lemma collected_dom [simp]: "dom (posted (collected avail w cs a)) = dom (posted a)"
proof (induction cs arbitrary: a)
  case (Cons x cs)
  have "collected avail w (x # cs) a = collected avail w cs (took (fst x) (length (receipts (arrived avail w x))) a)"
    by (simp add: collected_def)
  then show ?case by (simp only: Cons.IH took_simps(3))
qed (simp add: collected_def)

lemma valid_event_dom: "dom (posted a) = dom (posted b) \<Longrightarrow> valid_event qn a ev = valid_event qn b ev"
  by (cases "ev_type ev") (simp_all add: valid_event_def)

text \<open>The second half of the round: the next event, when it is due.\<close>

lemma channel_round:
  fixes w :: "'a cworld_scheme"
  assumes "serving E qn" and "map_laws U" and "server_inv E qn B k w mp" and "rdmaListener k = Some l"
    and "eventChannel l \<noteq> 0" and "delivers E (eventChannel l) evs" and "channel_polls evs poll"
    and "snd (fst B) < length evs \<Longrightarrow> valid_event qn (abs_server k w mp) (evs ! snd (fst B))"
  shows "if snd (fst B) < length evs
    then case serve_next qn (evs ! snd (fst B)) (abs_server k w mp) of
        None \<Rightarrow> pollEventChannel E U poll (k, w) = None
      | Some a \<Rightarrow> \<exists>k' w' mp'. pollEventChannel E U poll (k, w) = Some (Ok 1, (k', w')) \<and>
          server_inv E qn (book_handled B) k' w' mp' \<and> same_listener k k' \<and> goes_on E k w mp k' w' mp' \<and>
          abs_server k' w' mp' = a
    else pollEventChannel E U poll (k, w) = Some (Ok 0, (k, w))"
proof -
  let ?n = "snd (fst B)"
  have fd: "on_listener (getEventChannelFd E) (k, w) = Some (Ok (fd_of E (eventChannel l)), (k, w))"
    using assms(4,5) by (cases k) (simp add: on_listener_run getEventChannelFd_def run_simps)
  note taken = server_inv_taken [OF assms(3)]
  show ?thesis
  proof (cases "?n < length evs")
    case True
    then have "event_of E (trace w) (CM (Rdma_get_cm_event (eventChannel l))) = (0, Some (evs ! ?n))"
      using assms(6) taken by (simp add: delivers_def)
    note ref = event_refines' [OF assms(1-4) this assms(8) [OF True]]
    have "pollEventChannel E U poll (k, w) = bindM (eventChannelHandler E U) (\<lambda>_. returnM 1) (k, w)"
      using assms(7) taken True fd by (simp add: pollEventChannel_def channel_polls_def)
    with True ref show ?thesis
      by (cases "serve_next qn (evs ! ?n) (abs_server k w mp)") (auto simp: serve_next_def bindM_run)
  next
    case False
    then show ?thesis using assms(7) taken fd by (simp add: pollEventChannel_def channel_polls_def)
  qed
qed

text \<open>The abstract server after a round that starts in \<open>a\<close>; \<open>arr\<close> are the receives that completed.\<close>

definition abs_round ::
    "(u64 \<Rightarrow> u32) \<Rightarrow> 'w controller \<Rightarrow> cm_event list \<Rightarrow> books \<Rightarrow> server_spec \<Rightarrow> server_spec option" where
  "abs_round qn k evs B a = (if due k evs B then serve_next qn (evs ! snd (fst B)) a else Some a)"

text \<open>C10: One round of the event loop of a server whose completion function returns the blocks.
  Whatever the device has completed and whatever event comes next, the round takes every
  completion once, returns each block to the pool, and handles an event exactly when the counter
  of rounds says so; it either never returns, exactly when the abstract server says so, or
  returns the number of completions and events with all invariants restored.\<close>

theorem monitor_refines:
  fixes w :: "'a cworld_scheme"
  assumes "serving E qn" and "map_laws U" and "server_inv E qn B k w mp" and "rdmaListener k = Some l"
    and "eventChannel l \<noteq> 0" and "delivers E (eventChannel l) evs" and "channel_polls evs poll"
    and "device_queues E avail" and "completionFunction k = Some (recycle E (ctl_pool k))"
    and "credible_device avail k (clients k) w mp"
    and "due k evs B \<Longrightarrow> valid_event qn (abs_server k w mp) (evs ! snd (fst B))"
  shows "case abs_round qn k evs B (collected avail w (clients k) (abs_server k w mp)) of
      None \<Rightarrow> eventMonitor E U poll N (k, w) = None
    | Some a \<Rightarrow> \<exists>k' w' mp'. eventMonitor E U poll N (k, w) =
          Some (Ok (int (\<Sum>x\<leftarrow>clients k. length (arrived avail w x)) + (if due k evs B then 1 else 0)), (k', w')) \<and>
        server_inv E qn (if due k evs B then book_handled B else B) k' w' mp' \<and> abs_server k' w' mp' = a \<and>
        event_poll_count k' = event_poll_count k + 1"
proof -
  let ?k = "k\<lparr>event_poll_count := event_poll_count k + 1\<rparr>" and ?n = "snd (fst B)"
  let ?sum = "int (\<Sum>x\<leftarrow>clients k. length (arrived avail w x))"
  from poll_recycles' [OF assms(8,3,9,10)] obtain w1 mp1 where
    run: "pollCompletionQueues E (k, w) = Some (Ok ?sum, (k, w1))" and inv: "server_inv E qn B k w1 mp1"
    and ab: "abs_server k w1 mp1 = collected avail w (clients k) (abs_server k w mp)" by blast
  have inv1: "server_inv E qn B ?k w1 mp1" and ab1: "abs_server ?k w1 mp1 = abs_server k w1 mp1"
    using inv by (simp_all add: server_inv_count)
  have l: "rdmaListener ?k = Some l" using assms(4) by simp
  show ?thesis
  proof (cases "event_poll_count k mod 10 = 0")
    case True
    then have "valid_event qn (abs_server ?k w1 mp1) (evs ! ?n)" if "?n < length evs"
      using assms(11) that valid_event_dom [of "abs_server ?k w1 mp1" "abs_server k w mp" qn] ab ab1
      by (simp add: due_def)
    note ch = channel_round [OF assms(1,2) inv1 l assms(5-7) this]
    from True run have ev: "eventMonitor E U poll N (k, w) = bindM (pollEventChannel E U poll) (\<lambda>m. returnM (?sum + m)) (?k, w1)"
      by (simp add: eventMonitor_def bindM_run)
    show ?thesis
    proof (cases "?n < length evs")
      case due: True
      then have d: "due k evs B" using True by (simp add: due_def)
      show ?thesis
      proof (cases "serve_next qn (evs ! ?n) (abs_server k w1 mp1)")
        case None
        with ch due ab1 ev d ab show ?thesis by (simp add: abs_round_def bindM_run)
      next
        case (Some a)
        with ch due ab1 obtain k' w' mp' where "pollEventChannel E U poll (?k, w1) = Some (Ok 1, (k', w'))"
          "server_inv E qn (book_handled B) k' w' mp'" "same_listener ?k k'" "abs_server k' w' mp' = a" by auto
        then show ?thesis
          using ev d ab Some assms(4)
          by (intro option.case_eq_if [THEN iffD2]) (auto simp: abs_round_def bindM_run same_listener_def intro!: exI [of _ mp'])
      qed
    next
      case False
      with ch ev inv1 ab1 ab show ?thesis by (simp add: abs_round_def due_def bindM_run) blast
    qed
  next
    case False
    with run have "eventMonitor E U poll N (k, w) = Some (Ok ?sum, (?k, w1))"
      by (simp add: eventMonitor_def bindM_run)
    with False inv1 ab1 ab show ?thesis by (simp add: abs_round_def due_def) blast
  qed
qed

section \<open>An example\<close>

definition script_poll :: "cm_event list \<Rightarrow> ('a cworld_scheme controller \<times> 'a cworld_scheme) poll_api" where
  "script_poll evs d h = (\<lambda>(k, w).
     if cm_taken (trace w) < length evs then bindM h (\<lambda>_. returnM 1) (k, w) else Some (Ok 0, (k, w)))"

lemma script_poll_ok: "channel_polls evs (script_poll evs)"
  by (simp add: channel_polls_def script_poll_def)

text \<open>A pool of one block, which the client 17 has posted and the device has filled.\<close>

definition tiny_mr :: ibv_mr where
  "tiny_mr = \<lparr>mr_addr = 0x5000, mr_length = 0x1000, mr_lkey = 1, mr_rkey = 2, mr_frags = 1\<rparr>"

definition tiny_pool :: memory_pool where
  "tiny_pool = (new_pool 9)\<lparr>pointer_map := [0x5000 \<mapsto> 1],
     small := (small (new_pool 9))\<lparr>region_use_count := 1, block_list := [1]\<rparr>\<rparr>"

definition tiny_client :: client where
  "tiny_client = client_1\<lparr>memoryPool := 1, waitingReceives := 1, inMessageRegion := 2, outMessageRegion := 3\<rparr>"

definition tiny_world :: cworld where
  "tiny_world = init_cworld\<lparr>regions := [Some (wrap_region (Some tiny_mr) 0), Some empty_region, Some empty_region],
     pools := [Some tiny_pool], cqs := [Some ((blank_cq 5)\<lparr>completionQ := 9\<rparr>)], client_objs := [Some tiny_client],
     uses := (\<lambda>r. if r = Pool_ref 1 then 2 else if r = Client_ref 1 \<or> r = CQ_ref 1 then 1 else 0)\<rparr>"

definition one_receipt :: "trace \<Rightarrow> u64 \<Rightarrow> ibv_wc list" where
  "one_receipt t q = drop (polls t q) (if q = 9 then [\<lparr>wc_wr_id = 1, wc_status = IBV_WC_SUCCESS, wc_op = IBV_WC_RECV, wc_qp_num = 17\<rparr>] else [])"

definition tiny_env :: env where
  "tiny_env = (env_script [event_1 RDMA_CM_EVENT_DISCONNECTED])\<lparr>wcs_of := (\<lambda>t c. case c of
     CQ (Ibv_poll_cq q n) \<Rightarrow> Inr (take 1 (one_receipt t q)) | _ \<Rightarrow> Inr [])\<rparr>"

definition tiny_ctl :: "cworld controller" where
  "tiny_ctl = ctl_ready\<lparr>clients := [(17, 1)], completionFunction := Some (recycle tiny_env 1)\<rparr>"

lemma tiny_queues: "device_queues tiny_env one_receipt"
  by (simp add: device_queues_def tiny_env_def one_receipt_def polls_def drop_Suc drop_tl tl_drop [symmetric])

lemma tiny_serving: "serving tiny_env (\<lambda>i. 17)"
  using env_script_serving [of "[event_1 RDMA_CM_EVENT_DISCONNECTED]"]
  by (simp add: serving_def tiny_env_def fair_env_def honest_reg_def dereg_ok_def errno_set_def accepting_def)

lemma tiny_delivers: "delivers tiny_env ch [event_1 RDMA_CM_EVENT_DISCONNECTED]"
  using env_script_delivers by (simp add: delivers_def tiny_env_def)

lemma tiny_simps [simp]:
  "client_of tiny_world (q, Suc 0) = tiny_client" "clients tiny_ctl = [(17, 1)]" "ctl_pool tiny_ctl = 1"
  "pools tiny_world = [Some tiny_pool]" "trace tiny_world = []"
  by (simp_all add: tiny_world_def tiny_ctl_def client_of_def heap_get_def)

lemma tiny_pool_inv: "mp_inv (tiny_pool, tiny_world)" "outstanding (small tiny_pool) = {1}"
proof -
  have "pool_inv (container c tiny_pool) \<and> chunk_size (container c tiny_pool) = size_of c \<and>
      (\<forall>p \<in> set (block_list (container c tiny_pool)). block_at (size_of c) p tiny_pool tiny_world)" for c
    by (cases c) (simp_all add: tiny_pool_def new_pool_def new_pool_container_def pool_inv_def lists_ok_def
        block_at_def tiny_world_def heap_get_def wrap_region_def tiny_mr_def)
  then show "mp_inv (tiny_pool, tiny_world)" by (simp add: mp_inv_def)
  show "outstanding (small tiny_pool) = {1}"
    by (simp add: outstanding_def tiny_pool_def new_pool_def new_pool_container_def)
qed

lemma tiny_server: "server_inv tiny_env (\<lambda>i. 17) empty_books tiny_ctl tiny_world tiny_pool"
proof -
  let ?x = "(17, 1) :: u32 \<times> ptr"
  obtain mp where idle: "server_inv (env_script []) (\<lambda>i. 17) empty_books ctl_ready idle_world mp" by (rule idle_server)
  have l: "listening tiny_ctl" using server_invD(1) [OF idle] by (simp add: listening_def tiny_ctl_def)
  have live: "heap_live (client_objs tiny_world) = {1}" "heap_live (cqs tiny_world) = {1}"
    by (auto simp: tiny_world_def heap_live_def heap_get_def split: if_splits)
  have "accepting tiny_env 64 17" using tiny_serving by (simp add: serving_def)
  then have h: "hungry tiny_env 1 tiny_client"
    by (simp add: hungry_def ready_conn_def accepting_def tiny_client_def client_1_def)
  then have "entry_ok tiny_env (\<lambda>i. 17) 1 tiny_world ?x"
    by (simp add: entry_ok_client Let_def region_ptr_ok_def cq_of_def)
      (simp add: tiny_client_def client_1_def tiny_world_def heap_get_def tidy_def empty_region_def)
  moreover have "apart {?x} tiny_world tiny_pool"
    by (auto simp: apart_def regions_of_def tiny_client_def tiny_pool_def all_blocks_def new_pool_def new_pool_container_def)
  moreover have "no_garbage 1 {?x} tiny_world"
    using live by (simp add: no_garbage_def uses_ok_def cq_of_def)
      (auto simp: tiny_client_def client_1_def tiny_world_def heap_get_def split: if_splits)
  moreover have "books_ok empty_books {?x} tiny_world"
    by (simp add: books_ok_def ledger_def cm_tally_def empty_books_def held_mrs_def held_maps_def mrp_def fp_def)
      (simp add: tiny_client_def tiny_world_def heap_get_def empty_region_def)
  ultimately have "clients_inv tiny_env (\<lambda>i. 17) 1 empty_books {?x} tiny_world tiny_pool"
    using tiny_pool_inv(1) by (simp add: clients_inv_def heap_get_def)
  with l show ?thesis by (simp add: server_inv_def)
qed

theorem monitor_refines_witness:
  "\<exists>k' w' mp'. eventMonitor tiny_env list_map (script_poll [event_1 RDMA_CM_EVENT_DISCONNECTED]) 3 (tiny_ctl, tiny_world) =
     Some (Ok 2, (k', w')) \<and> abs_server k' w' mp' = \<lparr>posted = Map.empty, free = 1\<rparr>"
proof -
  let ?evs = "[event_1 RDMA_CM_EVENT_DISCONNECTED]"
  have k: "rdmaListener tiny_ctl = Some (listener_1 RDMA_CM_EVENT_CONNECT_REQUEST)" "event_poll_count tiny_ctl = 0"
    "completionFunction tiny_ctl = Some (recycle tiny_env (ctl_pool tiny_ctl))" "snd (fst empty_books) = 0"
    by (simp_all add: tiny_ctl_def ctl_ready_def ctl_1_def RdmaController_def empty_books_def)
  have h: "cq_handle tiny_world (17, 1) = 9"
    by (simp add: cq_handle_def) (simp add: tiny_world_def tiny_client_def client_1_def heap_get_def)
  then have a: "receipts (arrived one_receipt tiny_world (17, 1)) = [1]" "length (arrived one_receipt tiny_world (17, 1)) = 1"
    "\<forall>wc \<in> set (arrived one_receipt tiny_world (17, 1)). wc_status wc = IBV_WC_SUCCESS"
    by (simp_all add: arrived_def one_receipt_def polls_def)
  have ab: "abs_server tiny_ctl tiny_world tiny_pool = \<lparr>posted = [17 \<mapsto> 1], free = 0\<rparr>"
    by (auto simp: abs_server_def fun_eq_iff tiny_client_def tiny_pool_def new_pool_def new_pool_container_def)
  have "credible_device one_receipt tiny_ctl (clients tiny_ctl) tiny_world tiny_pool"
    using a tiny_pool_inv(2) ab by (simp add: credible_device_def credible_def)
  moreover have d: "due tiny_ctl ?evs empty_books" using k by (simp add: due_def)
  have "valid_event (\<lambda>i. 17) (abs_server tiny_ctl tiny_world tiny_pool) (?evs ! snd (fst empty_books))"
    using ab k(4) by (simp add: valid_event_def)
  moreover have "abs_round (\<lambda>i. 17) tiny_ctl ?evs empty_books
      (collected one_receipt tiny_world (clients tiny_ctl) (abs_server tiny_ctl tiny_world tiny_pool)) =
      Some \<lparr>posted = Map.empty, free = 1\<rparr>"
    using d k(4) a(1) ab by (simp add: abs_round_def serve_next_def collected_def took_def)
  ultimately show ?thesis
    using monitor_refines [OF tiny_serving list_map_laws tiny_server k(1) _ tiny_delivers script_poll_ok tiny_queues k(3),
        of 3] d a(2) by fastforce
qed

end
