(* ===== verification/ServerDevice.thy ===== *)
theory ServerDevice
  imports ServerLoop
begin

text \<open>
  A device whose completions may arrive at any time, also between two polls, and what it can do
  to a server.  It is only known that it completes nothing that was not posted, and nothing
  twice.  Then every poll of the completion queues ends, and the server keeps its invariant, its
  receives in flight and its budget of blocks.
\<close>

section \<open>The device\<close>

text \<open>
  The sends that were posted on a queue pair since it was made, and the completions other than
  receives that were taken from a completion queue since it was made.
\<close>

fun sends :: "trace \<Rightarrow> u64 \<Rightarrow> nat" where
  "sends [] = (\<lambda>i. 0)"
| "sends ((c, r) # t) = (case c of
     WR (Ibv_post_send i wr) \<Rightarrow> if r = R_int 0 then (sends t)(i := Suc (sends t i)) else sends t
   | CM (Rdma_create_qp i d a) \<Rightarrow> if r = R_int 0 then (sends t)(i := 0) else sends t
   | _ \<Rightarrow> sends t)"

definition non_receives :: "ibv_wc list \<Rightarrow> nat" where
  "non_receives wcs = length (filter (\<lambda>wc. wc_op wc \<noteq> IBV_WC_RECV) wcs)"

fun sends_taken :: "trace \<Rightarrow> u64 \<Rightarrow> nat" where
  "sends_taken [] = (\<lambda>h. 0)"
| "sends_taken ((c, r) # t) = (case c of
     CQ (Ibv_poll_cq h n) \<Rightarrow>
       (case r of R_wcs (Inr wcs) \<Rightarrow> (sends_taken t)(h := sends_taken t h + non_receives wcs) | _ \<Rightarrow> sends_taken t)
   | CQ (Ibv_create_cq x n ch) \<Rightarrow> (case r of R_ptr h \<Rightarrow> (sends_taken t)(h := 0) | _ \<Rightarrow> sends_taken t)
   | _ \<Rightarrow> sends_taken t)"

text \<open>
  The device: a poll for one completion, of a queue that one queue pair delivers to, is answered
  with one or none, as the device likes.  What it hands out has succeeded, and is a receive or a
  send that is posted on the queue pair and was not handed out before.
\<close>

definition honest_device :: "env \<Rightarrow> bool" where
  "honest_device E \<longleftrightarrow> (\<forall>t i h. recv_queue t i = Some h \<longrightarrow> (\<forall>j. recv_queue t j = Some h \<longrightarrow> j = i) \<longrightarrow>
     (\<exists>wcs. wcs_of E t (CQ (Ibv_poll_cq h 1)) = Inr wcs \<and> length wcs \<le> 1 \<and>
        (\<forall>wc \<in> set wcs. wc_status wc = IBV_WC_SUCCESS) \<and>
        mset (recv_ids wcs) \<subseteq># flights t i - taken t h \<and> non_receives wcs \<le> sends t i - sends_taken t h))"

text \<open>What the device can still complete for a client.\<close>

definition owed :: "'a cworld_scheme \<Rightarrow> u32 \<times> ptr \<Rightarrow> nat" where
  "owed w x = (let t = trace w; i = cmId (client_of w x); h = cq_handle w x
     in size (flights t i - taken t h) + (sends t i - sends_taken t h))"

text \<open>The answer to a poll of the queue of a client.\<close>

definition honest_answer :: "'a cworld_scheme \<Rightarrow> u32 \<times> ptr \<Rightarrow> ibv_wc list \<Rightarrow> bool" where
  "honest_answer w x wcs \<longleftrightarrow> (let t = trace w; i = cmId (client_of w x); h = cq_handle w x
     in length wcs \<le> 1 \<and> (\<forall>wc \<in> set wcs. wc_status wc = IBV_WC_SUCCESS) \<and>
        mset (recv_ids wcs) \<subseteq># flights t i - taken t h \<and> non_receives wcs \<le> sends t i - sends_taken t h)"

lemma honest_poll:
  assumes "honest_device E" and "flying S w mp" and "x \<in> S"
  obtains wcs where "wcs_of E (trace w) (CQ (Ibv_poll_cq (cq_handle w x) 1)) = Inr wcs" "honest_answer w x wcs"
proof -
  have "tuned w x" using assms(2,3) by (simp add: flying_def)
  then have "recv_queue (trace w) (cmId (client_of w x)) = Some (cq_handle w x)"
    "\<forall>j. recv_queue (trace w) j = Some (cq_handle w x) \<longrightarrow> j = cmId (client_of w x)" by (simp_all add: tuned_def)
  with assms(1) that show thesis unfolding honest_device_def honest_answer_def Let_def by blast
qed

lemma receipts_ids: "receipts wcs = map unat (recv_ids wcs)"
  by (simp add: receipts_def recv_ids_def)

lemma posted_entry:
  assumes "server_inv E qn B k w mp" and "x \<in> set (clients k)"
  shows "posted (abs_server k w mp) (fst x) = Some (unat (waitingReceives (client_of w x)))"
  using map_of_is_SomeI [OF server_invD(2) [OF assms(1)], of "fst x" "snd x"] assms(2) by (simp add: abs_server_def)

text \<open>What is handed out is in flight: blocks of the pool that are out, as many as the client counts.\<close>

lemma honest_receipts:
  assumes "honest_answer w x wcs" and "flying S w mp" and "x \<in> S" and "finite S"
  shows "mset (receipts wcs) \<subseteq># in_flight w x" "set (receipts wcs) \<subseteq> outstanding (small mp)"
    "length (receipts wcs) \<le> unat (waitingReceives (client_of w x))"
proof -
  have m: "mset (recv_ids wcs) \<subseteq># flights (trace w) (cmId (client_of w x)) - taken (trace w) (cq_handle w x)"
    using assms(1) by (simp add: honest_answer_def Let_def)
  from image_mset_subseteq_mono [OF m, of unat] show f: "mset (receipts wcs) \<subseteq># in_flight w x"
    by (simp add: receipts_ids in_flight_def)
  have t: "tuned w x" using assms(2,3) by (simp add: flying_def)
  from size_mset_mono [OF f] t show "length (receipts wcs) \<le> unat (waitingReceives (client_of w x))"
    by (simp add: tuned_def)
  have "in_flight w x \<subseteq># (\<Sum>x\<in>S. in_flight w x)" using assms(3,4) by (simp add: sum.remove [of S x])
  with f assms(2) have "mset (receipts wcs) \<subseteq># handed_out mp" unfolding flying_def by (meson subset_mset.trans)
  from set_mset_mono [OF this] show "set (receipts wcs) \<subseteq> outstanding (small mp)"
    by (simp add: handed_out_def outstanding_def)
qed

section \<open>One poll\<close>

text \<open>A completion of the client \<open>x\<close>, or none, was taken and recycled.\<close>

definition took_one ::
    "env \<Rightarrow> (u64 \<Rightarrow> u32) \<Rightarrow> books \<Rightarrow> 'a cworld_scheme controller \<Rightarrow> u32 \<times> ptr \<Rightarrow> ibv_wc list \<Rightarrow>
     'a cworld_scheme \<Rightarrow> memory_pool \<Rightarrow> 'a cworld_scheme \<Rightarrow> memory_pool \<Rightarrow> bool" where
  "took_one E qn B k x wcs w mp w' mp' \<longleftrightarrow> drained E qn B k w mp (receipts wcs) w' mp' \<and>
     abs_server k w' mp' = took (fst x) (length (receipts wcs)) (abs_server k w mp) \<and>
     trace w' = (CQ (Ibv_poll_cq (cq_handle w x) 1), R_wcs (Inr wcs)) # trace w"

text \<open>The flights afterwards: those of the client without what it has received, and the others as before.\<close>

lemma took_one_flight:
  assumes "took_one E qn B k x wcs w mp w' mp'" and "honest_answer w x wcs"
    and "flying (set (clients k)) w mp" and "x \<in> set (clients k)" and "y \<in> set (clients k)"
    and "inj_on (\<lambda>x. cmId (client_of w x)) (set (clients k))"
  shows "in_flight w' y = in_flight w y - (if y = x then mset (receipts wcs) else {#})"
    "taken (trace w') (cq_handle w y) \<subseteq># flights (trace w) (cmId (client_of w y))"
proof -
  let ?F = "flights (trace w) (cmId (client_of w y))" and ?T = "taken (trace w) (cq_handle w y)"
  have d: "drained E qn B k w mp (receipts wcs) w' mp'" using assms(1) by (simp add: took_one_def)
  have h: "cq_handle w' y = cq_handle w y" "cmId (client_of w' y) = cmId (client_of w y)"
    using drained_handles [OF d assms(5)] d assms(5) by (simp_all add: drained_def)
  have fl: "flights (trace w') = flights (trace w)" using assms(1) by (simp add: took_one_def)
  have ty: "tuned w y" "tuned w x" using assms(3-5) by (simp_all add: flying_def)
  have tk: "taken (trace w') (cq_handle w y) = ?T + (if y = x then mset (recv_ids wcs) else {#})"
  proof (cases "cq_handle w y = cq_handle w x")
    case True
    then have "cmId (client_of w y) = cmId (client_of w x)" using ty by (auto simp: tuned_def)
    with assms(4-6) have "y = x" by (simp add: inj_on_def)
    then show ?thesis using assms(1) by (simp add: took_one_def)
  qed (use assms(1) in \<open>auto simp: took_one_def\<close>)
  have sub: "(if y = x then mset (recv_ids wcs) else {#}) \<subseteq># ?F - ?T"
    using assms(2) by (simp add: honest_answer_def Let_def)
  have "in_flight w' y = image_mset unat (?F - ?T - (if y = x then mset (recv_ids wcs) else {#}))"
    using h fl tk by (simp add: in_flight_def)
  also have "\<dots> = in_flight w y - image_mset unat (if y = x then mset (recv_ids wcs) else {#})"
    unfolding in_flight_def using sub by (rule image_mset_Diff)
  finally show "in_flight w' y = in_flight w y - (if y = x then mset (receipts wcs) else {#})"
    by (simp add: receipts_ids split: if_splits)
  have "?T \<subseteq># ?F" using ty by (simp add: tuned_def)
  with sub show "taken (trace w') (cq_handle w y) \<subseteq># ?F" unfolding tk
    by (metis add.commute subset_mset.le_diff_conv2)
qed

lemma took_one_tuned:
  assumes "took_one E qn B k x wcs w mp w' mp'" and "honest_answer w x wcs" and "server_inv E qn B k w mp"
    and "flying (set (clients k)) w mp" and "x \<in> set (clients k)" and "y \<in> set (clients k)"
    and "inj_on (\<lambda>x. cmId (client_of w x)) (set (clients k))"
  shows "tuned w' y"
proof -
  have d: "drained E qn B k w mp (receipts wcs) w' mp'" using assms(1) by (simp add: took_one_def)
  then have inv': "server_inv E qn B k w' mp'" by (simp add: drained_def)
  have h: "cq_handle w' y = cq_handle w y" "cmId (client_of w' y) = cmId (client_of w y)"
    using drained_handles [OF d assms(6)] d assms(6) by (simp_all add: drained_def)
  have t: "flights (trace w') = flights (trace w)" "recv_queue (trace w') = recv_queue (trace w)"
    using assms(1) by (simp_all add: took_one_def)
  note f = took_one_flight [OF assms(1,2,4,5,6,7)]
  have key: "fst y = fst x \<longleftrightarrow> y = x" using server_invD(2) [OF assms(3)] assms(5,6) by (metis distinct_map inj_on_eq_iff)
  have "Some (unat (waitingReceives (client_of w' y))) = posted (took (fst x) (length (receipts wcs)) (abs_server k w mp)) (fst y)"
    using posted_entry [OF inv' assms(6)] assms(1) by (simp add: took_one_def)
  also have "\<dots> = Some (unat (waitingReceives (client_of w y)) - (if y = x then length (receipts wcs) else 0))"
    using posted_entry [OF assms(3) assms(6)] key by (cases "y = x") simp_all
  finally have n: "unat (waitingReceives (client_of w' y)) =
      unat (waitingReceives (client_of w y)) - (if y = x then length (receipts wcs) else 0)" by simp
  have "size (in_flight w' y) = size (in_flight w y) - (if y = x then length (receipts wcs) else 0)"
    using f(1) honest_receipts(1) [OF assms(2,4,5)] by (simp add: size_Diff_submset)
  with n f(2) h t assms(4,6) show ?thesis by (simp add: flying_def tuned_def)
qed

lemma mset_le_diff: "A + B \<subseteq># C \<Longrightarrow> A \<subseteq># C - B" for A :: "'b multiset"
  by (simp add: subseteq_mset_def add_le_imp_le_diff)

lemma took_one_flying:
  fixes w :: "'a cworld_scheme"
  assumes "took_one E qn B k x wcs w mp w' mp'" and "honest_answer w x wcs" and "server_inv E qn B k w mp"
    and "flying (set (clients k)) w mp" and "x \<in> set (clients k)"
  shows "flying (set (clients k)) w' mp'"
proof -
  let ?S = "set (clients k)" and ?ids = "receipts wcs" and ?O = "outstanding (small mp)"
  note inv = server_invD [OF assms(3)]
  have d: "drained E qn B k w mp ?ids w' mp'" using assms(1) by (simp add: took_one_def)
  have "inj_on fst ?S" using inv(2) by (simp add: distinct_map)
  from ids_differ [OF _ this] clients_invD(2) [OF inv(3)] have inj: "inj_on (\<lambda>x. cmId (client_of w x)) ?S" by blast
  note f = took_one_flight [OF assms(1,2,4,5) _ inj] and r = honest_receipts [OF assms(2,4,5) finite_set]
  have "length ?ids \<le> 1"
    using assms(2) by (cases wcs) (auto simp: honest_answer_def Let_def)
  then have dist: "distinct ?ids" by (cases ?ids) (auto simp: le_Suc_eq)
  have fin: "finite ?O" by (simp add: outstanding_def)
  have "(\<Sum>y\<in>?S. in_flight w' y) + mset ?ids = in_flight w' x + mset ?ids + (\<Sum>y\<in>?S - {x}. in_flight w' y)"
    using assms(5) by (simp add: sum.remove [of ?S x] ac_simps)
  also have "in_flight w' x + mset ?ids = in_flight w x" using f(1) [OF assms(5)] r(1) by (simp add: subset_mset.diff_add)
  also have "(\<Sum>y\<in>?S - {x}. in_flight w' y) = (\<Sum>y\<in>?S - {x}. in_flight w y)" using f(1) by (intro sum.cong) simp_all
  also have "in_flight w x + \<dots> = (\<Sum>y\<in>?S. in_flight w y)" using assms(5) by (simp add: sum.remove [of ?S x])
  also have "\<dots> \<subseteq># mset_set ?O" using assms(4) by (simp add: flying_def handed_out_def)
  finally have "(\<Sum>y\<in>?S. in_flight w' y) \<subseteq># mset_set ?O - mset ?ids" by (rule mset_le_diff)
  also have "\<dots> = handed_out mp'"
    using d mset_set_Diff [OF fin r(2)] mset_set_set [OF dist] by (simp add: handed_out_def drained_def)
  finally have sum: "(\<Sum>y\<in>?S. in_flight w' y) \<subseteq># handed_out mp'" .
  have "(\<lambda>x. cmId (client_of w' x)) ` ?S = (\<lambda>x. cmId (client_of w x)) ` ?S"
    using d by (intro image_cong) (simp_all add: drained_def)
  moreover have "recv_queue (trace w') = recv_queue (trace w)" using assms(1) by (simp add: took_one_def)
  ultimately show ?thesis using assms(4) d sum took_one_tuned [OF assms(1-5) _ inj] by (simp add: flying_def drained_def)
qed

section \<open>The budget\<close>

text \<open>The blocks that are free or posted.\<close>

definition stock :: "server_spec \<Rightarrow> nat" where
  "stock a = free a + (\<Sum>q\<in>dom (posted a). the (posted a q))"

definition budget :: "nat \<Rightarrow> server_spec \<Rightarrow> bool" where
  "budget r a \<longleftrightarrow> finite (dom (posted a)) \<and> (\<forall>q \<in> dom (posted a). the (posted a q) \<le> 32) \<and>
     32 * (card (dom (posted a)) + r) \<le> stock a"

text \<open>What completes is free again, so nothing is lost.\<close>

lemma stock_took:
  assumes "finite (dom (posted a))" and "posted a q = Some m" and "n \<le> m"
  shows "stock (took q n a) = stock a"
proof -
  have q: "q \<in> dom (posted a)" using assms(2) by blast
  have "(\<Sum>p\<in>dom (posted a). the (posted (took q n a) p)) = (m - n) + (\<Sum>p\<in>dom (posted a) - {q}. the (posted a p))"
    using assms(1,2) q by (simp add: sum.remove)
  moreover have "(\<Sum>p\<in>dom (posted a). the (posted a p)) = m + (\<Sum>p\<in>dom (posted a) - {q}. the (posted a p))"
    using assms(1,2) q by (simp add: sum.remove)
  ultimately show ?thesis using assms(3) by (simp add: stock_def)
qed

lemma budget_took:
  assumes "budget r a" and "posted a q = Some m" and "n \<le> m"
  shows "budget r (took q n a)"
proof -
  from assms(1) have b: "finite (dom (posted a))" "\<forall>p \<in> dom (posted a). the (posted a p) \<le> 32"
    "32 * (card (dom (posted a)) + r) \<le> stock a" by (simp_all add: budget_def)
  have "the (posted (took q n a) p) \<le> 32" if "p \<in> dom (posted a)" for p
    using b(2) [rule_format, OF that] assms(2) that by auto
  with b stock_took [OF b(1) assms(2,3)] show ?thesis by (simp add: budget_def)
qed

section \<open>A poll of all queues\<close>

text \<open>What holds after polls, whatever the device has completed.\<close>

definition still_alive ::
    "env \<Rightarrow> (u64 \<Rightarrow> u32) \<Rightarrow> books \<Rightarrow> 'a cworld_scheme controller \<Rightarrow> 'a cworld_scheme \<Rightarrow> memory_pool \<Rightarrow>
     'a cworld_scheme \<Rightarrow> memory_pool \<Rightarrow> bool" where
  "still_alive E qn B k w mp w' mp' \<longleftrightarrow> (\<exists>ids. drained E qn B k w mp ids w' mp') \<and> flying (set (clients k)) w' mp' \<and>
     (\<forall>r. budget r (abs_server k w mp) \<longrightarrow> budget r (abs_server k w' mp'))"

lemma still_alive_trans:
  "still_alive E qn B k w mp w1 mp1 \<Longrightarrow> still_alive E qn B k w1 mp1 w' mp' \<Longrightarrow> still_alive E qn B k w mp w' mp'"
  unfolding still_alive_def by (metis drained_trans)

lemma still_aliveD:
  assumes "still_alive E qn B k w mp w' mp'"
  shows "server_inv E qn B k w' mp'" "flying (set (clients k)) w' mp'" "estate_kept k w mp k w' mp'"
    "budget r (abs_server k w mp) \<Longrightarrow> budget r (abs_server k w' mp')"
    "x \<in> set (clients k) \<Longrightarrow> cq_of w' x = cq_of w x"
  using assms by (auto simp: still_alive_def drained_def intro!: estate_kept_same)

lemma took_one_alive:
  fixes w :: "'a cworld_scheme"
  assumes "took_one E qn B k x wcs w mp w' mp'" and "honest_answer w x wcs" and "server_inv E qn B k w mp"
    and "flying (set (clients k)) w mp" and "x \<in> set (clients k)"
  shows "still_alive E qn B k w mp w' mp'"
  using assms(1) took_one_flying [OF assms]
    budget_took [OF _ posted_entry [OF assms(3,5)] honest_receipts(3) [OF assms(2,4,5) finite_set]]
  by (auto simp: still_alive_def took_one_def)

lemma took_one_owed:
  assumes "took_one E qn B k x wcs w mp w' mp'" and "honest_answer w x wcs" and "x \<in> set (clients k)" and "wcs \<noteq> []"
  shows "owed w' x < owed w x"
proof -
  let ?i = "cmId (client_of w x)" and ?h = "cq_handle w x"
  let ?F = "flights (trace w) ?i - taken (trace w) ?h" and ?s = "sends (trace w) ?i - sends_taken (trace w) ?h"
  from assms(1) have d: "drained E qn B k w mp (receipts wcs) w' mp'" by (simp add: took_one_def)
  have h: "cq_handle w' x = ?h" "cmId (client_of w' x) = ?i"
    using drained_handles [OF d assms(3)] d assms(3) by (simp_all add: drained_def)
  have a: "length wcs \<le> 1" "mset (recv_ids wcs) \<subseteq># ?F" "non_receives wcs \<le> ?s"
    using assms(2) by (simp_all add: honest_answer_def Let_def)
  have "owed w' x = size (?F - mset (recv_ids wcs)) + (?s - non_receives wcs)"
    using assms(1) h by (simp add: owed_def Let_def took_one_def)
  also have "\<dots> = (size ?F - length (recv_ids wcs)) + (?s - non_receives wcs)"
    by (simp only: size_Diff_submset [OF a(2)] size_mset)
  finally have o: "owed w' x = (size ?F - length (recv_ids wcs)) + (?s - non_receives wcs)" .
  have "length (recv_ids wcs) \<le> size ?F" using size_mset_mono [OF a(2)] by simp
  moreover have "length (recv_ids wcs) + non_receives wcs = 1"
    using a(1) assms(4) by (cases wcs) (auto simp: non_receives_def)
  ultimately show ?thesis using o a(3) by (simp add: owed_def Let_def)
qed

text \<open>One turn of the loop over a queue.\<close>

lemma one_poll:
  fixes w :: "'a cworld_scheme"
  assumes "honest_device E" and "server_inv E qn B k w mp" and "flying (set (clients k)) w mp" and "x \<in> set (clients k)"
  shows "\<exists>wcs w' mp'. honest_answer w x wcs \<and> took_one E qn B k x wcs w mp w' mp' \<and>
    (\<forall>n. drain_queue E (Some (recycle E (ctl_pool k))) (snd x) (cq_of w x) n w =
       (if wcs = [] then Some (Ok n, w')
        else drain_queue E (Some (recycle E (ctl_pool k))) (snd x) (cq_of w x) (n + 1) w'))"
proof -
  from clients_invD(2) [OF server_invD(3) [OF assms(2)] assms(4)] obtain cq where
    cq: "heap_get (cqs w) (cq_of w x) = Some cq" by (auto simp: entry_ok_client Let_def)
  have h: "completionQ cq = cq_handle w x" using cq by (simp add: cq_handle_of)
  obtain wcs where ans: "wcs_of E (trace w) (CQ (Ibv_poll_cq (cq_handle w x) 1)) = Inr wcs" "honest_answer w x wcs"
    by (rule honest_poll [OF assms(1,3,4)])
  let ?w1 = "w\<lparr>trace := (CQ (Ibv_poll_cq (cq_handle w x) 1), R_wcs (Inr wcs)) # trace w\<rparr>"
  note p = poll_step [OF assms(2), of "cq_handle w x" 1 "R_wcs (Inr wcs)"] and r = honest_receipts [OF ans(2) assms(3,4) finite_set]
  show ?thesis
  proof (cases wcs)
    case Nil
    have "drain_queue E (Some (recycle E (ctl_pool k))) (snd x) (cq_of w x) n w = Some (Ok n, ?w1)" for n
      using cq ans(1) h Nil by (subst drain_queue.simps) (simp add: on_heap_run poll_completion_def run_simps)
    moreover have "took_one E qn B k x wcs w mp ?w1 mp"
      using drained_poll [OF assms(2)] p(2) Nil by (simp add: took_one_def)
    ultimately show ?thesis using ans(2) Nil by (intro exI [of _ wcs] exI [of _ ?w1] exI [of _ mp]) simp
  next
    case (Cons wc rest)
    with ans(2) have wcs: "wcs = [wc]" "wc_status wc = IBV_WC_SUCCESS" by (simp_all add: honest_answer_def Let_def)
    have m: "map_of (clients k) (fst x) = Some (snd x)"
      using server_invD(2) [OF assms(2)] assms(4) by (intro map_of_is_SomeI) simp_all
    have "length (receipts [wc]) \<le> the (posted (abs_server k ?w1 mp) (fst x))"
      using r(3) posted_entry [OF assms(2,4)] p(2) wcs(1) by simp
    from recycle_step [OF p(1) m _ this] r(2) wcs(1) obtain w' mp' where
      f: "recycle E (ctl_pool k) wc (snd x) ?w1 = Some (Ok 0, w')" "server_inv E qn B k w' mp'"
        "abs_server k w' mp' = took (fst x) (length (receipts wcs)) (abs_server k ?w1 mp)" "trace w' = trace ?w1"
        "cqs w' = cqs ?w1" "shape w' = shape ?w1" "outstanding (small mp') = outstanding (small mp) - set (receipts wcs)"
        "all_blocks mp' = all_blocks mp" "\<forall>y \<in> set (clients k). cq_of w' y = cq_of ?w1 y \<and>
           cmId (client_of w' y) = cmId (client_of ?w1 y) \<and> regions_of w' y = regions_of ?w1 y" by blast
    have "took_one E qn B k x wcs w mp w' mp'"
      using f p by (simp add: took_one_def drained_def shape_def regions_of_def fun_eq_iff)
    moreover have "drain_queue E (Some (recycle E (ctl_pool k))) (snd x) (cq_of w x) n w =
        drain_queue E (Some (recycle E (ctl_pool k))) (snd x) (cq_of w x) (n + 1) w'" for n
      using cq ans(1) h wcs f(1) by (subst drain_queue.simps) (simp add: on_heap_run poll_completion_def run_simps)
    ultimately show ?thesis using ans(2) wcs(1) by (intro exI [of _ wcs] exI [of _ w'] exI [of _ mp']) simp
  qed
qed

text \<open>The loop over a queue ends: each completion uses up something the device still owes.\<close>

lemma drain_ends:
  fixes w :: "'a cworld_scheme"
  assumes "honest_device E" and "server_inv E qn B k w mp" and "flying (set (clients k)) w mp" and "x \<in> set (clients k)"
  shows "\<exists>m w' mp'. drain_queue E (Some (recycle E (ctl_pool k))) (snd x) (cq_of w x) n w = Some (Ok m, w') \<and>
    still_alive E qn B k w mp w' mp'"
  using assms(2,3)
proof (induction "owed w x" arbitrary: w mp n rule: less_induct)
  case less
  from one_poll [OF assms(1) less.prems assms(4)] obtain wcs w1 mp1 where
    a: "honest_answer w x wcs" "took_one E qn B k x wcs w mp w1 mp1"
    and run: "\<forall>n. drain_queue E (Some (recycle E (ctl_pool k))) (snd x) (cq_of w x) n w =
       (if wcs = [] then Some (Ok n, w1)
        else drain_queue E (Some (recycle E (ctl_pool k))) (snd x) (cq_of w x) (n + 1) w1)" by blast
  have s: "still_alive E qn B k w mp w1 mp1" by (rule took_one_alive [OF a(2,1) less.prems assms(4)])
  note s1 = still_aliveD [OF s]
  show ?case
  proof (cases "wcs = []")
    case False
    have cq: "cq_of w1 x = cq_of w x" using s1(5) assms(4) by blast
    from less.hyps [OF took_one_owed [OF a(2,1) assms(4) False] s1(1,2), of "n + 1"] obtain m w' mp' where
      "drain_queue E (Some (recycle E (ctl_pool k))) (snd x) (cq_of w x) (n + 1) w1 = Some (Ok m, w')"
      "still_alive E qn B k w1 mp1 w' mp'" unfolding cq by blast
    with run False still_alive_trans [OF s] show ?thesis by auto
  qed (use run s in auto)
qed

lemma poll_clients_ends:
  fixes w :: "'a cworld_scheme"
  assumes "honest_device E" and "server_inv E qn B k w mp" and "flying (set (clients k)) w mp"
    and "set cs \<subseteq> set (clients k)"
  shows "\<exists>m w' mp'. poll_clients E (Some (recycle E (ctl_pool k))) cs n w = Some (Ok m, w') \<and>
    still_alive E qn B k w mp w' mp'"
  using assms(2-4)
proof (induction cs arbitrary: w mp n)
  case Nil
  have "drained E qn B k w mp [] w mp" using Nil.prems(1) by (simp add: drained_def)
  then show ?case using Nil.prems(2) by (auto simp: still_alive_def)
next
  case (Cons x cs)
  then have x: "x \<in> set (clients k)" "set cs \<subseteq> set (clients k)" by simp_all
  from clients_invD(2) [OF server_invD(3) [OF Cons.prems(1)] x(1)] have
    live: "heap_get (client_objs w) (snd x) \<noteq> None" by (auto simp: entry_ok_client Let_def)
  from drain_ends [OF assms(1) Cons.prems(1,2) x(1), of n] obtain m w1 mp1 where
    d: "drain_queue E (Some (recycle E (ctl_pool k))) (snd x) (cq_of w x) n w = Some (Ok m, w1)"
      "still_alive E qn B k w mp w1 mp1" by blast
  from Cons.IH [OF still_aliveD(1,2) [OF d(2)] x(2), of m] obtain m' w' mp' where
    "poll_clients E (Some (recycle E (ctl_pool k))) cs m w1 = Some (Ok m', w')" "still_alive E qn B k w1 mp1 w' mp'" by blast
  with d still_alive_trans [OF d(2)] on_client_get [OF live] show ?case by (auto simp: cq_of_def)
qed

lemma poll_ends:
  fixes w :: "'a cworld_scheme"
  assumes "honest_device E" and "server_inv E qn B k w mp" and "flying (set (clients k)) w mp"
    and "completionFunction k = Some (recycle E (ctl_pool k))"
  shows "\<exists>m w' mp'. pollCompletionQueues E (k, w) = Some (Ok m, (k, w')) \<and> still_alive E qn B k w mp w' mp'"
  using poll_clients_ends [OF assms(1-3) subset_refl, of 0] assms(4) by (fastforce simp: pollCompletionQueues_def)

end
