(* ===== verification/ServerForever.thy ===== *)
theory ServerForever
  imports ServerDevice
begin

text \<open>
  A server that lives: \<open>eventMonitor\<close> is called again and again, with a device whose completions
  arrive at any time.  A budget of 32 blocks for each peer, present or to come, is enough for every
  number of rounds, and after \<open>n\<close> rounds \<open>n div 10\<close> more events have been handled, or all.
\<close>

section \<open>The rounds\<close>

fun monitor ::
    "env \<Rightarrow> map_api \<Rightarrow> ('a cworld_scheme controller \<times> 'a cworld_scheme) poll_api \<Rightarrow> int \<Rightarrow> nat \<Rightarrow> ('a, int) ctl" where
  "monitor E U poll N 0 = returnM 0"
| "monitor E U poll N (Suc n) = bindM (eventMonitor E U poll N) (\<lambda>a. bindM (monitor E U poll N n) (\<lambda>b. returnM (a + b)))"

text \<open>The rounds in which the event channel is polled, when the counter starts at \<open>c\<close>.\<close>

fun ticks :: "u32 \<Rightarrow> nat \<Rightarrow> nat" where
  "ticks c 0 = 0"
| "ticks c (Suc n) = (if c mod 10 = 0 then 1 else 0) + ticks (c + 1) n"

lemma ticks_add: "ticks c (m + n) = ticks c m + ticks (c + of_nat m) n"
  by (induction m arbitrary: c) (simp_all add: ac_simps)

text \<open>The counter passes a multiple of ten in ten rounds, also where it wraps around.\<close>

lemma tick_within:
  assumes "j < n" and "(c + of_nat j) mod 10 = 0"
  shows "1 \<le> ticks c n"
proof -
  obtain m where "n = j + Suc m" using assms(1) by (metis add_Suc_right less_imp_Suc_add)
  then have "ticks c n = ticks c j + ticks (c + of_nat j) (Suc m)" by (simp only: ticks_add)
  with assms(2) show ?thesis by simp
qed

lemma tick_in_ten: "1 \<le> ticks c 10"
proof -
  define j where "j = 9 * unat c mod 10"
  have "(unat c + j) mod 10 = (unat c + 9 * unat c) mod 10" unfolding j_def by (rule mod_add_right_eq)
  also have "\<dots> = 0" by simp
  finally have j: "j < 10" "(unat c + j) mod 10 = 0" by (simp_all add: j_def)
  show ?thesis
  proof (cases "unat c + j < 2 ^ 32")
    case True
    then have "unat (c + of_nat j) = unat c + j" using j(1) by (simp add: unat_word_ariths unat_of_nat)
    with j(2) have "unat ((c + of_nat j) mod 10) = 0" by (simp add: unat_mod)
    then have "(c + of_nat j) mod 10 = 0" by (simp only: unat_eq_0)
    with j(1) show ?thesis by (rule tick_within)
  next
    case False
    let ?i = "2 ^ 32 - unat c"
    have lt: "unat c < 2 ^ 32" using unsigned_less [of c] by simp
    with False j(1) have "?i < 10" by linarith
    moreover have "c + of_nat ?i = of_nat (unat c + ?i)" by simp
    then have "c + of_nat ?i = 0" using lt by simp
    then have "(c + of_nat ?i) mod 10 = 0" by simp
    ultimately show ?thesis by (rule tick_within)
  qed
qed

lemma ticks_tenth: "n div 10 \<le> ticks c n"
proof (induction n arbitrary: c rule: less_induct)
  case (less n)
  show ?case
  proof (cases "n < 10")
    case False
    then obtain m where n: "n = 10 + m" using le_Suc_ex by (metis not_less)
    have "m div 10 \<le> ticks (c + 10) m" by (rule less) (simp add: n)
    with tick_in_ten [of c] ticks_add [of c 10 m] n show ?thesis by simp
  qed simp
qed

section \<open>The script\<close>

text \<open>A script that the connection manager can deliver to a server with the peers \<open>D\<close>.\<close>

fun valid_script :: "(u64 \<Rightarrow> u32) \<Rightarrow> cm_event list \<Rightarrow> u32 set \<Rightarrow> bool" where
  "valid_script qn [] D \<longleftrightarrow> True"
| "valid_script qn (ev # evs) D \<longleftrightarrow> ev_id ev \<noteq> 0 \<and> (case ev_type ev of
     RDMA_CM_EVENT_CONNECT_REQUEST \<Rightarrow> qn (ev_id ev) \<notin> D \<and> valid_script qn evs (insert (qn (ev_id ev)) D)
   | RDMA_CM_EVENT_ESTABLISHED \<Rightarrow> qn (ev_id ev) \<in> D \<and> valid_script qn evs D
   | RDMA_CM_EVENT_DISCONNECTED \<Rightarrow> qn (ev_id ev) \<in> D \<and> valid_script qn evs (D - {qn (ev_id ev)})
   | _ \<Rightarrow> valid_script qn evs D)"

lemma valid_script_event: "valid_script qn (ev # evs) (dom (posted a)) \<Longrightarrow> valid_event qn a ev"
  by (cases "ev_type ev") (simp_all add: valid_event_def)

lemma hunger_posted:
  assumes "finite (dom (posted a))" and "\<forall>q \<in> dom (posted a). the (posted a q) \<le> 32"
  shows "hunger a + (\<Sum>q\<in>dom (posted a). the (posted a q)) = 32 * card (dom (posted a))"
proof -
  have "hunger a + (\<Sum>q\<in>dom (posted a). the (posted a q)) = (\<Sum>q\<in>dom (posted a). 32 - the (posted a q) + the (posted a q))"
    by (simp add: hunger_def sum.distrib)
  also have "\<dots> = (\<Sum>q\<in>dom (posted a). 32)" using assms(2) by (intro sum.cong) simp_all
  finally show ?thesis by simp
qed

lemma budget_request:
  assumes "budget (Suc r) a" and "q \<notin> dom (posted a)"
  shows "\<exists>b. serve RDMA_CM_EVENT_CONNECT_REQUEST q a = Some b \<and> budget r b \<and> dom (posted b) = insert q (dom (posted a))"
proof -
  let ?D = "dom (posted a)"
  let ?b = "\<lparr>posted = (\<lambda>p. if p = q \<or> p \<in> ?D then Some 32 else None), free = free a - (hunger a + 32)\<rparr> :: server_spec"
  from assms(1) have f: "finite ?D" "\<forall>q \<in> ?D. the (posted a q) \<le> 32" "32 * (card ?D + Suc r) \<le> stock a"
    by (simp_all add: budget_def)
  note h = hunger_posted [OF f(1,2)]
  with f(3) have enough: "hunger a + 32 \<le> free a" unfolding stock_def by (simp add: algebra_simps)
  have dom: "dom (posted ?b) = insert q ?D" by (auto split: if_splits)
  have "(\<Sum>p\<in>dom (posted ?b). the (posted ?b p)) = (\<Sum>p\<in>insert q ?D. 32)" unfolding dom by (intro sum.cong) auto
  then have "(\<Sum>p\<in>dom (posted ?b). the (posted ?b p)) = 32 * card ?D + 32" using f(1) assms(2) by simp
  then have "stock ?b = stock a" using h enough unfolding stock_def by simp
  moreover have "card (dom (posted ?b)) = Suc (card ?D)" unfolding dom using f(1) assms(2) by simp
  moreover have "finite (dom (posted ?b))" unfolding dom using f(1) by simp
  moreover have "\<forall>p \<in> dom (posted ?b). the (posted ?b p) \<le> 32" by (auto split: if_splits)
  ultimately have "budget r ?b" using f(3) unfolding budget_def by simp
  then show ?thesis using enough dom by (intro exI [of _ ?b]) simp
qed

lemma budget_disconnect:
  assumes "budget r a" and "q \<in> dom (posted a)"
  shows "budget r (a\<lparr>posted := (posted a)(q := None)\<rparr>)"
proof -
  let ?D = "dom (posted a)" and ?b = "a\<lparr>posted := (posted a)(q := None)\<rparr>"
  from assms(1) have f: "finite ?D" "\<forall>q \<in> ?D. the (posted a q) \<le> 32" "32 * (card ?D + r) \<le> stock a"
    by (simp_all add: budget_def)
  have "(\<Sum>p\<in>?D. the (posted a p)) = the (posted a q) + (\<Sum>p\<in>?D - {q}. the (posted a p))"
    using f(1) assms(2) by (simp add: sum.remove)
  moreover have "(\<Sum>p\<in>?D - {q}. the (posted ?b p)) = (\<Sum>p\<in>?D - {q}. the (posted a p))" by (intro sum.cong) auto
  moreover have "the (posted a q) \<le> 32" using f(2) assms(2) by blast
  ultimately have "stock a \<le> stock ?b + 32" by (simp add: stock_def)
  moreover have "card ?D = Suc (card (?D - {q}))" using f(1) assms(2) by (rule card.remove)
  ultimately have "32 * (card (dom (posted ?b)) + r) \<le> stock ?b" using f(3) by simp
  with f(1,2) show ?thesis by (auto simp: budget_def)
qed

lemma budget_serves:
  assumes "valid_script qn (ev # evs) (dom (posted a))" and "budget (requests (ev # evs)) a"
  shows "\<exists>b. serve_next qn ev a = Some b \<and> budget (requests evs) b \<and> valid_script qn evs (dom (posted b))"
proof (cases "ev_type ev")
  case RDMA_CM_EVENT_CONNECT_REQUEST
  then have "requests (ev # evs) = Suc (requests evs)" by (simp add: requests_def)
  with assms budget_request [of "requests evs" a "qn (ev_id ev)"] RDMA_CM_EVENT_CONNECT_REQUEST show ?thesis
    by (auto simp: serve_next_def simp del: serve.simps(1))
next
  case RDMA_CM_EVENT_DISCONNECTED
  then have "requests (ev # evs) = requests evs" by (simp add: requests_def)
  with assms budget_disconnect [of "requests evs" a "qn (ev_id ev)"] RDMA_CM_EVENT_DISCONNECTED show ?thesis
    by (simp add: serve_next_def)
qed (use assms in \<open>simp_all add: serve_next_def requests_def\<close>)

section \<open>A server that lives\<close>

text \<open>The outside world: the device, the map, the event channel and its script.\<close>

definition fair_world ::
    "env \<Rightarrow> (u64 \<Rightarrow> u32) \<Rightarrow> map_api \<Rightarrow> u64 \<Rightarrow> cm_event list \<Rightarrow> ('a cworld_scheme controller \<times> 'a cworld_scheme) poll_api \<Rightarrow> bool" where
  "fair_world E qn U ch evs poll \<longleftrightarrow> serving E qn \<and> map_laws U \<and> ch \<noteq> 0 \<and> delivers E ch evs \<and>
     channel_polls evs poll \<and> honest_device E \<and> fresh_queues E"

text \<open>What holds of the server between two rounds.\<close>

definition alive ::
    "env \<Rightarrow> (u64 \<Rightarrow> u32) \<Rightarrow> u64 \<Rightarrow> cm_event list \<Rightarrow> books \<Rightarrow> 'a cworld_scheme controller \<Rightarrow> 'a cworld_scheme \<Rightarrow> memory_pool \<Rightarrow> bool" where
  "alive E qn ch evs B k w mp \<longleftrightarrow> server_inv E qn B k w mp \<and> flying (set (clients k)) w mp \<and>
     map_option eventChannel (rdmaListener k) = Some ch \<and> completionFunction k = Some (recycle E (ctl_pool k)) \<and>
     valid_script qn (drop (snd (fst B)) evs) (fst ` set (clients k)) \<and>
     budget (requests (drop (snd (fst B)) evs)) (abs_server k w mp)"

lemma aliveD:
  assumes "alive E qn ch evs B k w mp"
  shows "server_inv E qn B k w mp" "flying (set (clients k)) w mp" "map_option eventChannel (rdmaListener k) = Some ch"
    "completionFunction k = Some (recycle E (ctl_pool k))"
    "valid_script qn (drop (snd (fst B)) evs) (dom (posted (abs_server k w mp)))"
    "budget (requests (drop (snd (fst B)) evs)) (abs_server k w mp)"
  using assms by (simp_all add: alive_def dom_abs)

text \<open>The poll of the completion queues.\<close>

lemma poll_lives:
  fixes w :: "'a cworld_scheme"
  assumes "fair_world E qn U ch evs poll" and "alive E qn ch evs B k w mp"
  defines "k1 \<equiv> k\<lparr>event_poll_count := event_poll_count k + 1\<rparr>"
  shows "\<exists>m w1 mp1. pollCompletionQueues E (k, w) = Some (Ok m, (k, w1)) \<and> alive E qn ch evs B k1 w1 mp1 \<and>
    goes_on E k w mp k1 w1 mp1"
proof -
  note a = aliveD [OF assms(2)]
  have "honest_device E" using assms(1) by (simp add: fair_world_def)
  from poll_ends [OF this a(1,2,4)] obtain m w1 mp1 where
    run: "pollCompletionQueues E (k, w) = Some (Ok m, (k, w1))" and s: "still_alive E qn B k w mp w1 mp1" by blast
  note s = still_aliveD [OF s]
  have "alive E qn ch evs B k1 w1 mp1"
    using s(1,2) s(4) [OF a(6)] assms(2) unfolding alive_def k1_def by (simp add: server_inv_count)
  moreover have "goes_on E k w mp k1 w1 mp1"
    using s(2,3) by (simp add: k1_def goes_on_def estate_kept_def foreign_def flights_kept_def)
  ultimately show ?thesis using run by blast
qed

text \<open>The poll of the event channel.\<close>

lemma channel_lives:
  fixes w :: "'a cworld_scheme"
  assumes "fair_world E qn U ch evs poll" and "alive E qn ch evs B k w mp"
  defines "B' \<equiv> if snd (fst B) < length evs then book_handled B else B"
  shows "\<exists>m k' w' mp'. pollEventChannel E U poll (k, w) = Some (Ok m, (k', w')) \<and> alive E qn ch evs B' k' w' mp' \<and>
    goes_on E k w mp k' w' mp' \<and> event_poll_count k' = event_poll_count k"
proof -
  let ?n = "snd (fst B)"
  note f = assms(1) [unfolded fair_world_def] and a = aliveD [OF assms(2)]
  from a(3) obtain l where l: "rdmaListener k = Some l" "eventChannel l = ch" by blast
  from f l have w: "serving E qn" "map_laws U" "eventChannel l \<noteq> 0" "delivers E (eventChannel l) evs" "channel_polls evs poll"
    by blast+
  have next': "drop ?n evs = evs ! ?n # drop (Suc ?n) evs" if "?n < length evs" using that by (simp add: Cons_nth_drop_Suc)
  have "valid_event qn (abs_server k w mp) (evs ! ?n)" if "?n < length evs"
    using a(5) unfolding next' [OF that] by (rule valid_script_event)
  note ch = channel_round [OF w(1,2) a(1) l(1) w(3-5) this]
  show ?thesis
  proof (cases "?n < length evs")
    case True
    from a(5,6) [unfolded next' [OF True]] obtain b where
      b: "serve_next qn (evs ! ?n) (abs_server k w mp) = Some b" "budget (requests (drop (Suc ?n) evs)) b"
        "valid_script qn (drop (Suc ?n) evs) (dom (posted b))" using budget_serves by blast
    with ch True obtain k' w' mp' where r: "pollEventChannel E U poll (k, w) = Some (Ok 1, (k', w'))"
      "server_inv E qn (book_handled B) k' w' mp'" "same_listener k k'" "goes_on E k w mp k' w' mp'" "abs_server k' w' mp' = b"
      by auto
    have "flying (set (clients k')) w' mp'" using r(4) f a(2) by (simp add: goes_on_def flights_kept_def)
    moreover have "B' = book_handled B" "snd (fst (book_handled B)) = Suc ?n" using True by (simp_all add: B'_def)
    ultimately have "alive E qn ch evs B' k' w' mp'"
      using r(2,3,5) b(2,3) a(4) l by (simp add: alive_def same_listener_def flip: dom_abs [of k' w' mp'])
    with r(1,3,4) show ?thesis by (auto simp: same_listener_def)
  next
    case False
    with ch assms(2) show ?thesis by (auto simp: B'_def goes_on_same same_session_def)
  qed
qed

text \<open>One round.\<close>

lemma live_round:
  fixes w :: "'a cworld_scheme"
  assumes "fair_world E qn U ch evs poll" and "alive E qn ch evs B k w mp"
  shows "\<exists>m k' w' mp' B'. eventMonitor E U poll N (k, w) = Some (Ok m, (k', w')) \<and> alive E qn ch evs B' k' w' mp' \<and>
    goes_on E k w mp k' w' mp' \<and> snd B' = snd B \<and> fst (fst B') = fst (fst B) \<and>
    event_poll_count k' = event_poll_count k + 1 \<and> snd (fst B') = snd (fst B) + (if due k evs B then 1 else 0)"
proof -
  let ?k = "k\<lparr>event_poll_count := event_poll_count k + 1\<rparr>"
  from poll_lives [OF assms] obtain m w1 mp1 where
    run: "pollCompletionQueues E (k, w) = Some (Ok m, (k, w1))" and live: "alive E qn ch evs B ?k w1 mp1"
    and g: "goes_on E k w mp ?k w1 mp1" by blast
  show ?thesis
  proof (cases "event_poll_count k mod 10 = 0")
    case True
    let ?B = "if snd (fst B) < length evs then book_handled B else B"
    from channel_lives [OF assms(1) live] obtain m' k' w' mp' where
      c: "pollEventChannel E U poll (?k, w1) = Some (Ok m', (k', w'))" "alive E qn ch evs ?B k' w' mp'"
        "goes_on E ?k w1 mp1 k' w' mp'" "event_poll_count k' = event_poll_count k + 1" by auto
    have "eventMonitor E U poll N (k, w) = Some (Ok (m + m'), (k', w'))"
      using run c(1) True by (simp add: eventMonitor_def bindM_run)
    moreover have "snd (fst ?B) = snd (fst B) + (if due k evs B then 1 else 0)" using True by (simp add: due_def)
    moreover have "snd ?B = snd B" "fst (fst ?B) = fst (fst B)" by (simp_all add: book_handled_def)
    ultimately show ?thesis using c(2,4) goes_on_trans [OF g c(3)] by blast
  next
    case False
    have "eventMonitor E U poll N (k, w) = Some (Ok m, (?k, w1))" using run False by (simp add: eventMonitor_def bindM_run)
    with False live g show ?thesis
      by (intro exI [of _ m] exI [of _ ?k] exI [of _ w1] exI [of _ mp1] exI [of _ B]) (simp add: due_def)
  qed
qed

lemma monitor_lives:
  fixes w :: "'a cworld_scheme"
  assumes "fair_world E qn U ch evs poll" and "alive E qn ch evs B k w mp"
  shows "\<exists>m k' w' mp' B'. monitor E U poll N n (k, w) = Some (Ok m, (k', w')) \<and> alive E qn ch evs B' k' w' mp' \<and>
    goes_on E k w mp k' w' mp' \<and> snd B' = snd B \<and> fst (fst B') = fst (fst B) \<and>
    min (length evs) (snd (fst B) + ticks (event_poll_count k) n) \<le> snd (fst B')"
  using assms(2)
proof (induction n arbitrary: k w mp B)
  case 0
  then show ?case by (intro exI [of _ 0] exI [of _ k] exI [of _ w] exI [of _ mp] exI [of _ B]) (simp add: goes_on_same)
next
  case (Suc n)
  from live_round [OF assms(1) Suc.prems, of N] obtain a k1 w1 mp1 B1 where
    run: "eventMonitor E U poll N (k, w) = Some (Ok a, (k1, w1))" and live: "alive E qn ch evs B1 k1 w1 mp1"
    and g: "goes_on E k w mp k1 w1 mp1" "snd B1 = snd B" "fst (fst B1) = fst (fst B)"
    and c: "event_poll_count k1 = event_poll_count k + 1" "snd (fst B1) = snd (fst B) + (if due k evs B then 1 else 0)"
    by blast
  from Suc.IH [OF live] obtain b k' w' mp' B' where
    rest: "monitor E U poll N n (k1, w1) = Some (Ok b, (k', w'))" "alive E qn ch evs B' k' w' mp'"
    "min (length evs) (snd (fst B1) + ticks (event_poll_count k1) n) \<le> snd (fst B')"
    "goes_on E k1 w1 mp1 k' w' mp'" "snd B' = snd B1" "fst (fst B') = fst (fst B1)" by blast
  have "monitor E U poll N (Suc n) (k, w) = Some (Ok (a + b), (k', w'))" using run rest(1) by simp
  moreover have "min (length evs) (snd (fst B) + ticks (event_poll_count k) (Suc n)) \<le> snd (fst B')"
    using rest(3) c by (auto simp: due_def split: if_splits)
  moreover have "goes_on E k w mp k' w' mp'" "snd B' = snd B" "fst (fst B') = fst (fst B)"
    using goes_on_trans [OF g(1) rest(4)] g(2,3) rest(5,6) by simp_all
  ultimately show ?case using rest(2) by blast
qed

text \<open>C1: A server never hangs for want of blocks if its completion function is one that returns them
  (\<open>recycle\<close>) and the pool has 32 for each peer that is there or will come.  The device may
  complete requests at any time, also between two polls; it is only assumed to answer polls
  without an error, and with successful completions of requests that are posted, each once.  Its
  other calls succeed (\<open>serving\<close>), logging is off, and the
  events are a script that the connection manager can deliver: a request from a peer that is not
  there yet, the other events of peers that are.  However often the event loop is called, it returns
  without an error and the server is in order again: every client has its objects, the receives in
  flight are exactly those the clients count, each on a block of its own.  After \<open>n\<close> rounds
  \<open>n div 10\<close> more events of the script have been handled, or all of them.\<close>

theorem server_lives:
  fixes w :: "'a cworld_scheme"
  assumes "fair_world E qn U ch evs poll" and "alive E qn ch evs B k w mp"
  shows "\<exists>m k' w' mp' B'. monitor E U poll N n (k, w) = Some (Ok m, (k', w')) \<and> alive E qn ch evs B' k' w' mp' \<and>
    min (length evs) (cm_taken (trace w) + n div 10) \<le> cm_taken (trace w')"
proof -
  from monitor_lives [OF assms, of N n] obtain m k' w' mp' B' where
    run: "monitor E U poll N n (k, w) = Some (Ok m, (k', w'))" and live: "alive E qn ch evs B' k' w' mp'"
    and n: "min (length evs) (snd (fst B) + ticks (event_poll_count k) n) \<le> snd (fst B')" by blast
  have "cm_taken (trace w') = snd (fst B')" "cm_taken (trace w) = snd (fst B)"
    using server_inv_taken aliveD(1) live assms(2) by blast+
  with n ticks_tenth [of n "event_poll_count k"] run live show ?thesis by fastforce
qed

section \<open>An example\<close>

text \<open>A pool of 64 small blocks, at the addresses 1 to 64 of the model.\<close>

definition plain_mr :: "ptr \<Rightarrow> ibv_mr" where
  "plain_mr p = \<lparr>mr_addr = of_nat p, mr_length = 0x1000, mr_lkey = 1, mr_rkey = 2, mr_frags = 1\<rparr>"

definition plain_pool :: memory_pool where
  "plain_pool = (new_pool 9)\<lparr>pointer_map := (\<lambda>a. if unat a \<in> {1..64} then Some (unat a) else None),
     small := (small (new_pool 9))\<lparr>block_list := [1..<65], free_list := [1..<65]\<rparr>\<rparr>"

definition plain_world :: cworld where
  "plain_world = init_cworld\<lparr>regions := map (\<lambda>p. Some (wrap_region (Some (plain_mr p)) 0)) [1..<65],
     pools := [Some plain_pool], uses := (\<lambda>r. if r = Pool_ref 1 then 1 else 0)\<rparr>"

text \<open>A device that has completed every receive of the identifier 64, but hands them out only at
  times (here: after an even number of calls), so that they come in rounds with an event and in
  rounds without.  It gives each completion queue the lowest handle that no queue pair delivers
  to.\<close>

definition eager :: "trace \<Rightarrow> u64 \<Rightarrow> ibv_wc list" where
  "eager t h = (if even (length t) \<and> recv_queue t 64 = Some h
     then map (\<lambda>i. \<lparr>wc_wr_id = i, wc_status = IBV_WC_SUCCESS, wc_op = IBV_WC_RECV, wc_qp_num = 17\<rparr>)
       (take 1 (sorted_list_of_multiset (flights t 64 - taken t h)))
     else [])"

fun qp_ids :: "trace \<Rightarrow> u64 list" where
  "qp_ids [] = []"
| "qp_ids ((c, r) # t) = (case c of CM (Rdma_create_qp i d a) \<Rightarrow> i # qp_ids t | _ \<Rightarrow> qp_ids t)"

definition all_handles :: "u64 list" where
  "all_handles = map of_nat [1..<2 ^ 64]"

definition next_queue :: "trace \<Rightarrow> u64" where
  "next_queue t = (case find (\<lambda>h. \<forall>i \<in> set (qp_ids t). recv_queue t i \<noteq> Some h) all_handles of
     None \<Rightarrow> 1 | Some h \<Rightarrow> h)"

definition eager_env :: "cm_event list \<Rightarrow> env" where
  "eager_env evs = (env_script evs)\<lparr>
     wcs_of := (\<lambda>t c. case c of CQ (Ibv_poll_cq q n) \<Rightarrow> Inr (eager t q) | _ \<Rightarrow> Inr []),
     ptr_of := (\<lambda>t c. case c of CQ (Ibv_create_cq x n ch) \<Rightarrow> next_queue t | _ \<Rightarrow> 4096)\<rparr>"

lemma recv_queue_ids: "recv_queue t i = Some h \<Longrightarrow> i \<in> set (qp_ids t)"
  by (induction t rule: qp_ids.induct) (auto split: call.splits cm_call.splits if_splits)

lemma handles_nonzero: "h \<in> set all_handles \<longleftrightarrow> h \<noteq> 0"
proof -
  have "h \<in> set all_handles \<longleftrightarrow> (\<exists>n. (1 \<le> n \<and> n < 2 ^ 64) \<and> h = of_nat n)"
    unfolding all_handles_def set_map set_upt image_iff Bex_def atLeastLessThan_iff ..
  also have "\<dots> \<longleftrightarrow> h \<noteq> 0"
  proof
    assume "\<exists>n. (1 \<le> n \<and> n < 2 ^ 64) \<and> h = of_nat n"
    then obtain n where n: "1 \<le> n" "n < 2 ^ 64" "h = of_nat n" by blast
    then have "unat h = n" by (simp add: unsigned_of_nat take_bit_nat_eq_self)
    with n(1) show "h \<noteq> 0" by auto
  next
    assume "h \<noteq> 0"
    then have "1 \<le> unat h" "unat h < 2 ^ 64" using unsigned_less [of h] by (simp_all add: Suc_le_eq unat_gt_0)
    then show "\<exists>n. (1 \<le> n \<and> n < 2 ^ 64) \<and> h = of_nat n" by (intro exI [of _ "unat h"]) simp
  qed
  finally show ?thesis .
qed

lemma next_queue_ok: "next_queue t \<noteq> 0" "queue_left t \<Longrightarrow> recv_queue t i \<noteq> Some (next_queue t)"
proof -
  let ?P = "\<lambda>h. \<forall>i \<in> set (qp_ids t). recv_queue t i \<noteq> Some h" and ?H = all_handles
  show "next_queue t \<noteq> 0"
  proof (cases "find ?P ?H")
    case (Some h)
    from find_Some_prop [OF this] have "h \<in> set ?H" ..
    then show ?thesis unfolding next_queue_def Some handles_nonzero by simp
  qed (simp add: next_queue_def)
  assume "queue_left t"
  then obtain h where h: "h \<noteq> 0" "\<forall>i. recv_queue t i \<noteq> Some h" by (auto simp: queue_left_def)
  then have "h \<in> set ?H" unfolding handles_nonzero by simp
  with h(2) have "find ?P ?H \<noteq> None" unfolding find_None_iff by blast
  then obtain h' where "find ?P ?H = Some h'" by blast
  moreover from find_Some_prop [OF this] have "?P h'" ..
  ultimately show "recv_queue t i \<noteq> Some (next_queue t)" using recv_queue_ids unfolding next_queue_def by fastforce
qed

lemma take_mset: "mset (take n (sorted_list_of_multiset M)) \<subseteq># M"
proof -
  let ?xs = "sorted_list_of_multiset M"
  have "M = mset (take n ?xs) + mset (drop n ?xs)" by (metis append_take_drop_id mset_append mset_sorted_list_of_multiset)
  then show ?thesis by (metis mset_subset_eq_add_left)
qed

lemma eager_answer:
  assumes "recv_queue t i = Some h" and "\<forall>j. recv_queue t j = Some h \<longrightarrow> j = i"
  shows "length (eager t h) \<le> 1" "\<forall>wc \<in> set (eager t h). wc_status wc = IBV_WC_SUCCESS"
    "mset (recv_ids (eager t h)) \<subseteq># flights t i - taken t h" "non_receives (eager t h) = 0"
proof -
  show "length (eager t h) \<le> 1" "\<forall>wc \<in> set (eager t h). wc_status wc = IBV_WC_SUCCESS" "non_receives (eager t h) = 0"
    by (auto simp: eager_def non_receives_def filter_map o_def)
  show "mset (recv_ids (eager t h)) \<subseteq># flights t i - taken t h"
  proof (cases "even (length t) \<and> recv_queue t 64 = Some h")
    case True
    then have "64 = i" using assms(2) by blast
    moreover have "recv_ids (map (\<lambda>i. \<lparr>wc_wr_id = i, wc_status = IBV_WC_SUCCESS, wc_op = IBV_WC_RECV, wc_qp_num = 17\<rparr>) xs) = xs"
      for xs by (simp add: recv_ids_def o_def)
    ultimately show ?thesis using True take_mset [of 1] by (simp add: eager_def)
  qed (auto simp: eager_def)
qed

lemma eager_honest: "honest_device (eager_env evs)"
  unfolding honest_device_def
proof (intro allI impI)
  fix t i h
  assume i: "recv_queue t i = Some h" "\<forall>j. recv_queue t j = Some h \<longrightarrow> j = i"
  have "wcs_of (eager_env evs) t (CQ (Ibv_poll_cq h 1)) = Inr (eager t h)" by (simp add: eager_env_def)
  with eager_answer [OF i] show "\<exists>wcs. wcs_of (eager_env evs) t (CQ (Ibv_poll_cq h 1)) = Inr wcs \<and> length wcs \<le> 1 \<and>
      (\<forall>wc \<in> set wcs. wc_status wc = IBV_WC_SUCCESS) \<and>
      mset (recv_ids wcs) \<subseteq># flights t i - taken t h \<and> non_receives wcs \<le> sends t i - sends_taken t h"
    by (intro exI [of _ "eager t h"]) simp
qed

lemma eager_serving: "serving (eager_env evs) (\<lambda>i. 17)"
  using env_script_serving [of evs] next_queue_ok(1)
  by (simp add: serving_def eager_env_def fair_env_def honest_reg_def dereg_ok_def errno_set_def accepting_def MAP_FAILED_def)

lemma eager_world:
  "fair_world (eager_env evs) (\<lambda>i. 17) list_map 6 evs (script_poll evs)"
proof -
  have "delivers (eager_env evs) 6 evs" using env_script_delivers by (simp add: delivers_def eager_env_def)
  moreover have "fresh_queues (eager_env evs)" using next_queue_ok(2) by (simp add: fresh_queues_def eager_env_def)
  ultimately show ?thesis
    using eager_serving list_map_laws script_poll_ok eager_honest by (simp add: fair_world_def)
qed

lemma plain_region: "heap_get (regions plain_world) p =
    (if p \<in> {1..64} then Some (wrap_region (Some (plain_mr p)) 0) else None)"
  by (auto simp: plain_world_def heap_get_def nth_upt simp del: upt_Suc upt_rec_numeral)

lemma plain_blocks: "all_blocks plain_pool = [1..<65]"
  by (simp add: all_blocks_def plain_pool_def new_pool_def new_pool_container_def del: upt_Suc upt_rec_numeral)

lemma plain_pool_inv: "mp_inv (plain_pool, plain_world)"
proof -
  have "block_at (size_of Small) p plain_pool plain_world" if "p \<in> set [1..<65]" for p
  proof -
    have p: "p \<in> {1..64}" using that by (simp del: upt_Suc upt_rec_numeral)
    then have "unat (of_nat p :: u64) = p" by (simp add: unsigned_of_nat take_bit_nat_eq_self)
    with p show ?thesis
      by (simp add: block_at_def plain_region) (simp add: wrap_region_def plain_mr_def plain_pool_def)
  qed
  moreover have "pool_inv (container c plain_pool)" "chunk_size (container c plain_pool) = size_of c"
    "block_list (container c plain_pool) = (if c = Small then [1..<65] else [])" for c
    by (cases c; simp add: plain_pool_def new_pool_def new_pool_container_def pool_inv_def lists_ok_def
        del: upt_Suc upt_rec_numeral)+
  ultimately show ?thesis by (simp add: mp_inv_def split: if_splits)
qed

lemma plain_alive:
  defines "evs \<equiv> come_and_go @ come_and_go"
  defines "k \<equiv> ctl_ready\<lparr>completionFunction := Some (recycle (eager_env evs) 1)\<rparr> :: cworld controller"
  shows "alive (eager_env evs) (\<lambda>i. 17) 6 evs empty_books k plain_world plain_pool"
proof -
  obtain mp where idle: "server_inv (env_script []) (\<lambda>i. 17) empty_books ctl_ready idle_world mp" by (rule idle_server)
  have k: "clients k = []" "ctl_pool k = 1" "rdmaListener k = Some (listener_1 RDMA_CM_EVENT_CONNECT_REQUEST)"
    "completionFunction k = Some (recycle (eager_env evs) 1)" by (simp_all add: k_def)
  have "listening k" using server_invD(1) [OF idle] by (simp add: listening_def k_def)
  moreover have w: "heap_live (client_objs plain_world) = {}" "heap_live (cqs plain_world) = {}" "trace plain_world = []"
    "heap_get (pools plain_world) 1 = Some plain_pool" "uses plain_world = (\<lambda>r. if r = Pool_ref 1 then 1 else 0)"
    by (simp_all add: plain_world_def heap_live_def heap_get_def)
  then have "clients_inv (eager_env evs) (\<lambda>i. 17) 1 empty_books {} plain_world plain_pool"
    using plain_pool_inv
    by (simp add: clients_inv_def apart_def no_garbage_def books_ok_def empty_books_def ledger_def cm_tally_def uses_ok_def)
  ultimately have "server_inv (eager_env evs) (\<lambda>i. 17) empty_books k plain_world plain_pool"
    using k by (simp add: server_inv_def)
  moreover have "flying {} plain_world plain_pool"
    using w(3) by (auto simp: flying_def plain_blocks simp del: upt_Suc upt_rec_numeral)
  moreover have "free_list (small plain_pool) = [1..<65]" by (simp add: plain_pool_def)
  then have "abs_server k plain_world plain_pool = \<lparr>posted = Map.empty, free = 64\<rparr>"
    using k(1) by (simp add: abs_server_def del: upt_Suc upt_rec_numeral)
  then have "budget 2 (abs_server k plain_world plain_pool)" by (simp add: budget_def stock_def)
  moreover have "snd (fst empty_books) = 0" "requests evs = 2" "valid_script (\<lambda>i. 17) evs {}"
    by (simp_all add: empty_books_def evs_def come_and_go_def requests_def)
  ultimately show ?thesis using k by (simp add: alive_def)
qed

theorem server_lives_witness:
  "\<exists>m k' w'. monitor (eager_env (come_and_go @ come_and_go)) list_map (script_poll (come_and_go @ come_and_go)) 3 60
      (ctl_ready\<lparr>completionFunction := Some (recycle (eager_env (come_and_go @ come_and_go)) 1)\<rparr>, plain_world) =
    Some (Ok m, (k', w')) \<and> 6 \<le> cm_taken (trace w')"
proof -
  have "length (come_and_go @ come_and_go) = 6" "cm_taken (trace plain_world) = 0"
    by (simp_all add: come_and_go_def plain_world_def)
  with server_lives [OF eager_world plain_alive, of 3 60] show ?thesis by fastforce
qed

end
