(* ===== verification/Frames.thy ===== *)
theory Frames
  imports ClientEvents
begin

text \<open>
  What whole stretches of the program leave alone, shown by the shape of the program: a relation
  between the world before and the world after that every call respects is respected by what is
  built from the calls.
\<close>

section \<open>Steps that stay within a relation\<close>

text \<open>\<open>v\<close> is where the world is in the state; the relation holds however the call ends.\<close>

definition within :: "('w \<Rightarrow> 'w \<Rightarrow> bool) \<Rightarrow> ('s \<Rightarrow> 'w) \<Rightarrow> ('s, 'a) M \<Rightarrow> bool" where
  "within R v m \<longleftrightarrow> (\<forall>s r t. m s = Some (r, t) \<longrightarrow> R (v s) (v t))"

lemma withinD: "within R v m \<Longrightarrow> m s = Some (r, t) \<Longrightarrow> R (v s) (v t)"
  unfolding within_def by blast

definition self :: "'w \<Rightarrow> 'w" where
  "self w = w"

definition beside :: "('s \<Rightarrow> 'w) \<Rightarrow> 'o \<times> 's \<Rightarrow> 'w" where
  "beside v s = v (snd s)"

lemma beside_pair: "beside v (ob, w) = v w"
  by (simp add: beside_def)

definition step_rel :: "('w \<Rightarrow> 'w \<Rightarrow> bool) \<Rightarrow> bool" where
  "step_rel R \<longleftrightarrow> reflp R \<and> transp R"

lemma step_trans: "step_rel R \<Longrightarrow> R a b \<Longrightarrow> R b c \<Longrightarrow> R a c"
  by (auto simp: step_rel_def dest: transpD)

named_theorems within_rules "calls that stay within a relation"

lemma within_basic [within_rules]:
  assumes "step_rel R"
  shows "within R v (returnM a)" "within R v (throwM e)" "within R v (faultM q)" "within R v getM" "within R v blockM"
    "within R (beside v) this_get" "within R (beside v) (this_mod g)"
  using assms by (auto simp: within_def step_rel_def reflp_def beside_def this_get_def this_mod_def)

lemma within_bind [within_rules]:
  assumes "step_rel R" and "within R v m" and "\<And>a. within R v (f a)"
  shows "within R v (bindM m f)"
  unfolding within_def
proof (intro allI impI)
  fix s r t assume run: "bindM m f s = Some (r, t)"
  then obtain r1 u where m: "m s = Some (r1, u)" by (auto simp: bindM_run split: option.splits)
  from withinD [OF assms(2) m] have R: "R (v s) (v u)" .
  show "R (v s) (v t)"
  proof (cases r1)
    case (Ok a)
    with run m have "f a u = Some (r, t)" by (simp add: bindM_run)
    from withinD [OF assms(3) this] R assms(1) show ?thesis by (auto simp: step_rel_def dest: transpD)
  qed (use run m R in \<open>auto simp: bindM_run\<close>)
qed

lemma within_catch [within_rules]:
  assumes "step_rel R" and "within R v m" and "\<And>e. within R v (h e)"
  shows "within R v (catchM m h)"
  unfolding within_def
proof (intro allI impI)
  fix s r t assume run: "catchM m h s = Some (r, t)"
  then obtain r1 u where m: "m s = Some (r1, u)" by (auto simp: catchM_run split: option.splits)
  from withinD [OF assms(2) m] have R: "R (v s) (v u)" .
  show "R (v s) (v t)"
  proof (cases r1)
    case (Throw e)
    with run m have "h e u = Some (r, t)" by (simp add: catchM_run)
    from withinD [OF assms(3) this] R assms(1) show ?thesis by (auto simp: step_rel_def dest: transpD)
  qed (use run m R in \<open>auto simp: catchM_run\<close>)
qed

lemma within_if [within_rules]: "(b \<Longrightarrow> within R v m) \<Longrightarrow> (\<not> b \<Longrightarrow> within R v n) \<Longrightarrow> within R v (if b then m else n)"
  by simp

lemma within_when [within_rules]: "step_rel R \<Longrightarrow> within R v m \<Longrightarrow> within R v (whenM b m)"
  unfolding whenM_def by (intro within_rules)

lemma within_option [within_rules]:
  "(x = None \<Longrightarrow> within R v m) \<Longrightarrow> (\<And>a. x = Some a \<Longrightarrow> within R v (f a)) \<Longrightarrow>
   within R v (case x of None \<Rightarrow> m | Some a \<Rightarrow> f a)"
  by (cases x) simp_all

lemma within_sum [within_rules]:
  "(\<And>a. x = Inl a \<Longrightarrow> within R v (f a)) \<Longrightarrow> (\<And>b. x = Inr b \<Longrightarrow> within R v (g b)) \<Longrightarrow>
   within R v (case x of Inl a \<Rightarrow> f a | Inr b \<Rightarrow> g b)"
  by (cases x) simp_all

lemma within_prod [within_rules]: "(\<And>a b. x = (a, b) \<Longrightarrow> within R v (f a b)) \<Longrightarrow> within R v (case x of (a, b) \<Rightarrow> f a b)"
  by (cases x) simp

lemma within_iter [within_rules]:
  assumes "step_rel R" and "\<And>x. within R v (f x)"
  shows "within R v (iterM f xs)"
  by (induction xs) (simp_all only: iterM.simps, (intro within_rules assms; assumption?)+)

lemma within_finally [within_rules]:
  "step_rel R \<Longrightarrow> within R v m \<Longrightarrow> within R v f \<Longrightarrow> within R v (finallyM m f)"
  unfolding finallyM_def by (intro within_rules)

text \<open>Objects beside the world.\<close>

lemma within_on_world [within_rules]: "within R v m \<Longrightarrow> within R (beside v) (on_world m)"
  by (auto simp: within_def beside_def self_def on_world_def)

lemma within_construct [within_rules]: "within R (beside v) m \<Longrightarrow> within R v (construct ob m)"
  by (fastforce simp: within_def beside_def self_def construct_run split: option.splits result.splits prod.splits)

lemma within_local [within_rules]: "within R (beside v) m \<Longrightarrow> within R v (with_local d m)"
  by (fastforce simp: within_def beside_def self_def with_local_def)

lemma within_chunk [within_rules]: "within R (beside (beside v)) m \<Longrightarrow> within R (beside v) (on_chunk c m)"
  by (fastforce simp: within_def beside_def self_def on_chunk_def on_member_run split: option.splits prod.splits)

lemma within_listener [within_rules]: "step_rel R \<Longrightarrow> within R (beside self) m \<Longrightarrow> within R (beside self) (on_listener m)"
  by (fastforce simp: within_def beside_def self_def on_listener_def step_rel_def reflp_def split: option.splits)

section \<open>Calls that only handle memory\<close>

definition extends :: "trace \<Rightarrow> trace \<Rightarrow> bool" where
  "extends t t' \<longleftrightarrow> (\<exists>s. t' = s @ t)"

lemma extends_simps [simp]: "extends t t" "extends t (x # t)" "extends t (s @ t)"
  by (auto simp: extends_def intro: exI [of _ "[x]"])

lemma extends_trans: "extends t t1 \<Longrightarrow> extends t1 t2 \<Longrightarrow> extends t t2"
  by (auto simp: extends_def)

lemma extends_mem: "extends t t' \<Longrightarrow> x \<in> set t \<Longrightarrow> x \<in> set t'"
  by (auto simp: extends_def)

text \<open>Regions come and go; everything else is as it was.\<close>

definition mem_step :: "'a cworld_scheme \<Rightarrow> 'a cworld_scheme \<Rightarrow> bool" where
  "mem_step w w' \<longleftrightarrow> mworld.more w' = mworld.more w \<and> cm_tally (trace w') = cm_tally (trace w) \<and>
     traffic (trace w') = traffic (trace w) \<and> extends (trace w) (trace w')"

lemma mem_step_rel [simp]: "step_rel mem_step"
  by (auto simp: step_rel_def mem_step_def reflp_def transp_def intro: extends_trans)

lemma cworld_more [simp]:
  "mworld.more (w\<lparr>trace := t\<rparr>) = mworld.more (w :: 'a cworld_scheme)"
  "mworld.more (w\<lparr>regions := h\<rparr>) = mworld.more (w :: 'a cworld_scheme)"
  by (cases w; simp)+

lemma mem_within_calls [within_rules]:
  "within mem_step self (ext_int E (Mem c))" "within mem_step self (ext_ptr E (Mem c))" "within mem_step self (ext_mr E (Mem c))"
  "within mem_step self (errno E)" "within mem_step self (read_ext f)"
  "within mem_step self (modifyM (\<lambda>w. w\<lparr>regions := g w\<rparr>))"
  by (auto simp: within_def beside_def self_def mem_step_def cm_tally_def traffic_def)

lemma mem_within_region [within_rules]:
  "within mem_step (beside self) m \<Longrightarrow> within mem_step self (on_region p m)"
  by (fastforce simp: within_def beside_def self_def on_heap_def mem_step_def split: option.splits if_splits)

lemma mem_within_allocate: "within mem_step (beside self) (allocate E pd len)"
proof -
  have "within mem_step self (alloc_attempts E pd len n rs)" for n rs
    by (induction n arbitrary: rs) (auto intro!: within_rules)
  moreover have "within mem_step self (release_others E b i rs)" for b i rs
    by (induction rs arbitrary: i) (auto simp: drop_region_def intro!: within_rules)
  ultimately show ?thesis by (auto simp: allocate_def Let_def intro!: within_rules)
qed

lemma mem_within_release: "within mem_step (beside self) (release E)"
  by (auto simp: release_def getLocalKey_def getAddress_def getLength_def through_region_def intro!: within_rules)

lemma mem_within_delete: "within mem_step self (delete_region E p)"
  by (auto simp: delete_region_def intro!: within_rules mem_within_release)

lemma mem_within_block: "within mem_step (beside self) (AllocateRegisteredBlock E len)"
  by (auto simp: AllocateRegisteredBlock_def new_region_def getAddress_def through_region_def
      intro!: within_rules mem_within_allocate)

lemma mem_within_pool: "within mem_step self (RdmaMemoryPool E pd a b c)"
proof -
  have "within mem_step (beside (beside self)) (alloc_blocks E n (AllocateRegisteredBlock E))" for n
    by (induction n) (simp only: alloc_blocks.simps, intro within_rules mem_step_rel,
        auto simp: push_def intro!: within_rules mem_within_block)
  then show ?thesis
    by (auto simp: RdmaMemoryPool_def allocate_pools_def AllocatePool_def intro!: within_rules)
qed

lemma mem_within_destroy: "within mem_step (beside self) (destroy_pool E)"
proof -
  have "within mem_step (beside (beside self)) pop_all"
    by (auto simp: within_def beside_def self_def mem_step_def pop_all_run)
  then show ?thesis
    by (auto simp: destroy_pool_def DeallocateList_def DeallocatePool_def Let_def intro!: within_rules mem_within_delete)
qed

section \<open>Calls that only set the server up\<close>

text \<open>Nothing the clients, the pool or the regions depend on; no queue pair begins to receive.\<close>

definition host_step :: "'a cworld_scheme \<Rightarrow> 'a cworld_scheme \<Rightarrow> bool" where
  "host_step w w' \<longleftrightarrow> regions w' = regions w \<and> client_objs w' = client_objs w \<and> cqs w' = cqs w \<and> pools w' = pools w \<and>
     uses w' = uses w \<and> ledger (trace w') = ledger (trace w) \<and>
     (recv_queue (trace w) = Map.empty \<longrightarrow> recv_queue (trace w') = Map.empty)"

lemma host_step_rel [simp]: "step_rel host_step"
  by (auto simp: step_rel_def host_step_def reflp_def transp_def)

text \<open>Calls that no book takes notice of.\<close>

definition quiet_call :: "call \<Rightarrow> bool" where
  "quiet_call c \<longleftrightarrow> (\<forall>r t. ledger ((c, r) # t) = ledger t \<and>
     (recv_queue t = Map.empty \<longrightarrow> recv_queue ((c, r) # t) = Map.empty))"

lemma quiet_calls [simp]:
  "quiet_call (Chan c1)" "quiet_call (Conn c2)" "quiet_call (Dev c3)" "quiet_call (Host c4)"
  "quiet_call (CQ (Ibv_alloc_pd ctx))" "quiet_call (CQ (Ibv_dealloc_pd ctx))"
  "quiet_call (CM Rdma_create_event_channel)" "quiet_call (CM (Rdma_destroy_event_channel ch))"
  "quiet_call (CM (Rdma_create_id ch))" "quiet_call (CM (Rdma_destroy_id ch))" "quiet_call (CM (Rdma_destroy_qp i))"
  by (simp_all add: quiet_call_def ledger_def cm_tally_def)

lemma host_within_calls [within_rules]:
  "quiet_call c \<Longrightarrow> within host_step self (ext_int E c)" "quiet_call c \<Longrightarrow> within host_step self (ext_ptr E c)"
  "quiet_call c \<Longrightarrow> within host_step self (ext_id E c)"
  "within host_step self (errno E)" "within host_step self (read_ext f)" "within host_step self (ext_devices E)"
  "within host_step self (modifyM (\<lambda>w. w\<lparr>bgvrnic_device := True\<rparr>))"
  by (auto simp: within_def beside_def self_def host_step_def quiet_call_def) (simp_all add: ledger_def cm_tally_def traffic_def)

end
