(* ===== verification/ServerEnd.thy ===== *)
theory ServerEnd
  imports ServerForever Frames
begin

text \<open>
  The end of a server: what the controller holds beside its clients, that the event loop leaves it
  alone, and that the destructor of the controller gives everything back, whatever clients are
  still there.
\<close>

section \<open>The estate of the controller\<close>

type_synonym holdings = "ibv_mr multiset \<times> (u64 \<times> u64) multiset"

text \<open>
  \<open>D\<close> is what is held outside the controller.  The controller itself holds the blocks of its pool,
  handed out or not, and the large region, which is no client's and no block.
\<close>

definition estate :: "holdings \<Rightarrow> books \<Rightarrow> 'w controller \<Rightarrow> 'a cworld_scheme \<Rightarrow> memory_pool \<Rightarrow> bool" where
  "estate D B k w mp \<longleftrightarrow> largeRegion k \<noteq> 0 \<and> region_ptr_ok w (largeRegion k) \<and> foreign k w (largeRegion k) \<and>
     largeRegion k \<notin> set (all_blocks mp) \<and>
     snd B = (fst D + mrps w (all_blocks mp) + mrp w (largeRegion k),
              snd D + fps w (all_blocks mp) + fp w (largeRegion k))"

lemma estateD:
  assumes "estate D B k w mp"
  shows "largeRegion k \<noteq> 0" "region_ptr_ok w (largeRegion k)" "foreign k w (largeRegion k)"
    "largeRegion k \<notin> set (all_blocks mp)"
    "snd B = (fst D + mrps w (all_blocks mp) + mrp w (largeRegion k), snd D + fps w (all_blocks mp) + fp w (largeRegion k))"
  using assms by (simp_all add: estate_def)

lemma sums_shape:
  assumes "\<forall>p \<in> set ps. shape w' p = shape w p"
  shows "mrps w' ps = mrps w ps" "fps w' ps = fps w ps"
  using assms by (induction ps) (simp_all add: shape_cong(1,2) [of w' _ w])

lemma block_foreign:
  assumes "server_inv E qn B k w mp" and "p \<in> set (all_blocks mp)"
  shows "foreign k w p"
proof -
  note c = clients_invD [OF server_invD(3) [OF assms(1)]]
  from block_shape [OF c(7) assms(2)] c(3) assms(2) show ?thesis by (auto simp: foreign_def apart_def)
qed

lemma estate_goes_on:
  assumes "estate D B k w mp" and "server_inv E qn B k w mp" and "goes_on E k w mp k' w' mp'" and "snd B' = snd B"
  shows "estate D B' k' w' mp'"
proof -
  from assms(3) have e: "largeRegion k' = largeRegion k" "all_blocks mp' = all_blocks mp"
    "\<And>p. foreign k w p \<Longrightarrow> foreign k' w' p" "\<And>p. foreign k w p \<Longrightarrow> shape w' p = shape w p"
    by (auto simp: goes_on_def estate_kept_def)
  note d = estateD [OF assms(1)]
  note s = shape_cong [OF e(4) [OF d(3)]]
  have "\<forall>p \<in> set (all_blocks mp). shape w' p = shape w p" using e(4) block_foreign [OF assms(2)] by blast
  note b = sums_shape [OF this]
  show ?thesis using d e(1,2) e(3) [OF d(3)] s b assms(4) by (simp add: estate_def)
qed

section \<open>The clients go\<close>

lemma client_ends:
  fixes w :: "'a cworld_scheme"
  assumes "serving E qn" and "clients_inv E qn pl B S w mp" and "x \<in> S" and "pl \<noteq> 0"
  shows "\<exists>w'. drop_client E (snd x) w = Some (Ok (), w') \<and> clients_inv E qn pl B (S - {x}) w' mp \<and>
    client_left pl x w w'"
proof -
  obtain c cq where sole: "sole_client E w (snd x) c cq" and c: "client_of w x = c" "memoryPool c = pl"
    using entry_sole [OF assms(1,2), of "fst x" "snd x"] assms(3) by auto
  from sole have h: "heap_get (client_objs w) (snd x) = Some c" "client_ok w c" "uses w (Client_ref (snd x)) = 1"
    "heap_get (cqs w) (client_completionQ c) = Some cq" "uses w (CQ_ref (client_completionQ c)) = Suc 0"
    by (simp_all add: sole_client_def)
  have fair: "fair_env E" using assms(1) by (simp add: serving_def)
  from drop_client_last [OF fair h(2,1,3,4,5)] obtain w' where run: "drop_client E (snd x) w = Some (Ok (), w')"
    and d: "client_objs w' = heap_free (snd x) (client_objs w)" "cqs w' = heap_free (client_completionQ c) (cqs w)"
      "uses w' = unpool c ((uses w)(Client_ref (snd x) := 0, CQ_ref (client_completionQ c) := 0))" "pools w' = pools w"
      "regions_gone w c w'" by auto
  have led: "ledger (trace w) = (cm_tally (trace w), live_mrs (trace w), live_maps (trace w))" by (simp add: ledger_def)
  from gone_left [of w "fst x" "snd x" c pl w' "trace w" "cm_tally (trace w)"] c assms(4) d led
  have left: "client_left pl x w w'" "cm_tally (trace w') = cm_tally (trace w)" by simp_all
  have "fst B = cm_tally (trace w')" using clients_invD(5) [OF assms(2)] left(2) by (simp add: books_ok_def ledger_def)
  from clients_inv_left [OF assms(2,3) left(1) this refl] run left(1) show ?thesis by blast
qed

lemma clients_end:
  fixes w :: "'a cworld_scheme"
  assumes "serving E qn" and "clients_inv E qn pl B (set cs) w mp" and "distinct cs" and "pl \<noteq> 0"
  shows "\<exists>w'. iterM (\<lambda>c. drop_client E (snd c)) cs w = Some (Ok (), w') \<and> clients_inv E qn pl B {} w' mp \<and>
    (\<forall>p. (\<forall>x \<in> set cs. p \<notin> regions_of w x) \<longrightarrow> shape w' p = shape w p)"
  using assms(2,3)
proof (induction cs arbitrary: w)
  case Nil
  then show ?case by simp
next
  case (Cons x cs)
  have x: "x \<in> set (x # cs)" by simp
  from client_ends [OF assms(1) Cons.prems(1) x assms(4)] obtain w1 where
    run: "drop_client E (snd x) w = Some (Ok (), w1)" and inv: "clients_inv E qn pl B (set (x # cs) - {x}) w1 mp"
    and left: "client_left pl x w w1" by blast
  have cs: "set (x # cs) - {x} = set cs" using Cons.prems(2) by auto
  from Cons.IH [OF inv [unfolded cs]] Cons.prems(2) obtain w' where
    rest: "iterM (\<lambda>c. drop_client E (snd c)) cs w1 = Some (Ok (), w')" "clients_inv E qn pl B {} w' mp"
      "\<forall>p. (\<forall>x \<in> set cs. p \<notin> regions_of w1 x) \<longrightarrow> shape w' p = shape w1 p" by auto
  have "regions_of w1 y = regions_of w y" if "y \<in> set cs" for y
    using left_others(3) [OF Cons.prems(1) x left, of y] that [folded cs] by (simp add: regions_of_def)
  with rest(3) left have "(\<forall>x \<in> set (x # cs). p \<notin> regions_of w x) \<longrightarrow> shape w' p = shape w p" for p
    by (auto simp: client_left_def)
  with run rest(1,2) show ?case by auto
qed

section \<open>The pool goes\<close>

lemma drop_pool_last:
  fixes w :: "'a cworld_scheme"
  assumes "giving_env E" and "heap_get (pools w) pl = Some mp" and "mp_inv (mp, w)" and "uses w (Pool_ref pl) = 1"
  shows "\<exists>w'. drop_pool E pl w = Some (Ok (), w') \<and>
    (\<forall>q. heap_get (regions w') q = (if q \<in> set (all_blocks mp) then None else heap_get (regions w) q)) \<and>
    live_maps (trace w') = live_maps (trace w) - fps w (all_blocks mp) \<and>
    live_mrs (trace w') = live_mrs (trace w) - mrps w (all_blocks mp) \<and>
    client_objs w' = client_objs w \<and> cqs w' = cqs w \<and> pools w' = heap_free pl (pools w) \<and>
    cm_tally (trace w') = cm_tally (trace w) \<and> extends (trace w) (trace w')"
proof -
  let ?w = "w\<lparr>uses := (uses w)(Pool_ref pl := 0)\<rparr>"
  have pl: "pl \<noteq> 0" using assms(2) by (cases "pl = 0") auto
  have "mp_inv (mp, ?w)" using assms(3) by (rule mp_inv_cong [THEN iffD1, rotated]) simp
  from destroy_pool_run [OF assms(1) this] obtain mp' w1 where run: "destroy_pool E (mp, ?w) = Some (Ok (), (mp', w1))"
    and d: "\<forall>q. heap_get (regions w1) q = (if q \<in> set (all_blocks mp) then None else heap_get (regions w) q)"
      "live_maps (trace w1) = live_maps (trace w) - fps ?w (all_blocks mp)"
      "live_mrs (trace w1) = live_mrs (trace w) - mrps ?w (all_blocks mp)" by auto
  from withinD [OF mem_within_destroy run] have m: "mem_step ?w w1" by (simp add: beside_def self_def)
  then have more: "mworld.more w1 = mworld.more ?w" and cm: "cm_tally (trace w1) = cm_tally (trace w)"
      "extends (trace w) (trace w1)"
    by (simp_all add: mem_step_def)
  note f = more_fields [OF more]
  let ?w' = "w1\<lparr>pools := heap_free pl (pools w)\<rparr>"
  have "drop_pool E pl w = Some (Ok (), ?w')"
    using pl assms(2,4) run f(2) by (simp add: drop_pool_def unshare_def on_heap_run)
  moreover have "fps ?w (all_blocks mp) = fps w (all_blocks mp)" "mrps ?w (all_blocks mp) = mrps w (all_blocks mp)"
    by (rule fps_cong, simp) (rule mrps_cong, simp)
  ultimately show ?thesis using d f cm by (intro exI [of _ ?w']) simp
qed

section \<open>The controller goes\<close>

lemma heap_live_none: "heap_live h = {} \<Longrightarrow> heap_get h p = None"
  by (auto simp: heap_live_def)

text \<open>The domain and the channel: one call each, after which nothing is left to do.\<close>

lemma last_calls:
  fixes w :: "'a cworld_scheme"
  shows "\<exists>w' t. thenM (on_world (with_local d (destroy_domain E))) (thenM (this_mod f) (thenM
      (case ch of None \<Rightarrow> returnM () | Some c \<Rightarrow> on_world (with_local c (destroy_channel E))) (this_mod g))) (k, w) =
      Some (Ok (), (g (f k), w')) \<and> trace w' = t @ trace w \<and> host_step w w' \<and>
    (pd_ptr d \<noteq> 0 \<longrightarrow> (\<exists>r. (CQ (Ibv_dealloc_pd (pd_ptr d)), r) \<in> set t))"
proof -
  let ?c = "CQ (Ibv_dealloc_pd (pd_ptr d))"
  let ?p = "if pd_ptr d = 0 then [] else [(?c, R_int (rc_of E (trace w) ?c))]"
  let ?w = "w\<lparr>trace := ?p @ trace w\<rparr>"
  have dom: "with_local d (destroy_domain E) w = Some (Ok (), ?w)"
    by (simp add: with_local_def destroy_domain_def run_simps)
  have step: "host_step w ?w" by (simp add: host_step_def ledger_def cm_tally_def)
  show ?thesis
  proof (cases "\<exists>c. ch = Some c \<and> completionChannel c \<noteq> 0")
    case True
    then obtain c where c: "ch = Some c" "completionChannel c \<noteq> 0" by blast
    let ?d = "Chan (Ibv_destroy_comp_channel (completionChannel c))"
    let ?t = "(?d, R_int (rc_of E (trace ?w) ?d)) # ?p"
    have "with_local c (destroy_channel E) ?w = Some (Ok (), w\<lparr>trace := ?t @ trace w\<rparr>)"
      using c(2) by (simp add: with_local_def destroy_channel_def run_simps)
    moreover have "host_step w (w\<lparr>trace := ?t @ trace w\<rparr>)" by (simp add: host_step_def ledger_def cm_tally_def)
    ultimately show ?thesis using dom c(1)
      by (intro exI [of _ "w\<lparr>trace := ?t @ trace w\<rparr>"] exI [of _ ?t]) simp
  next
    case False
    then have "(case ch of None \<Rightarrow> returnM () | Some c \<Rightarrow> on_world (with_local c (destroy_channel E))) (f k, ?w) =
      Some (Ok (), (f k, ?w))"
      by (cases ch) (simp_all add: with_local_def destroy_channel_def run_simps)
    with dom step show ?thesis by (intro exI [of _ ?w] exI [of _ ?p]) simp
  qed
qed

lemma destroy_id_called: "cmId c \<noteq> 0 \<Longrightarrow> \<exists>s. (CM (Rdma_destroy_id (cmId c)), s) \<in> set (end_trace E c u)"
  by (auto simp: end_trace_def Let_def)

text \<open>After the last client the estate is what there is.\<close>

lemma estate_alone:
  fixes w :: "'a cworld_scheme"
  assumes "serving E qn" and "server_inv E qn B k w mp" and "estate D B k w mp"
  shows "\<exists>w1. iterM (\<lambda>c. drop_client E (snd c)) (clients k) w = Some (Ok (), w1) \<and>
    clients_inv E qn (ctl_pool k) B {} w1 mp \<and> estate D B (k\<lparr>clients := []\<rparr>) w1 mp"
proof -
  note inv = server_invD [OF assms(2)] and e = estateD [OF assms(3)]
  from inv(1) have pl: "ctl_pool k \<noteq> 0" by (simp add: listening_def)
  from inv(2) have "distinct (clients k)" by (simp add: distinct_map)
  from clients_end [OF assms(1) inv(3) this pl] obtain w1 where
    run: "iterM (\<lambda>c. drop_client E (snd c)) (clients k) w = Some (Ok (), w1)" "clients_inv E qn (ctl_pool k) B {} w1 mp"
    and "\<forall>p. (\<forall>x \<in> set (clients k). p \<notin> regions_of w x) \<longrightarrow> shape w1 p = shape w p" by blast
  then have sh: "shape w1 p = shape w p" if "foreign k w p" for p using that by (simp add: foreign_def)
  have "\<forall>p \<in> set (all_blocks mp). shape w1 p = shape w p" using sh block_foreign [OF assms(2)] by blast
  note s = sums_shape [OF this] and L = shape_cong [OF sh [OF e(3)]]
  have "estate D B (k\<lparr>clients := []\<rparr>) w1 mp"
    using e s L sh [OF e(3)] by (simp add: estate_def foreign_def)
  with run show ?thesis by blast
qed

lemma books_alone: "clients_inv E qn pl B {} w mp \<Longrightarrow> ledger (trace w) = B"
  using clients_invD(5) by (cases B) (fastforce simp: books_ok_def)

text \<open>The large region and the pool, when no client is left.\<close>

lemma estate_released:
  fixes w :: "'a cworld_scheme"
  assumes "serving E qn" and "clients_inv E qn pl B {} w mp" and "estate D B (k\<lparr>clients := []\<rparr>) w mp"
  shows "\<exists>w1 w2. delete_region E (largeRegion k) w = Some (Ok (), w1) \<and> drop_pool E pl w1 = Some (Ok (), w2) \<and>
    heap_live (client_objs w2) = {} \<and> heap_live (cqs w2) = {} \<and> heap_get (pools w2) pl = None \<and>
    (\<forall>p \<in> insert (largeRegion k) (set (all_blocks mp)). heap_get (regions w2) p = None) \<and>
    ledger (trace w2) = (fst B, D) \<and> extends (trace w) (trace w2)"
proof -
  let ?L = "largeRegion k" and ?ps = "all_blocks mp"
  note ci = clients_invD [OF assms(2)]
  have e: "?L \<noteq> 0" "region_ptr_ok w ?L" "?L \<notin> set ?ps"
    "snd B = (fst D + mrps w ?ps + mrp w ?L, snd D + fps w ?ps + fp w ?L)"
    using estateD [OF assms(3)] by simp_all
  from assms(1) have fair: "fair_env E" "giving_env E" by (simp_all add: serving_def fair_env_def giving_env_def)
  from drop_ptr_runs [OF fair(1) e(2), of undefined] e(1) obtain w1 t where run: "delete_region E ?L w = Some (Ok (), w1)"
    and d: "mworld.more w1 = mworld.more w" "trace w1 = t @ trace w" "mem_calls t"
      "\<forall>q. heap_get (regions w1) q = (if q = ?L then None else heap_get (regions w) q)"
      "live_mrs (trace w1) = live_mrs (trace w) - mrp w ?L" "live_maps (trace w1) = live_maps (trace w) - fp w ?L"
    by (auto simp: drop_ptr_def on_world_run split: option.splits)
  note f = more_fields [OF d(1)]
  have sp: "\<forall>p \<in> set ?ps. shape w1 p = shape w p" using d(4) e(3) by (auto simp: shape_def)
  note s = sums_shape [OF sp]
  have "mp_inv (mp, w1)" by (rule mp_inv_shape [OF ci(7) sp])
  moreover have "uses w1 (Pool_ref pl) = 1" using ci(4) f by (simp add: no_garbage_def)
  ultimately obtain w2 where drop: "drop_pool E pl w1 = Some (Ok (), w2)"
    and d2: "\<forall>q. heap_get (regions w2) q = (if q \<in> set ?ps then None else heap_get (regions w1) q)"
      "live_maps (trace w2) = live_maps (trace w1) - fps w1 ?ps" "live_mrs (trace w2) = live_mrs (trace w1) - mrps w1 ?ps"
      "client_objs w2 = client_objs w1" "cqs w2 = cqs w1" "pools w2 = heap_free pl (pools w1)"
      "cm_tally (trace w2) = cm_tally (trace w1)" "extends (trace w1) (trace w2)"
    using drop_pool_last [OF fair(2), of w1 pl mp] f ci(6) by auto
  from books_alone [OF assms(2)] have led: "cm_tally (trace w) = fst B" "live_mrs (trace w) = fst (snd B)"
    "live_maps (trace w) = snd (snd B)" by (auto simp: ledger_def)
  have "cm_tally (trace w2) = fst B" using led(1) d(2,3) d2(7) by (simp add: mem_calls_tally)
  moreover have "live_mrs (trace w2) = fst D" "live_maps (trace w2) = snd D"
    unfolding d2(2,3) d(5,6) s led(2,3) e(4) by simp_all
  ultimately have "ledger (trace w2) = (fst B, D)" by (simp add: ledger_def)
  moreover have "heap_get (pools w2) pl = None" unfolding d2(6) using f ci(6) by (simp add: heap_get_free)
  moreover have "heap_live (client_objs w2) = {}" "heap_live (cqs w2) = {}" using ci(4) d2(4,5) f by (simp_all add: no_garbage_def)
  moreover have "\<forall>p \<in> insert ?L (set ?ps). heap_get (regions w2) p = None" using d(4) d2(1) by simp
  moreover have "extends (trace w) (trace w2)" using extends_trans [OF _ d2(8), of "trace w"] d(2) by simp
  ultimately show ?thesis using run drop by blast
qed

lemma controller_ends':
  fixes w :: "'a cworld_scheme"
  assumes "serving E qn" and "server_inv E qn B k w mp" and "estate D B k w mp" and "rdmaListener k = Some l"
    and "protectionDomain k = Some d"
  shows "\<exists>k' w' t u. destroy_controller E (k, w) = Some (Ok (), (k', w')) \<and> clients k' = [] \<and>
    heap_live (client_objs w') = {} \<and> heap_live (cqs w') = {} \<and> heap_get (pools w') (ctl_pool k) = None \<and>
    (\<forall>p \<in> insert (largeRegion k) (set (all_blocks mp)). heap_get (regions w') p = None) \<and>
    ledger (trace w') = (cm_tally (trace w), D) \<and>
    trace w' = t @ u \<and> ledger u = (cm_tally (trace w), D) \<and>
    (pd_ptr d \<noteq> 0 \<longrightarrow> (\<exists>r. (CQ (Ibv_dealloc_pd (pd_ptr d)), r) \<in> set t)) \<and>
    (cmId l \<noteq> 0 \<longrightarrow> (\<exists>s. (CM (Rdma_destroy_id (cmId l)), s) \<in> set u))"
proof -
  from estate_alone [OF assms(1-3)] obtain w1 where run1: "iterM (\<lambda>c. drop_client E (snd c)) (clients k) w = Some (Ok (), w1)"
    and c1: "clients_inv E qn (ctl_pool k) B {} w1 mp" and e1: "estate D B (k\<lparr>clients := []\<rparr>) w1 mp" by blast
  let ?w2 = "w1\<lparr>trace := end_trace E l (trace w1) @ trace w1\<rparr>"
  obtain l' where run2: "destroy_connection E (l, w1) = Some (Ok (), (l', ?w2))"
    using destroy_connection_runs by blast
  have sh: "shape ?w2 = shape w1" by (simp add: shape_def fun_eq_iff)
  have c2: "clients_inv E qn (ctl_pool k) B {} ?w2 mp"
    by (rule clients_inv_transfer [OF c1]) (use sh books_alone [OF c1] in \<open>simp_all add: prod_eq_iff\<close>)
  have e2: "estate D B (k\<lparr>clients := []\<rparr>) ?w2 mp"
    using e1 sums_shape [of _ ?w2 w1] shape_cong [of ?w2 _ w1] sh by (simp add: estate_def foreign_def)
  from estate_released [OF assms(1) c2 e2] obtain w3 w4 where
    run3: "delete_region E (largeRegion k) ?w2 = Some (Ok (), w3)" "drop_pool E (ctl_pool k) w3 = Some (Ok (), w4)"
    and d: "heap_live (client_objs w4) = {}" "heap_live (cqs w4) = {}" "heap_get (pools w4) (ctl_pool k) = None"
      "\<forall>p \<in> insert (largeRegion k) (set (all_blocks mp)). heap_get (regions w4) p = None"
      "ledger (trace w4) = (fst B, D)" "extends (trace ?w2) (trace w4)" by blast
  let ?k = "k\<lparr>clients := [], rdmaListener := None, largeRegion := 0, ctl_pool := 0\<rparr>"
  from last_calls [of d E "\<lambda>k. k\<lparr>protectionDomain := None\<rparr>" "ctl_channel k" "\<lambda>k. k\<lparr>ctl_channel := None\<rparr>" ?k w4]
  obtain w5 t where run5: "thenM (on_world (with_local d (destroy_domain E))) (thenM (this_mod (\<lambda>k. k\<lparr>protectionDomain := None\<rparr>))
      (thenM (case ctl_channel k of None \<Rightarrow> returnM () | Some c \<Rightarrow> on_world (with_local c (destroy_channel E)))
        (this_mod (\<lambda>k. k\<lparr>ctl_channel := None\<rparr>)))) (?k, w4) = Some (Ok (), (?k\<lparr>protectionDomain := None, ctl_channel := None\<rparr>, w5))"
    and tr: "trace w5 = t @ trace w4" "pd_ptr d \<noteq> 0 \<longrightarrow> (\<exists>r. (CQ (Ibv_dealloc_pd (pd_ptr d)), r) \<in> set t)"
    and h: "host_step w4 w5" by auto
  have L: "largeRegion k \<noteq> 0" using estateD(1) [OF assms(3)] .
  have "destroy_controller E (k, w) = Some (Ok (), (?k\<lparr>protectionDomain := None, ctl_channel := None\<rparr>, w5))"
    unfolding destroy_controller_def using run1 run2 run3 run5 assms(4,5) L by (simp add: on_listener_run)
  moreover have "fst B = cm_tally (trace w)"
    using clients_invD(5) [OF server_invD(3) [OF assms(2)]] by (simp add: books_ok_def ledger_def)
  moreover have "\<exists>s. (CM (Rdma_destroy_id (cmId l)), s) \<in> set (trace w4)" if id: "cmId l \<noteq> 0"
    using destroy_id_called [OF id, of E "trace w1"] extends_mem [OF d(6)] by force
  ultimately show ?thesis using d(1-5) tr h
    by (intro exI [of _ "?k\<lparr>protectionDomain := None, ctl_channel := None\<rparr>"] exI [of _ w5] exI [of _ t]
        exI [of _ "trace w4"]) (simp add: host_step_def)
qed

text \<open>C8: The destructor of the controller gives everything back, whatever clients are still there
  and whatever receives they have posted.  No client, no completion queue, no block of the pool
  and no large region is left, no registration and no mapping is held that was not held outside
  the controller, no event is lost track of, and the protection domain is given back after
  everything that was registered in it, and after the identifier of the listener.\<close>

theorem controller_ends:
  fixes w :: "'a cworld_scheme"
  assumes "serving E qn" and "server_inv E qn B k w mp" and "estate D B k w mp" and "rdmaListener k = Some l"
    and "protectionDomain k = Some d"
  shows "\<exists>k' w' t u. destroy_controller E (k, w) = Some (Ok (), (k', w')) \<and> clients k' = [] \<and>
    heap_live (client_objs w') = {} \<and> heap_live (cqs w') = {} \<and> heap_get (pools w') (ctl_pool k) = None \<and>
    (\<forall>p \<in> insert (largeRegion k) (set (all_blocks mp)). heap_get (regions w') p = None) \<and>
    ledger (trace w') = (cm_tally (trace w), D) \<and>
    trace w' = t @ u \<and> ledger u = (cm_tally (trace w), D) \<and>
    (pd_ptr d \<noteq> 0 \<longrightarrow> (\<exists>r. (CQ (Ibv_dealloc_pd (pd_ptr d)), r) \<in> set t)) \<and>
    (cmId l \<noteq> 0 \<longrightarrow> (\<exists>s. (CM (Rdma_destroy_id (cmId l)), s) \<in> set u))"
  using controller_ends' [OF assms] .

text \<open>A server with one block, which its one client has posted, and an empty large region.\<close>

definition end_ctl :: "cworld controller" where
  "end_ctl = tiny_ctl\<lparr>largeRegion := 4\<rparr>"

definition end_world :: cworld where
  "end_world = tiny_world\<lparr>regions := [Some (wrap_region (Some tiny_mr) 0), Some empty_region, Some empty_region, Some empty_region],
     trace := [(Mem (Ibv_reg_mr 9 0x5000 0x1000), R_mr (Some tiny_mr)), (Mem (Mmap 0x1000), R_ptr 0x5000)]\<rparr>"

lemma end_simps:
  "client_of end_world (q, Suc 0) = tiny_client" "clients end_ctl = [(17, 1)]" "ctl_pool end_ctl = 1" "largeRegion end_ctl = 4"
  "pools end_world = [Some tiny_pool]" "ledger (trace end_world) = ((0, 0), {#tiny_mr#}, {#(0x5000, 0x1000)#})"
  "heap_get (client_objs end_world) p = heap_get (client_objs tiny_world) p" "heap_get (cqs end_world) p = heap_get (cqs tiny_world) p"
  "uses end_world = uses tiny_world" "all_blocks tiny_pool = [1]"
  by (simp_all add: end_world_def end_ctl_def client_of_def heap_get_def ledger_def cm_tally_def MAP_FAILED_def)
     (simp_all add: tiny_world_def tiny_pool_def all_blocks_def new_pool_def new_pool_container_def)


lemma end_shape: "p \<noteq> 4 \<Longrightarrow> shape end_world p = shape tiny_world p"
  "p \<noteq> 1 \<Longrightarrow> fp end_world p = {#} \<and> mrp end_world p = {#} \<and> (p \<le> 4 \<longrightarrow> region_ptr_ok end_world p)"
  by (auto simp: shape_def fp_def mrp_def region_ptr_ok_def tidy_def heap_get_def end_world_def tiny_world_def empty_region_def
      nth_Cons split: nat.splits if_splits)

lemma end_server: "server_inv tiny_env (\<lambda>i. 17) (ledger (trace end_world)) end_ctl end_world tiny_pool"
proof -
  let ?x = "(17, 1) :: u32 \<times> ptr"
  have l: "listening end_ctl" using server_invD(1) [OF tiny_server] by (simp add: listening_def end_ctl_def)
  have c: "clients_inv tiny_env (\<lambda>i. 17) 1 empty_books {?x} tiny_world tiny_pool"
    using server_invD(3) [OF tiny_server] by simp
  note ci = clients_invD [OF c]
  have co: "client_of end_world = client_of tiny_world" "regions_of end_world ?x = {2, 3}"
    by (simp_all add: end_world_def client_of_def fun_eq_iff)
      (simp add: regions_of_def client_of_def tiny_world_def tiny_client_def heap_get_def)
  have "entry_ok tiny_env (\<lambda>i. 17) 1 end_world ?x"
    using ci(2) [of ?x] end_shape(2) [of 2] end_shape(2) [of 3]
    by (simp add: entry_ok_client Let_def co cq_of_def end_simps) (simp add: tiny_client_def)
  moreover have "apart {?x} end_world tiny_pool" using co(2) by (simp add: apart_def end_simps)
  moreover have "no_garbage 1 {?x} end_world"
    using ci(4) by (simp add: no_garbage_def uses_ok_def heap_live_def end_simps cq_of_def co)
  moreover have "books_ok (ledger (trace end_world)) {?x} end_world"
    using end_shape(2) by (simp add: books_ok_def held_mrs_def held_maps_def end_simps tiny_client_def)
  moreover have "mp_inv (tiny_pool, end_world)"
    by (rule mp_inv_shape [OF ci(7)]) (simp add: end_simps end_shape(1))
  ultimately have "clients_inv tiny_env (\<lambda>i. 17) 1 (ledger (trace end_world)) {?x} end_world tiny_pool"
    by (simp add: clients_inv_def end_simps heap_get_def)
  with l show ?thesis by (simp add: server_inv_def end_simps)
qed

lemma end_estate: "estate ({#}, {#}) (ledger (trace end_world)) end_ctl end_world tiny_pool"
proof -
  have "foreign end_ctl end_world 4"
    by (simp add: foreign_def regions_of_def end_simps) (simp add: shape_def end_world_def heap_get_def tiny_client_def)
  moreover have "mrp end_world 1 = {#tiny_mr#}" "fp end_world 1 = {#(0x5000, 0x1000)#}"
    by (simp_all add: mrp_def fp_def end_world_def heap_get_def wrap_region_def) (simp add: tiny_mr_def)
  ultimately show ?thesis using end_shape(2) [of 4] by (simp add: estate_def end_simps)
qed

theorem controller_ends_witness:
  "\<exists>k' w'. destroy_controller tiny_env (end_ctl, end_world) = Some (Ok (), (k', w')) \<and> clients k' = [] \<and>
    heap_live (client_objs w') = {} \<and> live_mrs (trace w') = {#} \<and> live_maps (trace w') = {#}"
proof -
  obtain l d where "rdmaListener end_ctl = Some l" "protectionDomain end_ctl = Some d"
    using server_invD(1) [OF end_server] by (auto simp: listening_def)
  from controller_ends [OF tiny_serving end_server end_estate this] show ?thesis by (auto simp: ledger_def)
qed

end
