(* ===== verification/Startup.thy ===== *)
theory Startup
  imports Controller
begin

text \<open>
  The start of the controller: which results \<open>startup\<close> can have, and what is set up when it
  reports success.
\<close>

section \<open>Exceptions with a code\<close>

text \<open>Every \<open>RdmaError\<close> that leaves \<open>m\<close> carries an error code.\<close>

definition coded :: "('s, 'a) M \<Rightarrow> bool" where
  "coded m \<longleftrightarrow> (\<forall>s e t. m s = Some (Throw e, t) \<longrightarrow> errcode e \<noteq> 0)"

named_theorems coded_rules "exceptions carry a code"

lemma coded_basic [coded_rules]:
  "coded (returnM a)" "coded (faultM q)" "coded (modifyM g)" "coded this_get" "coded (this_mod h)"
  "coded (ext_int E c)" "coded (ext_ptr E c)" "coded (ext_id E c)" "coded (errno E)" "coded (read_ext f)"
  by (auto simp: coded_def run_simps this_get_def this_mod_def)

lemma coded_throw [coded_rules]: "n \<noteq> 0 \<Longrightarrow> coded (throwM (RdmaError n msg))"
  by (simp add: coded_def RdmaError_def)

lemma coded_bind [coded_rules]: "coded m \<Longrightarrow> (\<And>a. coded (f a)) \<Longrightarrow> coded (bindM m f)"
  by (fastforce simp: coded_def bindM_run split: option.splits result.splits prod.splits)

lemma coded_if [coded_rules]: "(b \<Longrightarrow> coded m) \<Longrightarrow> (\<not> b \<Longrightarrow> coded n) \<Longrightarrow> coded (if b then m else n)"
  by simp

lemma coded_when [coded_rules]: "coded m \<Longrightarrow> coded (whenM b m)"
  by (simp add: whenM_def coded_rules)

lemma coded_option [coded_rules]:
  "(x = None \<Longrightarrow> coded m) \<Longrightarrow> (\<And>a. x = Some a \<Longrightarrow> coded (f a)) \<Longrightarrow> coded (case x of None \<Rightarrow> m | Some a \<Rightarrow> f a)"
  by (cases x) simp_all

lemma coded_world [coded_rules]: "coded m \<Longrightarrow> coded (on_world m)"
  by (auto simp: coded_def on_world_def)

lemma coded_construct [coded_rules]: "coded m \<Longrightarrow> coded (construct ob m)"
  by (fastforce simp: coded_def construct_run split: option.splits result.splits prod.splits)

lemma coded_listener [coded_rules]: "coded m \<Longrightarrow> coded (on_listener m)"
  by (fastforce simp: coded_def on_listener_def split: option.splits prod.splits)

lemma coded_errno [coded_rules]:
  "errno_set E \<Longrightarrow> coded (bindM (on_world (errno E)) (\<lambda>e. throwM (RdmaError e msg)))"
  by (auto simp: coded_def bindM_run on_world_def RdmaError_def errno_set_ne)

lemma coded_device: "errno_set E \<Longrightarrow> coded (RdmaDevice E name interface)"
proof -
  assume e: "errno_set E"
  have "coded (find_interface ifs n)" for ifs n
  proof (induction ifs)
    case (Cons x ifs)
    then show ?case by (cases x) (auto simp: coded_def split: option.splits if_splits)
  qed (simp add: coded_def)
  moreover have "coded (ext_devices E)" by (auto simp: coded_def ext_devices_def ext_defs)
  ultimately show ?thesis using e
    by (auto simp: RdmaDevice_def open_interface_def errno_defs split: option.split intro!: coded_rules)
qed

lemma coded_destroy: "coded (destroy_connection E)"
  by (auto simp: destroy_connection_def destroy_base_def intro!: coded_rules)

lemma coded_createId: "coded (createId E)"
  by (auto simp: createId_def errno_defs split: prod.split intro!: coded_rules)

lemma coded_server: "coded (RdmaServer E addr p)"
  by (auto simp: RdmaServer_def RdmaConnection_id_def init_def bind_server_def Let_def
      intro!: coded_rules coded_destroy coded_createId)

lemma coded_domain: "coded (RdmaProtectionDomain E ctx)"
  by (auto simp: RdmaProtectionDomain_def errno_defs intro!: coded_rules)

lemma coded_channel: "coded (RdmaCompletionChannel E ctx False n)"
  unfolding RdmaCompletionChannel_def whenM_def if_False by (auto simp: errno_defs intro!: coded_rules)

section \<open>What is set up\<close>

text \<open>\<open>keeps P m\<close>: a property of the controller that \<open>m\<close> does not destroy.\<close>

definition keeps :: "('c \<Rightarrow> bool) \<Rightarrow> ('c \<times> 'w, 'a) M \<Rightarrow> bool" where
  "keeps P m \<longleftrightarrow> (\<forall>s r t. P (fst s) \<longrightarrow> m s = Some (r, t) \<longrightarrow> P (fst t))"

lemma keepsD: "keeps P m \<Longrightarrow> m s = Some (r, t) \<Longrightarrow> P (fst s) \<Longrightarrow> P (fst t)"
  unfolding keeps_def by blast

named_theorems keeps_rules "properties of the controller that survive"

lemma keeps_basic [keeps_rules]: "keeps P (returnM a)" "keeps P this_get" "keeps P (on_world m)"
    "(\<And>k. P k \<Longrightarrow> P (g k)) \<Longrightarrow> keeps P (this_mod g)"
  by (auto simp: keeps_def on_world_def)

lemma keeps_domain [keeps_rules]: "keeps P the_domain"
  by (auto simp: keeps_def the_domain_def run_simps split: option.splits)

lemma keeps_bind [keeps_rules]:
  assumes "keeps P m" and "\<And>a. keeps P (f a)"
  shows "keeps P (bindM m f)"
  unfolding keeps_def
proof (intro allI impI)
  fix s r t assume P: "P (fst s)" and run: "bindM m f s = Some (r, t)"
  then obtain r1 u where m: "m s = Some (r1, u)" by (auto simp: bindM_run split: option.splits)
  from keepsD [OF assms(1) m P] have "P (fst u)" .
  with m run keepsD [OF assms(2)] show "P (fst t)" by (cases r1) (auto simp: bindM_run)
qed

lemma keeps_if [keeps_rules]: "keeps P m \<Longrightarrow> keeps P n \<Longrightarrow> keeps P (if b then m else n)"
  by simp

lemma keeps_when [keeps_rules]: "keeps P m \<Longrightarrow> keeps P (whenM b m)"
  unfolding whenM_def by (intro keeps_if keeps_basic(1))

lemma keeps_listener [keeps_rules]:
  "(\<And>k l. P k \<Longrightarrow> rdmaListener k \<noteq> None \<Longrightarrow> P (k\<lparr>rdmaListener := Some l\<rparr>)) \<Longrightarrow> keeps P (on_listener m)"
  by (auto simp: keeps_def on_listener_def split: option.splits)

lemma keeps_or_return [keeps_rules]:
  assumes "keeps P m" and "keeps P rest"
  shows "keeps P (or_return m rest)"
  unfolding keeps_def
proof (intro allI impI)
  fix s r t assume P: "P (fst s)" and run: "or_return m rest s = Some (r, t)"
  then obtain r1 u where m: "m s = Some (r1, u)"
    by (auto simp: or_return_def bindM_run catchM_run split: option.splits)
  from keepsD [OF assms(1) m P] have "P (fst u)" .
  with m run keepsD [OF assms(2)] show "P (fst t)" by (cases r1) (auto simp: or_return_def bindM_run catchM_run)
qed

lemma or_return_0:
  assumes "or_return m rest s = Some (Ok 0, t)" and "coded m"
  shows "\<exists>u. m s = Some (Ok (), u) \<and> rest u = Some (Ok 0, t)"
proof (cases "m s")
  case None
  with assms(1) show ?thesis by (simp add: or_return_def bindM_run catchM_run)
next
  case (Some x)
  then obtain r u where m: "m s = Some (r, u)" by (cases x) auto
  with assms show ?thesis
    by (cases r) (auto simp: or_return_def bindM_run catchM_run coded_def)
qed

lemma on_listener_there: "on_listener m s = Some (Ok a, t) \<Longrightarrow> rdmaListener (fst t) \<noteq> None"
  by (auto simp: on_listener_def split: option.splits prod.splits)

lemma create_listener_sets:
  assumes "create_listener E addr s = Some (Ok (), t)"
  shows "rdmaListener (fst t) \<noteq> None"
proof -
  let ?P = "\<lambda>k. rdmaListener k \<noteq> None"
  let ?last = "\<lambda>p. bindM this_get (\<lambda>k. if uint p \<noteq> ctl_port k
      then bindM (on_listener (getLocalPort E)) (\<lambda>p. this_mod (\<lambda>k. k\<lparr>ctl_port := uint p\<rparr>)) else returnM ())"
  obtain u where "bindM (on_listener (getLocalPort E)) ?last u = Some (Ok (), t)"
    by (rule bindM_OkE [OF assms [unfolded create_listener_def]], erule bindM_OkE, rule that)
  then obtain p v where g: "on_listener (getLocalPort E) u = Some (Ok p, v)" and e: "?last p v = Some (Ok (), t)"
    by (rule bindM_OkE)
  have "keeps ?P (?last p)" by (auto intro!: keeps_rules)
  from keepsD [OF this e] on_listener_there [OF g] show ?thesis by simp
qed

lemma make_domain_sets: "make_domain E s = Some (Ok (), t) \<Longrightarrow> protectionDomain (fst t) \<noteq> None"
  unfolding make_domain_def by (elim bindM_OkE) (auto simp: this_mod_def)

lemma make_channel_sets: "make_channel E s = Some (Ok (), t) \<Longrightarrow> ctl_channel (fst t) \<noteq> None"
  unfolding make_channel_def by (elim bindM_OkE) (auto simp: this_mod_def)

lemma make_pool_sets: "make_pool E d s = Some (Ok (), t) \<Longrightarrow> ctl_pool (fst t) \<noteq> 0"
  unfolding make_pool_def by (elim bindM_OkE) (auto simp: this_mod_def)

lemma coded_steps:
  "coded (create_listener E addr)" "coded (make_domain E)" "coded (make_channel E)"
  by (auto simp: create_listener_def slurm_rank_def new_listener_def getLocalPort_def make_domain_def make_channel_def
      getContext_def intro!: coded_rules coded_server coded_domain coded_channel)

definition services :: "'w controller \<Rightarrow> bool" where
  "services k \<longleftrightarrow> rdmaListener k \<noteq> None \<and> protectionDomain k \<noteq> None \<and> ctl_channel k \<noteq> None \<and>
     ctl_pool k \<noteq> 0 \<and> largeRegion k \<noteq> 0"

text \<open>The steps of \<open>start_services\<close> when it reports success; the last is \<open>open_service\<close>.\<close>

definition open_service :: "env \<Rightarrow> bool \<Rightarrow> u64 \<Rightarrow> ('a, int) ctl" where
  "open_service E shared_queue domain =
     thenM (whenM shared_queue (bindM (on_listener (create_srq E domain)) (\<lambda>_. returnM ())))
    (bindM (on_listener (listen E 256)) (\<lambda>err.
     if err \<noteq> 0 then returnM err
     else bindM (on_world (new_region empty_region)) (\<lambda>p.
       thenM (this_mod (\<lambda>k. k\<lparr>largeRegion := p\<rparr>))
      (bindM (on_world (on_region p (allocate E domain LargeRegionSize))) (\<lambda>err.
       if err \<noteq> 0 then returnM err else returnM 0)))))"

lemma start_services_steps:
  assumes "start_services E shared_queue addr (k, w) = Some (Ok 0, t)"
  obtains u2 u3 u4 domain u5 u6 where
    "create_listener E addr (k\<lparr>localAddr := addr, localAddrString := butlast (ipaddress addr)\<rparr>, w) = Some (Ok (), u2)"
    "make_domain E u2 = Some (Ok (), u3)" "make_channel E u3 = Some (Ok (), u4)"
    "the_domain u4 = Some (Ok domain, u5)" "make_pool E domain u5 = Some (Ok (), u6)"
    "open_service E shared_queue domain u6 = Some (Ok 0, t)"
proof -
  let ?rest = "bindM the_domain (\<lambda>domain. thenM (make_pool E domain) (open_service E shared_queue domain))"
  from assms have "or_return (create_listener E addr) (or_return (make_domain E) (or_return (make_channel E) ?rest))
      (k\<lparr>localAddr := addr, localAddrString := butlast (ipaddress addr)\<rparr>, w) = Some (Ok 0, t)"
    by (simp add: start_services_def open_service_def)
  from or_return_0 [OF this coded_steps(1)] obtain u2 where
    c: "create_listener E addr (k\<lparr>localAddr := addr, localAddrString := butlast (ipaddress addr)\<rparr>, w) = Some (Ok (), u2)"
    and run2: "or_return (make_domain E) (or_return (make_channel E) ?rest) u2 = Some (Ok 0, t)" by blast
  from or_return_0 [OF run2 coded_steps(2)] obtain u3 where
    d: "make_domain E u2 = Some (Ok (), u3)" and run3: "or_return (make_channel E) ?rest u3 = Some (Ok 0, t)" by blast
  from or_return_0 [OF run3 coded_steps(3)] obtain u4 where
    ch: "make_channel E u3 = Some (Ok (), u4)" and run4: "?rest u4 = Some (Ok 0, t)" by blast
  from bindM_OkE [OF run4] obtain domain u5 where dom: "the_domain u4 = Some (Ok domain, u5)"
    and run5: "thenM (make_pool E domain) (open_service E shared_queue domain) u5 = Some (Ok 0, t)" .
  from bindM_OkE [OF run5] obtain u6 where "make_pool E domain u5 = Some (Ok (), u6)"
    "open_service E shared_queue domain u6 = Some (Ok 0, t)" by (metis (full_types) unit.exhaust)
  with that [OF c d ch dom] show thesis by blast
qed

lemma start_services_ok:
  assumes "start_services E shared_queue addr s = Some (Ok 0, t)"
  shows "services (fst t)"
proof -
  let ?L = "\<lambda>k :: 'a cworld_scheme controller. rdmaListener k \<noteq> None"
  let ?D = "\<lambda>k :: 'a cworld_scheme controller. rdmaListener k \<noteq> None \<and> protectionDomain k \<noteq> None"
  let ?C = "\<lambda>k :: 'a cworld_scheme controller. rdmaListener k \<noteq> None \<and> protectionDomain k \<noteq> None \<and> ctl_channel k \<noteq> None"
  from start_services_steps [of E shared_queue addr "fst s" "snd s" t] assms obtain u1 u2 u3 u4 domain u5 u6 where
    c: "create_listener E addr u1 = Some (Ok (), u2)" and d: "make_domain E u2 = Some (Ok (), u3)"
    and ch: "make_channel E u3 = Some (Ok (), u4)" and dom: "the_domain u4 = Some (Ok domain, u5)"
    and mk: "make_pool E domain u5 = Some (Ok (), u6)" and run5: "open_service E shared_queue domain u6 = Some (Ok 0, t)"
    by (metis prod.collapse)
  have "keeps ?L (make_domain E)" by (auto simp: make_domain_def intro!: keeps_rules)
  from keepsD [OF this d create_listener_sets [OF c]] make_domain_sets [OF d] have D: "?D (fst u3)" by blast
  have "keeps ?D (make_channel E)" by (auto simp: make_channel_def intro!: keeps_rules)
  from keepsD [OF this ch D] make_channel_sets [OF ch] have C: "?C (fst u4)" by blast
  have "keeps ?C (make_pool E domain)" by (auto simp: make_pool_def intro!: keeps_rules)
  moreover have "?C (fst u5)" using dom C by (rule keepsD [OF keeps_domain [of ?C]])
  ultimately have C6: "?C (fst u6)" using mk keepsD [of ?C] by blast
  let ?P = "\<lambda>k :: 'a cworld_scheme controller. ?C k \<and> ctl_pool k \<noteq> 0"
  have P6: "?P (fst u6)" using C6 make_pool_sets [OF mk] by blast
  have "keeps ?P (open_service E shared_queue domain)" by (auto simp: open_service_def intro!: keeps_rules)
  from keepsD [OF this run5 P6] have "?P (fst t)" .
  moreover have "largeRegion (fst t) \<noteq> 0"
    using run5 by (auto elim!: bindM_OkE simp: open_service_def on_world_def this_mod_def split: if_splits)
  ultimately show ?thesis by (simp add: services_def)
qed

text \<open>The device is there for the time of the call only.\<close>

lemma startup_steps:
  assumes "startup E shared_queue (k, w) = Some (Ok 0, (k', w'))" and "errno_set E"
  obtains d w1 addr w2 w3 where
    "RdmaDevice E (ctl_device k) (ctl_interface k) w = Some (Ok d, w1)"
    "with_local d device_address w1 = Some (Ok addr, w2)"
    "start_services E shared_queue addr (k, w2) = Some (Ok 0, (k', w3))"
    "with_local d (destroy_device E) w3 = Some (Ok (), w')"
proof (cases "RdmaDevice E (ctl_device k) (ctl_interface k) w")
  case None
  with assms(1) show ?thesis by (simp add: startup_def bindM_run catchM_run)
next
  case (Some x)
  then obtain r w1 where dev: "RdmaDevice E (ctl_device k) (ctl_interface k) w = Some (r, w1)" by (cases x) auto
  show ?thesis
  proof (cases r)
    case (Ok d)
    from assms(1) dev Ok have "finallyM (bindM (on_world (with_local d device_address)) (start_services E shared_queue))
        (on_world (with_local d (destroy_device E))) (k, w1) = Some (Ok 0, (k', w'))"
      by (simp add: startup_def bindM_run catchM_run)
    then obtain s where s: "bindM (on_world (with_local d device_address)) (start_services E shared_queue) (k, w1) = Some (Ok 0, s)"
      and fin: "thenM (on_world (with_local d (destroy_device E))) (returnM 0) s = Some (Ok 0, (k', w'))"
      by (auto simp: finallyM_def catchM_run bindM_run split: option.splits result.splits prod.splits)
    from fin obtain w3 where "s = (k', w3)" "with_local d (destroy_device E) w3 = Some (Ok (), w')"
      by (cases s) (auto elim!: bindM_OkE simp: on_world_run split: option.splits)
    moreover from s this(1) obtain addr w2 where "with_local d device_address w1 = Some (Ok addr, w2)"
      "start_services E shared_queue addr (k, w2) = Some (Ok 0, (k', w3))"
      by (auto elim!: bindM_OkE simp: on_world_run split: option.splits)
    ultimately show thesis using that dev Ok by blast
  next
    case (Throw e)
    with assms dev coded_device [OF assms(2), of "ctl_device k" "ctl_interface k"] show ?thesis
      by (auto simp: startup_def bindM_run catchM_run coded_def)
  next
    case (Fault q)
    with assms(1) dev show ?thesis by (simp add: startup_def bindM_run catchM_run)
  qed
qed

text \<open>When \<open>startup\<close> reports success, everything a controller needs is there: the listener,
  the protection domain, the completion channel, the memory pool and the large region.  No
  exception of the constructors is reported as success.\<close>

theorem startup_success:
  assumes "startup E shared_queue (k, w) = Some (Ok 0, (k', w'))" and "errno_set E"
  shows "services k'"
  using startup_steps [OF assms] start_services_ok by (metis fst_conv)

text \<open>A host with one device, on which every call succeeds; \<open>startup\<close> on it, step by step.\<close>

definition friendly :: "env \<Rightarrow> bool" where
  "friendly E \<longleftrightarrow> good_env E 200 \<and> (\<forall>t c. rc_of E t c = 0) \<and> (\<forall>t c. ptr_of E t c \<noteq> 0) \<and> (\<forall>t i. verbs_of E t i \<noteq> 0) \<and>
     (\<forall>t c. id_of E t c = (0, 8192)) \<and> (\<forall>t. devices_of E t = Some [(1, ''mlx4'')]) \<and> (\<forall>s. getenv_of E s = None)"

lemma friendlyD:
  assumes "friendly E"
  shows "good_env E 200" "rc_of E t c = 0" "ptr_of E t c \<noteq> 0" "verbs_of E t i \<noteq> 0" "id_of E t c = (0, 8192)"
    "devices_of E t = Some [(1, ''mlx4'')]" "getenv_of E s = None"
  using assms by (simp_all add: friendly_def)

definition k_host :: "cworld controller" where
  "k_host = RdmaController ''mlx4'' [] 7910"

lemma host_device_run:
  assumes "friendly E"
  shows "\<exists>d. RdmaDevice E ''mlx4'' [] init_cworld = Some (Ok d, init_cworld\<lparr>trace := [(Dev Ibv_get_device_list, R_ptr 1)]\<rparr>) \<and>
     (\<forall>w. device_address (d, w) = Some (Ok 0, (d, w)))"
  using friendlyD [OF assms] by (simp add: RdmaDevice_def construct_run run_simps blank_device_def device_address_def)

text \<open>The first process: it binds the port it was given and writes it to the file.\<close>

lemma host_server:
  assumes "friendly E"
  shows "\<exists>l w'. RdmaServer E 0 7910 w = Some (Ok l, w') \<and> sin_port (localAddress l) = 7910 \<and> cmId l = 8192 \<and>
     eventChannel l \<noteq> 0 \<and> live_maps (trace w') = live_maps (trace w)"
  using friendlyD [OF assms] by (simp add: RdmaServer_def RdmaConnection_id_def init_def createId_def bind_server_def
      construct_run run_simps Let_def)

lemma host_listener:
  assumes "friendly E" and "ctl_port k = 7910"
  shows "\<exists>l w'. create_listener E 0 (k, w) = Some (Ok (), (k\<lparr>rdmaListener := Some l\<rparr>, w')) \<and> cmId l = 8192 \<and>
    eventChannel l \<noteq> 0 \<and> live_maps (trace w') = live_maps (trace w)"
proof -
  let ?w = "w\<lparr>trace := (Host (Getenv ''SLURM_PROCID''), R_int 0) # trace w\<rparr>"
  obtain l w1 where l: "RdmaServer E 0 7910 ?w = Some (Ok l, w1)" "sin_port (localAddress l) = 7910" "cmId l = 8192"
    "eventChannel l \<noteq> 0" "live_maps (trace w1) = live_maps (trace ?w)" using host_server [OF assms(1)] by blast
  then show ?thesis using assms(2) friendlyD(2,7) [OF assms(1)] by (intro exI [of _ l])
      (simp add: create_listener_def slurm_rank_def new_listener_def getLocalPort_def on_listener_def run_simps)
qed

lemma listener_context:
  assumes "rdmaListener k = Some l"
  shows "on_listener (getContext E) (k, w) = Some (Ok (verbs_of E (trace w) (cmId l)), (k, w))"
  using assms by (cases k) (simp add: on_listener_run getContext_def run_simps)

lemma host_domain:
  assumes "friendly E" and "rdmaListener k = Some l"
  shows "\<exists>pd w'. make_domain E (k, w) = Some (Ok (), (k\<lparr>protectionDomain := Some pd\<rparr>, w')) \<and>
    live_maps (trace w') = live_maps (trace w)"
  using listener_context [OF assms(2), of E w] friendlyD(3,4) [OF assms(1)]
  by (simp add: make_domain_def RdmaProtectionDomain_def run_simps) blast

lemma host_channel:
  assumes "friendly E" and "rdmaListener k = Some l"
  shows "\<exists>ch w'. make_channel E (k, w) = Some (Ok (), (k\<lparr>ctl_channel := Some ch\<rparr>, w')) \<and>
    live_maps (trace w') = live_maps (trace w)"
  using listener_context [OF assms(2), of E w] friendlyD(3,4) [OF assms(1)]
  by (simp add: make_channel_def RdmaCompletionChannel_def construct_run run_simps) blast

lemma size_fps: "\<forall>p \<in> set ps. \<exists>n. block_at n p mp w \<Longrightarrow> size (fps w ps) = length ps"
  by (induction ps) (auto simp: fp_def block_at_def)

lemma full_pool_size:
  assumes "mp_inv (mp, w)" and "\<forall>c. length (free_list (container c mp)) = count_of c \<and> outstanding (container c mp) = {}"
  shows "size (fps w (all_blocks mp)) = 84"
proof -
  have "length (block_list (container c mp)) = count_of c" for c
  proof -
    have "lists_ok (container c mp)" using mp_invD(1) [OF assms(1), of c] by (simp add: pool_inv_def)
    with card_outstanding [OF this] lists_ok_lengths [OF this] assms(2) show ?thesis by simp
  qed
  note len = this [of Small] this [of Medium] this [of Large]
  have "\<forall>p \<in> set (all_blocks mp). \<exists>n. block_at n p mp w" using mp_invD(3) [OF assms(1)] set_all_blocks by blast
  from size_fps [OF this] len show ?thesis by (simp add: all_blocks_def)
qed

lemma host_pool:
  fixes w :: "'a cworld_scheme"
  assumes "friendly E" and "live_maps (trace w) = {#}"
  shows "\<exists>p w'. make_pool E pd (k, w) = Some (Ok (), (k\<lparr>ctl_pool := p\<rparr>, w')) \<and> p \<noteq> 0 \<and> size (live_maps (trace w')) = 84"
proof -
  from assms(2) have "size (live_maps (trace w)) + 100 \<le> 200" by simp
  from pool_constructor' [OF friendlyD(1) [OF assms(1)] this] obtain mp w1 where
    mp: "RdmaMemoryPool E pd 0x1000 32 64 w = Some (Ok mp, w1)" "mp_inv (mp, w1)"
      "\<forall>c. length (free_list (container c mp)) = count_of c \<and> outstanding (container c mp) = {}"
      "live_maps (trace w1) = live_maps (trace w) + fps w1 (all_blocks mp)" by blast
  from full_pool_size [OF mp(2,3)] show ?thesis using mp(1,4) assms(2) by (intro exI [of _ "Suc (length (pools w1))"])
      (simp add: make_pool_def share_def run_simps)
qed

lemma host_startup:
  assumes "friendly E"
  shows "\<exists>k' w' l. startup E False (k_host, init_cworld) = Some (Ok 0, (k', w')) \<and> rdmaListener k' = Some l \<and> eventChannel l \<noteq> 0"
proof -
  let ?w1 = "init_cworld\<lparr>trace := [(Dev Ibv_get_device_list, R_ptr 1)]\<rparr>"
  let ?k1 = "k_host\<lparr>localAddr := 0, localAddrString := butlast (ipaddress 0)\<rparr>"
  obtain d where d: "RdmaDevice E ''mlx4'' [] init_cworld = Some (Ok d, ?w1)"
    "\<And>w :: cworld. device_address (d, w) = Some (Ok 0, (d, w))" using host_device_run [OF assms] by blast
  have "ctl_port ?k1 = 7910" by (simp add: k_host_def RdmaController_def)
  from host_listener [OF assms this, of ?w1] obtain l w2 where
    l: "create_listener E 0 (?k1, ?w1) = Some (Ok (), (?k1\<lparr>rdmaListener := Some l\<rparr>, w2))" "cmId l = 8192"
      "eventChannel l \<noteq> 0" "live_maps (trace w2) = {#}" by auto
  let ?k2 = "?k1\<lparr>rdmaListener := Some l\<rparr>"
  from host_domain [OF assms, of ?k2 l w2] l(4) obtain pd w3 where
    pd: "make_domain E (?k2, w2) = Some (Ok (), (?k2\<lparr>protectionDomain := Some pd\<rparr>, w3))"
      "live_maps (trace w3) = {#}" by auto
  let ?k3 = "?k2\<lparr>protectionDomain := Some pd\<rparr>"
  from host_channel [OF assms, of ?k3 l w3] pd(2) obtain ch w4 where
    ch: "make_channel E (?k3, w3) = Some (Ok (), (?k3\<lparr>ctl_channel := Some ch\<rparr>, w4))"
      "live_maps (trace w4) = {#}" by auto
  let ?k4 = "?k3\<lparr>ctl_channel := Some ch\<rparr>"
  from host_pool [OF assms ch(2), of "pd_ptr pd" ?k4] obtain p w5 where
    p: "make_pool E (pd_ptr pd) (?k4, w4) = Some (Ok (), (?k4\<lparr>ctl_pool := p\<rparr>, w5))"
      "size (live_maps (trace w5)) = 84" by blast
  let ?k5 = "?k4\<lparr>ctl_pool := p\<rparr>"
  let ?w6 = "w5\<lparr>trace := (Conn (Rdma_listen 8192 256), R_int 0) # trace w5, regions := heap_new empty_region (regions w5)\<rparr>"
  have "size (live_maps (trace ?w6)) + 16 \<le> 200" using p(2) by simp
  from allocate_good [OF friendlyD(1) [OF assms] this, of "pd_ptr pd" LargeRegionSize empty_region] obtain r w7 where
    al: "allocate E (pd_ptr pd) LargeRegionSize (empty_region, ?w6) = Some (Ok 0, (r, w7))" by blast
  have "\<exists>s. start_services E False 0 (k_host, ?w1) = Some (Ok 0, s) \<and> rdmaListener (fst s) = Some l"
    using l(1,2) pd(1) ch(1) p(1) al friendlyD(2) [OF assms]
    by (simp add: start_services_def or_return_def catchM_run the_domain_def on_listener_run listen_def run_simps
        on_heap_run heap_get_new)
  then obtain k8 w8 where s: "start_services E False 0 (k_host, ?w1) = Some (Ok 0, (k8, w8))" "rdmaListener k8 = Some l" by auto
  have "\<exists>w9. with_local d (destroy_device E) w8 = Some (Ok (), w9)"
    by (simp add: with_local_def destroy_device_def run_simps)
  then obtain w9 where w9: "with_local d (destroy_device E) w8 = Some (Ok (), w9)" by blast
  have "ctl_device k_host = ''mlx4''" "ctl_interface k_host = []" by (simp_all add: k_host_def RdmaController_def)
  then have "startup E False (k_host, init_cworld) = Some (Ok 0, (k8, w9))"
    using d s(1) w9 by (simp add: startup_def catchM_run finallyM_def with_local_def)
  then show ?thesis using s(2) l(3) by blast
qed

definition env_host :: env where
  "env_host = env_fresh\<lparr>devices_of := (\<lambda>t. Some [(1, ''mlx4'')])\<rparr>"

lemma first_free_nonzero: "first_free t \<noteq> 0"
proof (cases "find (\<lambda>a. a \<notin> fst ` set_mset (live_maps t)) (map of_nat [1..<201]) :: u64 option")
  case None
  then show ?thesis by (simp add: first_free_def MAP_FAILED_def)
next
  case (Some a)
  from find_Some_prop [OF this] obtain n :: nat where n: "a = of_nat n" "n \<in> set [1..<201]" by auto
  then have "unat a = n" by (simp add: unsigned_of_nat take_bit_nat_eq_self)
  with n Some show ?thesis by (auto simp: first_free_def)
qed

lemma env_host_friendly: "friendly env_host"
proof -
  have "good_env env_host 200"
    using env_fresh_good
    by (simp add: env_host_def good_env_def honest_reg_def dereg_ok_def errno_set_def fresh_mmap_def ample_mem_def reg_ok_def)
  then show ?thesis by (simp add: friendly_def first_free_nonzero) (simp add: env_host_def env_fresh_def first_free_nonzero)
qed

theorem startup_success_witness:
  "\<exists>k' w'. startup env_host False (k_host, init_cworld) = Some (Ok 0, (k', w')) \<and> services k'"
proof -
  obtain k' w' where "startup env_host False (k_host, init_cworld) = Some (Ok 0, (k', w'))"
    using host_startup [OF env_host_friendly] by blast
  moreover have "errno_set env_host" using env_host_friendly by (simp add: friendly_def good_env_def)
  ultimately show ?thesis using startup_success by blast
qed

end
