(* ===== verification/WholeLife.thy ===== *)
theory WholeLife
  imports ServerEnd Startup
begin

text \<open>
  The whole life of a server: \<open>startup\<close>, the event loop for as long as it is wanted, and the
  destructor of the controller.
\<close>

section \<open>What the start does not touch\<close>

text \<open>The object a program runs on.\<close>

definition own :: "'o \<times> 'w \<Rightarrow> 'o" where
  "own s = fst s"

lemma own_pair [simp]: "own (ob, w) = ob"
  by (simp add: own_def)

lemma within_own [within_rules]:
  assumes "step_rel R"
  shows "within R own this_get" "(\<And>ob. R ob (g ob)) \<Longrightarrow> within R own (this_mod g)" "within R own (on_world m)"
  using assms by (auto simp: within_def own_def step_rel_def reflp_def this_get_def this_mod_def on_world_def)

text \<open>The server has no shared receive queue.\<close>

definition same_srq :: "connection \<Rightarrow> connection \<Rightarrow> bool" where
  "same_srq c c' \<longleftrightarrow> srq c' = srq c"

lemma same_srq_rel [simp]: "step_rel same_srq"
  by (auto simp: step_rel_def same_srq_def reflp_def transp_def)

lemma srq_server: "RdmaServer E addr p w = Some (Ok l, w') \<Longrightarrow> srq l = 0"
proof -
  assume run: "RdmaServer E addr p w = Some (Ok l, w')"
  have "within same_srq own (thenM (RdmaConnection_id E)
     (thenM (this_mod (\<lambda>c. c\<lparr>tag := ''[CM '' @ dec_int (uint p) @ ''] ''\<rparr>))
     (bindM (bind_server E addr p) (\<lambda>err.
      if err \<noteq> 0 then thenM (destroy_connection E) (throwM (RdmaError err ''bind() failed'')) else returnM ()))))"
    by (auto simp: RdmaConnection_id_def init_def createId_def bind_server_def Let_def destroy_connection_def
        destroy_base_def same_srq_def intro!: within_rules)
  from withinD [OF this, of "(blank_connection, w)"] run have "same_srq blank_connection l"
    unfolding RdmaServer_def construct_run by (auto split: option.splits result.splits prod.splits)
  then show ?thesis by (simp add: same_srq_def blank_connection_def)
qed

text \<open>What the later steps of the start leave as it is in the controller.\<close>

definition srq_free :: "'w controller \<Rightarrow> bool" where
  "srq_free k \<longleftrightarrow> (\<forall>l. rdmaListener k = Some l \<longrightarrow> srq l = 0)"

definition ctl_step :: "'w controller \<Rightarrow> 'w controller \<Rightarrow> bool" where
  "ctl_step k k' \<longleftrightarrow> clients k' = clients k \<and> preConnectionFunction k' = preConnectionFunction k \<and>
     connectionFunction k' = connectionFunction k \<and> event_poll_count k' = event_poll_count k \<and>
     (srq_free k \<longrightarrow> srq_free k')"

lemma ctl_step_rel [simp]: "step_rel ctl_step"
  by (auto simp: step_rel_def ctl_step_def reflp_def transp_def)

lemma ctl_step_pointers: "ctl_step k (k\<lparr>largeRegion := p\<rparr>)" "ctl_step k (k\<lparr>ctl_pool := p\<rparr>)"
  by (simp_all add: ctl_step_def srq_free_def)

lemma ctl_listener [within_rules]: "within same_srq own m \<Longrightarrow> within ctl_step own (on_listener m)"
proof -
  assume m: "within same_srq own m"
  have "ctl_step k k'" if run: "on_listener m (k, w) = Some (r, (k', w'))" for k k' w w' r
  proof (cases "rdmaListener k")
    case None
    with run have "k' = k" by (simp add: on_listener_def)
    then show ?thesis by (simp add: ctl_step_def)
  next
    case (Some l)
    with run obtain l' where "m (l, w) = Some (r, (l', w'))" "k' = k\<lparr>rdmaListener := Some l'\<rparr>"
      by (auto simp: on_listener_def split: option.splits)
    with withinD [OF m this(1)] Some show ?thesis by (simp add: ctl_step_def srq_free_def same_srq_def)
  qed
  then show ?thesis by (auto simp: within_def own_def)
qed

lemma ctl_new_listener: "within ctl_step own (new_listener E addr)"
proof -
  have "ctl_step k k'" if run: "new_listener E addr (k, w) = Some (r, (k', w'))" for k k' w w' r
  proof (cases "RdmaServer E addr (of_int (ctl_port k)) w")
    case None
    with run show ?thesis by (simp add: new_listener_def bindM_run)
  next
    case (Some x)
    with run srq_server show ?thesis
      by (cases x; cases "fst x") (auto simp: new_listener_def bindM_run ctl_step_def srq_free_def)
  qed
  then show ?thesis by (auto simp: within_def own_def)
qed

lemma ctl_steps:
  "within ctl_step own (create_listener E addr)" "within ctl_step own (make_domain E)"
  "within ctl_step own (make_channel E)" "within ctl_step own the_domain" "within ctl_step own (make_pool E pd)"
  "within ctl_step own (on_listener (listen E n))"
  by (auto simp: create_listener_def getLocalPort_def make_domain_def make_channel_def getContext_def make_pool_def
      the_domain_def listen_def ctl_step_def srq_free_def same_srq_def intro!: within_rules ctl_new_listener)


text \<open>Nor do they touch what the clients will need.\<close>

lemma host_parts:
  "within host_step (beside self) (destroy_connection E)" "within host_step self (RdmaServer E addr p)"
  "within host_step self (slurm_rank E)" "within host_step (beside self) (getLocalPort E)"
  by (auto simp: destroy_connection_def destroy_base_def RdmaServer_def RdmaConnection_id_def init_def createId_def
      bind_server_def Let_def slurm_rank_def getLocalPort_def intro!: within_rules)

lemma host_device: "within host_step self (RdmaDevice E name interface)"
proof -
  have "within host_step (beside self) (find_interface ifs n)" for ifs n
    by (induction ifs n rule: find_interface.induct) (simp_all only: find_interface.simps,
        (rule within_basic(1) [OF host_step_rel], auto split: option.split intro!: within_rules)+)
  then show ?thesis by (auto simp: RdmaDevice_def open_interface_def intro!: within_rules)
qed

lemma host_steps:
  "within host_step (beside self) (create_listener E addr)" "within host_step (beside self) (make_domain E)"
  "within host_step (beside self) (make_channel E)" "within host_step (beside self) the_domain"
  "within host_step (beside self) (on_listener (listen E n))" "within host_step self (with_local d device_address)"
  "within host_step self (with_local d (destroy_device E))"
  by (auto simp: create_listener_def new_listener_def make_domain_def make_channel_def getContext_def the_domain_def
      listen_def RdmaProtectionDomain_def RdmaCompletionChannel_def setNonBlockMode_def Let_def device_address_def destroy_device_def
      intro!: within_rules host_parts)

section \<open>What the start sets up\<close>

text \<open>The pool, with all its blocks.\<close>

definition new_pool_in :: "'a cworld_scheme \<Rightarrow> memory_pool \<Rightarrow> 'a cworld_scheme \<Rightarrow> bool" where
  "new_pool_in w mp w' \<longleftrightarrow> mp_inv (mp, w') \<and>
     (\<forall>c. length (free_list (container c mp)) = count_of c \<and> outstanding (container c mp) = {}) \<and>
     live_maps (trace w') = live_maps (trace w) + fps w' (all_blocks mp) \<and>
     live_mrs (trace w') = live_mrs (trace w) + mrps w' (all_blocks mp) \<and>
     size (live_maps (trace w')) = size (live_maps (trace w)) + 84 \<and> length (regions w') = length (regions w) + 84 \<and>
     cm_tally (trace w') = cm_tally (trace w) \<and> traffic (trace w') = traffic (trace w)"

lemma make_pool_starts:
  fixes w :: "'a cworld_scheme"
  assumes "good_env E n" and "size (live_maps (trace w)) + 100 \<le> n" and "make_pool E pd (k, w) = Some (Ok (), (k', w'))"
  defines "p \<equiv> Suc (length (pools w))"
  shows "\<exists>mp. k' = k\<lparr>ctl_pool := p\<rparr> \<and> heap_get (pools w') p = Some mp \<and> new_pool_in w mp w' \<and>
    client_objs w' = client_objs w \<and> cqs w' = cqs w \<and> uses w' = (uses w)(Pool_ref p := uses w (Pool_ref p) + 1)"
proof -
  from pool_constructor' [OF assms(1,2)] obtain mp w1 where
    run: "RdmaMemoryPool E pd 0x1000 32 64 w = Some (Ok mp, w1)" and inv: "mp_inv (mp, w1)"
    and f: "\<forall>c. length (free_list (container c mp)) = count_of c \<and> outstanding (container c mp) = {}"
      "live_maps (trace w1) = live_maps (trace w) + fps w1 (all_blocks mp)"
      "live_mrs (trace w1) = live_mrs (trace w) + mrps w1 (all_blocks mp)"
      "length (regions w1) = length (regions w) + 84" by blast
  have m: "mem_step w w1" using withinD [OF mem_within_pool run] by (simp add: self_def)
  note more = more_fields [of w1 w]
  let ?w' = "w1\<lparr>pools := heap_new mp (pools w1), uses := (uses w1)(Pool_ref p := uses w1 (Pool_ref p) + 1)\<rparr>"
  have pools: "pools w1 = pools w" using m more(2) by (simp add: mem_step_def)
  then have w': "k' = k\<lparr>ctl_pool := p\<rparr>" "w' = ?w'"
    using run assms(3) by (simp_all add: make_pool_def share_def run_simps p_def)
  have same: "fps ?w' ps = fps w1 ps" "mrps ?w' ps = mrps w1 ps" for ps
    by (rule fps_cong, simp) (rule mrps_cong, simp)
  have "mp_inv (mp, ?w')" by (rule mp_inv_cong [THEN iffD1, OF _ inv]) simp
  moreover have "size (fps w1 (all_blocks mp)) = 84" using full_pool_size [OF inv f(1)] .
  ultimately have "new_pool_in w mp ?w'"
    using f same m unfolding new_pool_in_def by (simp add: mem_step_def)
  moreover have "heap_get (pools ?w') p = Some mp" using pools by (simp add: heap_get_new p_def)
  ultimately show ?thesis using w' more m by (intro exI [of _ mp]) (simp add: mem_step_def)
qed

text \<open>The large region.\<close>

lemma large_region_starts:
  fixes w :: "'a cworld_scheme"
  assumes "good_env E n" and "size (live_maps (trace w)) + 16 \<le> n"
    and "bindM (on_world (new_region empty_region)) (\<lambda>p. thenM (this_mod (\<lambda>k. k\<lparr>largeRegion := p\<rparr>))
      (bindM (on_world (on_region p (allocate E domain LargeRegionSize))) (\<lambda>err.
       if err \<noteq> 0 then returnM err else returnM 0))) (k, w) = Some (Ok 0, (k', w'))"
  defines "p \<equiv> Suc (length (regions w))"
  shows "k' = k\<lparr>largeRegion := p\<rparr>" "region_ptr_ok w' p" "shape w' p \<noteq> None" "\<forall>q. q \<noteq> p \<longrightarrow> shape w' q = shape w q"
    "live_maps (trace w') = live_maps (trace w) + fp w' p" "live_mrs (trace w') = live_mrs (trace w) + mrp w' p"
    "mem_step w w'"
proof -
  let ?w1 = "w\<lparr>regions := heap_new empty_region (regions w)\<rparr>"
  have "size (live_maps (trace ?w1)) + 16 \<le> n" using assms(2) by simp
  from allocate_good [OF assms(1) this, of domain LargeRegionSize empty_region] obtain r w2 mr where
    al: "allocate E domain LargeRegionSize (empty_region, ?w1) = Some (Ok 0, (r, w2))"
    and r: "region r = Some mr" "mr_length mr = LargeRegionSize" "flags r = flags empty_region"
    and maps: "live_mrs (trace w2) = add_mset mr (live_mrs (trace w))"
      "live_maps (trace w2) = add_mset (mr_addr mr, LargeRegionSize) (live_maps (trace w))" by auto
  from allocate_regions [OF al] have rg: "regions w2 = heap_new empty_region (regions w)" by simp
  let ?w3 = "w2\<lparr>regions := heap_put p r (regions w2)\<rparr>"
  have get: "heap_get (regions ?w3) q = (if q = p then Some r else heap_get (regions w) q)" for q
    using rg by (simp add: p_def heap_get_put heap_get_new)
  have gp: "heap_get (regions ?w1) p = Some empty_region" by (simp add: p_def heap_get_new)
  show "k' = k\<lparr>largeRegion := p\<rparr>" using assms(3) al gp rg by (simp add: run_simps on_heap_run flip: p_def)
  have w': "w' = ?w3" using assms(3) al gp rg by (simp add: run_simps on_heap_run flip: p_def)
  have "tidy r" using r by (simp add: tidy_def empty_region_def LargeRegionSize_def)
  then show "region_ptr_ok w' p" unfolding w' using get by (simp add: region_ptr_ok_def)
  show "shape w' p \<noteq> None" "\<forall>q. q \<noteq> p \<longrightarrow> shape w' q = shape w q" unfolding w' using get by (simp_all add: shape_def)
  show "live_maps (trace w') = live_maps (trace w) + fp w' p" "live_mrs (trace w') = live_mrs (trace w) + mrp w' p"
    unfolding w' using maps get [of p] r by (simp_all add: fp_def mrp_def)
  have "mem_step w ?w1" by (simp add: mem_step_def)
  moreover have "mem_step ?w1 w2" using withinD [OF mem_within_allocate al] by (simp add: beside_def self_def)
  moreover have "mem_step w2 ?w3" by (simp add: mem_step_def)
  ultimately show "mem_step w w'" unfolding w' using step_trans [OF mem_step_rel] by blast
qed

section \<open>A server is started\<close>

text \<open>A world in which no server runs yet, with pointers to spare.\<close>

definition unused :: "'a cworld_scheme \<Rightarrow> bool" where
  "unused w \<longleftrightarrow> heap_live (client_objs w) = {} \<and> heap_live (cqs w) = {} \<and> (\<forall>r. uses w r = 0) \<and>
     recv_queue (trace w) = Map.empty \<and> length (regions w) + 84 < 2 ^ 64"

definition calm_callbacks :: "'a cworld_scheme controller \<Rightarrow> bool" where
  "calm_callbacks k \<longleftrightarrow> (\<forall>f. preConnectionFunction k = Some f \<longrightarrow> calm f) \<and>
     (\<forall>f x p. connectionFunction k = Some f \<longrightarrow> calm (f x p))"

lemma unused_host: "unused w \<Longrightarrow> host_step w w' \<Longrightarrow> unused w'"
  by (simp add: unused_def host_step_def)

lemma shape_bound: "shape w p \<noteq> None \<Longrightarrow> p \<le> length (regions w)"
  by (auto simp: shape_def heap_get_def split: if_splits)

text \<open>Pool and large region over a world without clients: the invariants of a server.\<close>

lemma started_world:
  fixes w :: "'a cworld_scheme"
  assumes "unused w" and "new_pool_in w mp w1" and "client_objs w1 = client_objs w" "cqs w1 = cqs w"
    "uses w1 = (uses w)(Pool_ref pl := uses w (Pool_ref pl) + 1)" "heap_get (pools w1) pl = Some mp"
    and "host_step w1 w2" and "mem_step w2 w3" and "L = Suc (length (regions w2))"
    and "region_ptr_ok w3 L" "shape w3 L \<noteq> None" "\<forall>q. q \<noteq> L \<longrightarrow> shape w3 q = shape w2 q"
    and "live_maps (trace w3) = live_maps (trace w2) + fp w3 L" "live_mrs (trace w3) = live_mrs (trace w2) + mrp w3 L"
    and "ctl_pool k = pl" "clients k = []" "largeRegion k = L" "listening k"
  shows "server_inv E qn (ledger (trace w3)) k w3 mp"
    "estate (live_mrs (trace w), live_maps (trace w)) (ledger (trace w3)) k w3 mp" "flying {} w3 mp"
    "cm_tally (trace w3) = cm_tally (trace w)"
proof -
  note h = assms(7) [unfolded host_step_def] and m = assms(8) [unfolded mem_step_def] and p = assms(2) [unfolded new_pool_in_def]
  from m have f: "client_objs w3 = client_objs w2" "cqs w3 = cqs w2" "pools w3 = pools w2" "uses w3 = uses w2"
    using more_fields [of w3 w2] by blast+
  have sh12: "shape w2 = shape w1" using h by (simp add: shape_def fun_eq_iff)
  have blocks: "shape w1 q \<noteq> None" "q \<noteq> L" if "q \<in> set (all_blocks mp)" for q
  proof -
    show "shape w1 q \<noteq> None" using block_shape [OF _ that] p by blast
    then show "q \<noteq> L" using shape_bound [of w1 q] assms(9) h by auto
  qed
  then have sp: "\<forall>q \<in> set (all_blocks mp). shape w3 q = shape w1 q" using assms(12) sh12 by simp
  have inv: "mp_inv (mp, w3)" by (rule mp_inv_shape [OF _ sp]) (use p in blast)
  have "heap_live (client_objs w3) = {}" "heap_live (cqs w3) = {}"
    using assms(1,3,4) f h by (simp_all add: unused_def)
  moreover have "uses w3 = (\<lambda>r. 0)(Pool_ref pl := 1)" using assms(1,5) f(4) h by (auto simp: unused_def)
  ultimately have "no_garbage pl {} w3" by (simp add: no_garbage_def uses_ok_def)
  moreover have "heap_get (pools w3) pl = Some mp" using assms(6) f(3) h by simp
  ultimately have "clients_inv E qn pl (ledger (trace w3)) {} w3 mp"
    using inv by (simp add: clients_inv_def apart_def books_ok_def)
  then show "server_inv E qn (ledger (trace w3)) k w3 mp"
    using assms(15,16,18) by (simp add: server_inv_def)
  note s = sums_shape [OF sp]
  have led: "live_mrs (trace w2) = live_mrs (trace w1)" "live_maps (trace w2) = live_maps (trace w1)"
    "cm_tally (trace w2) = cm_tally (trace w1)" using h by (simp_all add: ledger_def)
  have "L \<notin> set (all_blocks mp)" using blocks(2) by blast
  then show "estate (live_mrs (trace w), live_maps (trace w)) (ledger (trace w3)) k w3 mp"
    using assms(9-11,13,14,16,17) p led s by (simp add: estate_def foreign_def ledger_def ac_simps)
  have "q < 2 ^ 64" if "q \<in> set (all_blocks mp)" for q
    using shape_bound [OF blocks(1) [OF that]] p assms(1) unfolding unused_def by linarith
  moreover have "recv_queue (trace w3) = Map.empty"
    using assms(1) p h m by (simp add: unused_def traffic_def)
  ultimately show "flying {} w3 mp" by (simp add: flying_def)
  show "cm_tally (trace w3) = cm_tally (trace w)" using m p led by simp
qed

text \<open>What a started server is: \<open>D\<close> is held outside the controller.\<close>

definition started ::
    "env \<Rightarrow> (u64 \<Rightarrow> u32) \<Rightarrow> holdings \<Rightarrow> int \<times> nat \<Rightarrow> 'a cworld_scheme controller \<Rightarrow> 'a cworld_scheme \<Rightarrow> memory_pool \<Rightarrow> bool" where
  "started E qn D cm k w mp \<longleftrightarrow> server_inv E qn (ledger (trace w)) k w mp \<and> estate D (ledger (trace w)) k w mp \<and>
     flying {} w mp \<and> clients k = [] \<and> services k \<and> cm_tally (trace w) = cm \<and>
     abs_server k w mp = \<lparr>posted = Map.empty, free = 64\<rparr>"

lemma on_listener_only:
  assumes "on_listener m (k, w) = Some (r, (k', w'))"
  shows "\<exists>x. k' = k\<lparr>rdmaListener := x\<rparr>"
proof (cases "rdmaListener k")
  case None
  then have "k\<lparr>rdmaListener := None\<rparr> = k" by (cases k) simp
  with assms None show ?thesis by (auto simp: on_listener_def intro: exI [of _ None])
next
  case (Some l)
  with assms show ?thesis by (auto simp: on_listener_def split: option.splits)
qed

lemma open_service_steps:
  assumes "open_service E False domain s = Some (Ok 0, t)"
  obtains u where "on_listener (listen E 256) s = Some (Ok 0, u)"
    "bindM (on_world (new_region empty_region)) (\<lambda>p. thenM (this_mod (\<lambda>k. k\<lparr>largeRegion := p\<rparr>))
      (bindM (on_world (on_region p (allocate E domain LargeRegionSize))) (\<lambda>err.
       if err \<noteq> 0 then returnM err else returnM 0))) u = Some (Ok 0, t)"
proof -
  from assms have "bindM (on_listener (listen E 256)) (\<lambda>err. if err \<noteq> 0 then returnM err
     else bindM (on_world (new_region empty_region)) (\<lambda>p. thenM (this_mod (\<lambda>k. k\<lparr>largeRegion := p\<rparr>))
      (bindM (on_world (on_region p (allocate E domain LargeRegionSize))) (\<lambda>err.
       if err \<noteq> 0 then returnM err else returnM 0)))) s = Some (Ok 0, t)"
    by (simp add: open_service_def whenM_def)
  from bindM_OkE [OF this] obtain err u where "on_listener (listen E 256) s = Some (Ok err, u)"
    "(if err \<noteq> 0 then returnM err
     else bindM (on_world (new_region empty_region)) (\<lambda>p. thenM (this_mod (\<lambda>k. k\<lparr>largeRegion := p\<rparr>))
      (bindM (on_world (on_region p (allocate E domain LargeRegionSize))) (\<lambda>err.
       if err \<noteq> 0 then returnM err else returnM 0)))) u = Some (Ok 0, t)" .
  with that show thesis by (cases "err = 0") simp_all
qed

lemma started_host:
  assumes "started E qn D cm k w mp" and "host_step w w'"
  shows "started E qn D cm k w' mp"
proof -
  note s = assms(1) [unfolded started_def] and h = assms(2) [unfolded host_step_def]
  have sh: "shape w' = shape w" using h by (simp add: shape_def fun_eq_iff)
  have "clients_inv E qn (ctl_pool k) (ledger (trace w)) (set (clients k)) w' mp"
    by (rule clients_inv_transfer [OF server_invD(3)]) (use s h sh in \<open>auto simp: prod_eq_iff\<close>)
  then have "server_inv E qn (ledger (trace w')) k w' mp" using s h by (simp add: server_inv_def)
  moreover have "estate D (ledger (trace w')) k w' mp"
    using s h sums_shape [of _ w' w] shape_cong [of w' _ w] sh by (simp add: estate_def foreign_def)
  moreover have "flying {} w' mp" using s h by (simp add: flying_def)
  moreover have "abs_server k w' mp = abs_server k w mp" using client_of_cong [of w' w] h by (simp add: abs_server_def)
  ultimately show ?thesis using s h by (simp add: started_def ledger_def)
qed

text \<open>The last step: the listener listens, and there is a large region.\<close>

lemma open_service_starts:
  fixes w :: "'a cworld_scheme"
  assumes "good_env E n" and "size (live_maps (trace w)) + 16 \<le> n"
    and "open_service E False domain (k, w) = Some (Ok 0, (k', w'))"
  shows "\<exists>w1. host_step w w1 \<and> ctl_step k k' \<and> ctl_pool k' = ctl_pool k \<and> mem_step w1 w' \<and>
    largeRegion k' = Suc (length (regions w1)) \<and> region_ptr_ok w' (largeRegion k') \<and> shape w' (largeRegion k') \<noteq> None \<and>
    (\<forall>q. q \<noteq> largeRegion k' \<longrightarrow> shape w' q = shape w1 q) \<and>
    live_maps (trace w') = live_maps (trace w1) + fp w' (largeRegion k') \<and>
    live_mrs (trace w') = live_mrs (trace w1) + mrp w' (largeRegion k')"
proof -
  from open_service_steps [OF assms(3)] obtain u where
    u: "on_listener (listen E 256) (k, w) = Some (Ok 0, u)"
      "bindM (on_world (new_region empty_region)) (\<lambda>p. thenM (this_mod (\<lambda>k. k\<lparr>largeRegion := p\<rparr>))
      (bindM (on_world (on_region p (allocate E domain LargeRegionSize))) (\<lambda>err.
       if err \<noteq> 0 then returnM err else returnM 0))) u = Some (Ok 0, (k', w'))" .
  obtain k1 w1 where k1: "u = (k1, w1)" by (cases u)
  note l = u(1) [unfolded k1] and r = u(2) [unfolded k1]
  have h: "host_step w w1" using withinD [OF host_steps(5) l] by (simp add: beside_def self_def)
  then have "live_maps (trace w1) = live_maps (trace w)" by (simp add: host_step_def ledger_def)
  with assms(2) have "size (live_maps (trace w1)) + 16 \<le> n" by simp
  note L = large_region_starts [OF assms(1) this r]
  note k' = L(1)
  have "ctl_pool k1 = ctl_pool k" using on_listener_only [OF l] by auto
  then have cp: "ctl_pool k' = ctl_pool k" and lr: "largeRegion k' = Suc (length (regions w1))" unfolding k' by simp_all
  have "ctl_step k k1" using withinD [OF ctl_steps(6) l] by simp
  then have step: "ctl_step k k'" unfolding k' using step_trans [OF ctl_step_rel _ ctl_step_pointers(1)] by blast
  show ?thesis unfolding lr by (intro exI [of _ w1] conjI refl) (rule h step cp L)+
qed

text \<open>The steps before the pool.\<close>

lemma before_pool:
  assumes "create_listener E addr (k, w) = Some (Ok (), u2)" and "make_domain E u2 = Some (Ok (), u3)"
    and "make_channel E u3 = Some (Ok (), u4)" and "the_domain u4 = Some (Ok domain, (k', w'))"
  shows "host_step w w' \<and> ctl_step k k'"
proof
  show "host_step w w'"
    using withinD [OF host_steps(1) assms(1)] withinD [OF host_steps(2) assms(2)] withinD [OF host_steps(3) assms(3)]
      withinD [OF host_steps(4) assms(4)] step_trans [OF host_step_rel] by (simp add: beside_def self_def) blast
  show "ctl_step k k'"
    using withinD [OF ctl_steps(1) assms(1)] withinD [OF ctl_steps(2) assms(2)] withinD [OF ctl_steps(3) assms(3)]
      withinD [OF ctl_steps(4) assms(4)] step_trans [OF ctl_step_rel] by simp blast
qed

lemma services_started:
  fixes w :: "'a cworld_scheme"
  assumes "good_env E n" and "size (live_maps (trace w)) + 100 \<le> n" and "unused w"
    and "clients k = []" and "rdmaListener k = None" and "calm_callbacks k"
    and run: "start_services E False addr (k, w) = Some (Ok 0, (k', w'))"
  shows "\<exists>mp. started E qn (live_mrs (trace w), live_maps (trace w)) (cm_tally (trace w)) k' w' mp"
proof -
  let ?k1 = "k\<lparr>localAddr := addr, localAddrString := butlast (ipaddress addr)\<rparr>"
  from start_services_steps [OF run] obtain u2 u3 u4 domain k5 w5 k6 w6 where
    u: "create_listener E addr (?k1, w) = Some (Ok (), u2)" "make_domain E u2 = Some (Ok (), u3)"
      "make_channel E u3 = Some (Ok (), u4)" "the_domain u4 = Some (Ok domain, (k5, w5))"
    and mk: "make_pool E domain (k5, w5) = Some (Ok (), (k6, w6))"
    and o: "open_service E False domain (k6, w6) = Some (Ok 0, (k', w'))" by (metis prod.exhaust)
  from before_pool [OF u] have h5: "host_step w w5" and c5: "ctl_step ?k1 k5" by blast+
  from unused_host [OF assms(3) h5] have w5: "unused w5" .
  have same: "live_maps (trace w5) = live_maps (trace w)" "live_mrs (trace w5) = live_mrs (trace w)"
    "cm_tally (trace w5) = cm_tally (trace w)" using h5 by (simp_all add: host_step_def ledger_def)
  from make_pool_starts [OF assms(1) _ mk] assms(2) same(1) obtain mp where
    k6: "k6 = k5\<lparr>ctl_pool := Suc (length (pools w5))\<rparr>" and g: "heap_get (pools w6) (ctl_pool k6) = Some mp"
    and mp: "new_pool_in w5 mp w6" "client_objs w6 = client_objs w5" "cqs w6 = cqs w5"
      "uses w6 = (uses w5)(Pool_ref (ctl_pool k6) := uses w5 (Pool_ref (ctl_pool k6)) + 1)" by auto
  have "size (live_maps (trace w6)) = size (live_maps (trace w5)) + 84" using mp(1) unfolding new_pool_in_def by blast
  with assms(2) same(1) have "size (live_maps (trace w6)) + 16 \<le> n" by simp
  from open_service_starts [OF assms(1) this o] obtain w7 where
    h7: "host_step w6 w7" and c6: "ctl_step k6 k'" and cp: "ctl_pool k' = ctl_pool k6" and m: "mem_step w7 w'"
    and L: "largeRegion k' = Suc (length (regions w7))" "region_ptr_ok w' (largeRegion k')" "shape w' (largeRegion k') \<noteq> None"
      "\<forall>q. q \<noteq> largeRegion k' \<longrightarrow> shape w' q = shape w7 q" "live_maps (trace w') = live_maps (trace w7) + fp w' (largeRegion k')"
      "live_mrs (trace w') = live_mrs (trace w7) + mrp w' (largeRegion k')" by (elim exE conjE) (rule that; assumption)
  have step: "ctl_step ?k1 k'" using step_trans [OF ctl_step_rel] c5 ctl_step_pointers(2) c6 unfolding k6 by blast
  have serv: "services k'" using start_services_ok [OF run] by simp
  have "srq_free ?k1" using assms(5) by (simp add: srq_free_def)
  then have l: "listening k'" using serv step assms(6)
    by (auto simp: listening_def services_def ctl_step_def calm_callbacks_def srq_free_def)
  have cl: "clients k' = []" using step assms(4) by (simp add: ctl_step_def)
  note w = started_world [OF w5 mp g h7 m L(1-6) cp cl refl l]
  have inv: "server_inv E qn (ledger (trace w')) k' w' mp" by (rule w(1))
  have "length (free_list (small mp)) = 64"
    using mp(1) container.simps(1) count_of.simps(1) unfolding new_pool_in_def by metis
  then have "abs_server k' w' mp = \<lparr>posted = Map.empty, free = 64\<rparr>" using cl by (simp add: abs_server_def)
  with inv w(2-4) serv cl same show ?thesis by (auto simp: started_def)
qed

lemma startup_starts':
  fixes w :: "'a cworld_scheme"
  assumes "good_env E n" and "size (live_maps (trace w)) + 100 \<le> n" and "unused w"
    and "clients k = []" and "rdmaListener k = None" and "calm_callbacks k"
    and "startup E False (k, w) = Some (Ok 0, (k', w'))"
  shows "\<exists>mp. started E qn (live_mrs (trace w), live_maps (trace w)) (cm_tally (trace w)) k' w' mp"
proof -
  have "errno_set E" using assms(1) by (simp add: good_env_def)
  from startup_steps [OF assms(7) this] obtain d w1 addr w2 w3 where
    s: "RdmaDevice E (ctl_device k) (ctl_interface k) w = Some (Ok d, w1)"
      "with_local d device_address w1 = Some (Ok addr, w2)"
      "start_services E False addr (k, w2) = Some (Ok 0, (k', w3))"
      "with_local d (destroy_device E) w3 = Some (Ok (), w')" .
  have h: "host_step w w2" "host_step w3 w'"
    using withinD [OF host_device s(1)] withinD [OF host_steps(6) s(2)] withinD [OF host_steps(7) s(4)]
      step_trans [OF host_step_rel] by (simp_all add: self_def) blast
  from h(1) have same: "live_maps (trace w2) = live_maps (trace w)" "live_mrs (trace w2) = live_mrs (trace w)"
    "cm_tally (trace w2) = cm_tally (trace w)" by (simp_all add: host_step_def ledger_def)
  from services_started [OF assms(1) _ unused_host [OF assms(3) h(1)] assms(4-6) s(3), of qn] assms(2) same obtain mp where
    "started E qn (live_mrs (trace w), live_maps (trace w)) (cm_tally (trace w)) k' w3 mp" by auto
  with started_host [OF _ h(2)] show ?thesis by blast
qed

text \<open>C12: When \<open>startup\<close> reports success on a machine with memory to spare, the server it leaves is
  in order: it has no client, its pool is consistent and full, with 64 small blocks to post, the
  listener has no shared receive queue, nothing is in flight, and what it holds beside what was
  held before is exactly the blocks of its pool and the large region.\<close>

theorem startup_starts:
  fixes w :: "'a cworld_scheme"
  assumes "good_env E n" and "size (live_maps (trace w)) + 100 \<le> n" and "unused w"
    and "clients k = []" and "rdmaListener k = None" and "calm_callbacks k"
    and "startup E False (k, w) = Some (Ok 0, (k', w'))"
  shows "\<exists>mp. started E qn (live_mrs (trace w), live_maps (trace w)) (cm_tally (trace w)) k' w' mp"
  using startup_starts' [OF assms] .

text \<open>A machine of this kind, and a controller that was just made.\<close>

lemma host_unused: "unused init_cworld" "calm_callbacks k_host" "clients k_host = []" "rdmaListener k_host = None"
    "trace init_cworld = []"
  by (simp_all add: unused_def calm_callbacks_def k_host_def RdmaController_def heap_live_def heap_get_def)

theorem startup_starts_witness:
  "\<exists>k' w' mp. startup env_host False (k_host, init_cworld) = Some (Ok 0, (k', w')) \<and>
     server_inv env_host (\<lambda>i. 17) (ledger (trace w')) k' w' mp \<and> free (abs_server k' w' mp) = 64"
proof -
  have h: "size (live_maps (trace init_cworld)) + 100 \<le> 200" by (simp add: host_unused(5))
  obtain k' w' where run: "startup env_host False (k_host, init_cworld) = Some (Ok 0, (k', w'))"
    using host_startup [OF env_host_friendly] by blast
  from startup_starts [OF friendlyD(1) [OF env_host_friendly] h host_unused(1,3,4,2) run, of "\<lambda>i. 17"] obtain mp where
    "server_inv env_host (\<lambda>i. 17) (ledger (trace w')) k' w' mp" "abs_server k' w' mp = \<lparr>posted = Map.empty, free = 64\<rparr>"
    by (auto simp: started_def)
  with run show ?thesis by (intro exI [of _ k'] exI [of _ w'] exI [of _ mp]) simp
qed

section \<open>The whole life\<close>

text \<open>
  A program that uses the library: it starts a server, gives it a completion function that returns
  the blocks, calls the event loop \<open>n\<close> times and lets the controller go.
\<close>

definition life ::
    "env \<Rightarrow> map_api \<Rightarrow> ('a cworld_scheme controller \<times> 'a cworld_scheme) poll_api \<Rightarrow> int \<Rightarrow> nat \<Rightarrow> ('a, int) ctl" where
  "life E U poll N n =
     bindM (startup E False) (\<lambda>err.
     if err \<noteq> 0 then returnM err
     else bindM this_get (\<lambda>k.
       thenM (setCompletionFunction (Some (recycle E (ctl_pool k))))
      (thenM (monitor E U poll N n)
      (thenM (destroy_controller E) (returnM 0)))))"

text \<open>With its completion function the started server is alive.\<close>

lemma started_alive:
  assumes "started E qn D cm k w mp" and "map_option eventChannel (rdmaListener k) = Some ch"
    and "valid_script qn (drop (snd cm) evs) {}" and "requests (drop (snd cm) evs) \<le> 2"
  defines "k1 \<equiv> k\<lparr>completionFunction := Some (recycle E (ctl_pool k))\<rparr>"
  shows "alive E qn ch evs (ledger (trace w)) k1 w mp" "estate D (ledger (trace w)) k1 w mp"
proof -
  note s = assms(1) [unfolded started_def]
  have "server_inv E qn (ledger (trace w)) k1 w mp" using s by (auto simp: k1_def server_inv_def listening_def)
  moreover have "abs_server k1 w mp = \<lparr>posted = Map.empty, free = 64\<rparr>" using s by (simp add: k1_def abs_server_def)
  moreover have "snd (fst (ledger (trace w))) = snd cm" using s by (auto simp: ledger_def)
  ultimately show "alive E qn ch evs (ledger (trace w)) k1 w mp"
    using s assms(2-4) by (simp add: alive_def k1_def budget_def stock_def)
  show "estate D (ledger (trace w)) k1 w mp" using s by (simp add: k1_def estate_def foreign_def)
qed

lemma alive_ends:
  fixes w :: "'a cworld_scheme"
  assumes "fair_world E qn U ch evs poll" and "alive E qn ch evs B k w mp" and "estate D B k w mp"
  shows "\<exists>m k1 w1 k' w'. monitor E U poll N n (k, w) = Some (Ok m, (k1, w1)) \<and>
    destroy_controller E (k1, w1) = Some (Ok (), (k', w')) \<and> clients k' = [] \<and>
    heap_live (client_objs w') = {} \<and> heap_live (cqs w') = {} \<and> snd (ledger (trace w')) = D \<and>
    cm_unacked (trace w') = fst (fst B) \<and> min (length evs) (snd (fst B) + n div 10) \<le> cm_taken (trace w')"
proof -
  from monitor_lives [OF assms(1,2), of N n] obtain m k1 w1 mp1 B1 where
    run: "monitor E U poll N n (k, w) = Some (Ok m, (k1, w1))" and live: "alive E qn ch evs B1 k1 w1 mp1"
    and g: "goes_on E k w mp k1 w1 mp1" "snd B1 = snd B" "fst (fst B1) = fst (fst B)"
    and t: "min (length evs) (snd (fst B) + ticks (event_poll_count k) n) \<le> snd (fst B1)" by blast
  note a = aliveD [OF live]
  have e: "estate D B1 k1 w1 mp1" by (rule estate_goes_on [OF assms(3) aliveD(1) [OF assms(2)] g(1,2)])
  have "serving E qn" using assms(1) by (simp add: fair_world_def)
  moreover obtain l d where "rdmaListener k1 = Some l" "protectionDomain k1 = Some d"
    using server_invD(1) [OF a(1)] by (auto simp: listening_def)
  ultimately obtain k' w' where end': "destroy_controller E (k1, w1) = Some (Ok (), (k', w'))" "clients k' = []"
    "heap_live (client_objs w') = {}" "heap_live (cqs w') = {}" "ledger (trace w') = (cm_tally (trace w1), D)"
    using controller_ends' [OF _ a(1) e] by blast
  have "fst B1 = cm_tally (trace w1)"
    using clients_invD(5) [OF server_invD(3) [OF a(1)]] by (simp add: books_ok_def ledger_def)
  with end'(5) have cm: "fst B1 = (cm_unacked (trace w'), cm_taken (trace w'))" "snd (ledger (trace w')) = D"
    by (auto simp: ledger_def cm_tally_def)
  have "min (length evs) (snd (fst B) + n div 10) \<le> snd (fst B1)" using t ticks_tenth [of n "event_poll_count k"] by linarith
  with run end'(1-4) cm g(3) show ?thesis by auto
qed

text \<open>C2: The whole life of a server, with logging off on a machine that has memory to spare and whose
  calls succeed: \<open>startup\<close>, the event loop as often as it is wanted, and the end
  of the controller.  If the start succeeds, the program never hangs and never ends with an error,
  when at most two peers come, as many as the pool has blocks for, and the completion function is
  one that returns the blocks (\<open>recycle\<close>), and the callbacks for connections, if there are any,
  leave the library alone (\<open>calm\<close>).  As in C1 the device completes what is posted, each
  request once, without an error and at any time it likes, and the events are a script that the
  connection manager can deliver.  After \<open>n\<close> rounds \<open>n div 10\<close> events of the script have been
  handled, or all; every event is acknowledged; and at the end nothing is held that was not held
  before: no client, no completion queue, no registration and no mapping.\<close>

theorem life_balanced:
  fixes w :: "'a cworld_scheme"
  assumes "good_env E h" and "size (live_maps (trace w)) + 100 \<le> h" and "unused w"
    and "clients k = []" and "rdmaListener k = None" and "calm_callbacks k"
    and "startup E False (k, w) = Some (Ok 0, (k1, w1))" and "map_option eventChannel (rdmaListener k1) = Some ch"
    and "fair_world E qn U ch evs poll" and "valid_script qn (drop (cm_taken (trace w)) evs) {}"
    and "requests (drop (cm_taken (trace w)) evs) \<le> 2"
  shows "\<exists>k' w'. life E U poll N n (k, w) = Some (Ok 0, (k', w')) \<and> clients k' = [] \<and>
    heap_live (client_objs w') = {} \<and> heap_live (cqs w') = {} \<and>
    live_mrs (trace w') = live_mrs (trace w) \<and> live_maps (trace w') = live_maps (trace w) \<and>
    cm_unacked (trace w') = cm_unacked (trace w) \<and>
    min (length evs) (cm_taken (trace w) + n div 10) \<le> cm_taken (trace w')"
proof -
  let ?D = "(live_mrs (trace w), live_maps (trace w))" and ?cm = "cm_tally (trace w)"
  let ?k = "k1\<lparr>completionFunction := Some (recycle E (ctl_pool k1))\<rparr>"
  from startup_starts' [OF assms(1-7)] obtain mp where s: "started E qn ?D ?cm k1 w1 mp" by blast
  have "snd ?cm = cm_taken (trace w)" by (simp add: cm_tally_def)
  with started_alive [OF s assms(8), of evs] assms(10,11)
  have a: "alive E qn ch evs (ledger (trace w1)) ?k w1 mp" "estate ?D (ledger (trace w1)) ?k w1 mp" by simp_all
  have B: "fst (ledger (trace w1)) = (cm_unacked (trace w), cm_taken (trace w))"
    using s by (simp add: started_def ledger_def cm_tally_def)
  from alive_ends [OF assms(9) a, of N n] obtain m k2 w2 k' w' where
    e: "monitor E U poll N n (?k, w1) = Some (Ok m, (k2, w2))" "destroy_controller E (k2, w2) = Some (Ok (), (k', w'))"
      "clients k' = []" "heap_live (client_objs w') = {}" "heap_live (cqs w') = {}" "snd (ledger (trace w')) = ?D"
      "cm_unacked (trace w') = cm_unacked (trace w)" "min (length evs) (cm_taken (trace w) + n div 10) \<le> cm_taken (trace w')"
    unfolding B by auto
  have "life E U poll N n (k, w) = Some (Ok 0, (k', w'))"
    using assms(7) e(1,2) by (simp add: life_def setCompletionFunction_def)
  with e(3-8) show ?thesis by (intro exI [of _ k'] exI [of _ w']) (simp add: ledger_def)
qed

text \<open>
  A machine for the whole life: the network interface of \<open>eager_env\<close> on a host that has a device and
  memory to spare.
\<close>

definition life_env :: "cm_event list \<Rightarrow> env" where
  "life_env evs = (eager_env evs)\<lparr>
     ptr_of := (\<lambda>t c. case c of Mem x \<Rightarrow> (if first_free t = MAP_FAILED then 1 else first_free t) | _ \<Rightarrow> ptr_of (eager_env evs) t c),
     devices_of := (\<lambda>t. Some [(1, ''mlx4'')])\<rparr>"

lemma life_friendly: "friendly (life_env evs)"
proof -
  let ?p = "\<lambda>t. if first_free t = MAP_FAILED then 1 else first_free t"
  have "?p t \<notin> fst ` set_mset (live_maps t)" "?p t \<noteq> MAP_FAILED" if "size (live_maps t) < 200" for t
    using first_free_fresh [of t] first_free_ample [OF that] by auto
  moreover have "fair_env (eager_env evs)" using eager_serving by (simp add: serving_def)
  ultimately have "good_env (life_env evs) 200"
    by (simp add: good_env_def fair_env_def life_env_def honest_reg_def dereg_ok_def errno_set_def fresh_mmap_def ample_mem_def)
      (simp add: reg_ok_def eager_env_def env_script_def)
  moreover have "ptr_of (life_env evs) t c \<noteq> 0" for t c
    using first_free_nonzero next_queue_ok(1)
    by (simp add: life_env_def eager_env_def split: call.split cq_call.split)
  ultimately show ?thesis by (simp add: friendly_def) (simp add: life_env_def eager_env_def env_script_def env_ok_def)
qed

lemma life_serving: "serving (life_env evs) (\<lambda>i. 17)"
  using eager_serving [of evs]
  by (simp add: serving_def life_env_def fair_env_def honest_reg_def dereg_ok_def errno_set_def accepting_def MAP_FAILED_def)

lemma life_world:
  assumes "ch \<noteq> 0"
  shows "fair_world (life_env evs) (\<lambda>i. 17) list_map ch evs (script_poll evs)"
proof -
  have "delivers (life_env evs) ch evs"
    using env_script_delivers by (simp add: delivers_def life_env_def eager_env_def)
  moreover have "fresh_queues (life_env evs)"
    using next_queue_ok(2) by (simp add: fresh_queues_def life_env_def eager_env_def)
  moreover have wcs: "wcs_of (life_env evs) = wcs_of (eager_env evs)" by (simp add: life_env_def)
  have "honest_device (life_env evs)" using eager_honest [of evs] unfolding honest_device_def wcs .
  ultimately show ?thesis
    using assms life_serving list_map_laws script_poll_ok by (simp add: fair_world_def)
qed

theorem life_balanced_witness:
  "\<exists>k' w'. life (life_env (come_and_go @ come_and_go)) list_map (script_poll (come_and_go @ come_and_go)) 3 60
      (k_host, init_cworld) = Some (Ok 0, (k', w')) \<and>
    live_mrs (trace w') = {#} \<and> live_maps (trace w') = {#} \<and> 6 \<le> cm_taken (trace w')"
proof -
  let ?evs = "come_and_go @ come_and_go" and ?w = init_cworld
  obtain k1 w1 l where run: "startup (life_env ?evs) False (k_host, ?w) = Some (Ok 0, (k1, w1))"
    and l: "rdmaListener k1 = Some l" "eventChannel l \<noteq> 0" using host_startup [OF life_friendly] by blast
  have "size (live_maps (trace ?w)) + 100 \<le> 200" "map_option eventChannel (rdmaListener k1) = Some (eventChannel l)"
    "valid_script (\<lambda>i. 17) (drop (cm_taken (trace ?w)) ?evs) {}" "requests (drop (cm_taken (trace ?w)) ?evs) \<le> 2"
    "length ?evs = 6" by (simp_all add: host_unused(5) l(1) come_and_go_def requests_def)
  with life_balanced [OF friendlyD(1) [OF life_friendly] _ host_unused(1,3,4,2) run _ life_world [OF l(2)], of 3 60]
  show ?thesis by (fastforce simp: host_unused(5))
qed

end
