(* ===== verification/Spec2Isabelle.thy ===== *)
theory Spec2Isabelle
  imports PoolSpec Messages Reports SystemLock WholeLife
begin

text \<open>
  A verification library for \<open>rdmahelper\<close>, a C++ library over libibverbs and librdmacm: memory
  regions registered with an InfiniBand device, a pool of them, completion queues and channels,
  connections, clients and servers, and a controller that runs them.

  \<^bold>\<open>How a program is modelled.\<close>  A member function is a state transformer
  \<open>'s \<Rightarrow> ('a result \<times> 's) option\<close> (\<open>Prelude\<close>): \<open>None\<close> when it never returns, otherwise how it ended
  (a value, an \<open>RdmaError\<close> that was thrown, or the end of the program: \<open>std::terminate\<close>,
  \<open>abort\<close>, a null pointer, a freed object, an index out of bounds) and the state it has left.
  The state is the object paired with the world; the world is a record that grows with the
  classes (\<open>world\<close>, \<open>mworld\<close> with the regions, \<open>qworld\<close> with the completion queues, \<open>nworld\<close> with
  pools and shared receive queues, \<open>cworld\<close> with clients and the use counts of shared pointers).
  Objects made with \<open>new\<close> or \<open>make_shared\<close> live in heaps, and a pointer is a place in one.
  Integers keep their width (\<open>u8\<close> to \<open>u64\<close>) where the code stores them in a field of that width.

  \<^bold>\<open>What is outside.\<close>  The verbs and connection manager libraries, the kernel, the Blue Gene
  kernel and HPX are not part of the repository.  \<open>Verbs\<close> has one constructor per external call;
  the record \<open>env\<close> says how each call is answered, as an arbitrary function of the calls made
  before, and the world keeps the trace of the calls.  A statement without a hypothesis on the
  environment holds for every behaviour of these libraries.  Named hypotheses state documented
  behaviour: \<open>honest_reg\<close>, \<open>dereg_ok\<close>, \<open>fresh_mmap\<close>, \<open>errno_set\<close>, \<open>fair_env\<close>, \<open>good_env\<close>, \<open>ready_conn\<close>,
  \<open>accepting\<close>, \<open>serving\<close>, \<open>delivers\<close>, \<open>fresh_queues\<close>, \<open>semaphore\<close>, \<open>calm\<close> and \<open>consents\<close> for the functions
  that the user installs, and \<open>map_laws\<close> for the concurrent map of HPX.  Of the completions there
  are two hypotheses: \<open>honest_device\<close> (completions of posted requests, each once, whenever the device
  likes; for the whole life of a server), and \<open>device_queues\<close>, a device whose queues are only
  emptied, for the statements about one poll or one round over what is in the queues at its start.

  \<^bold>\<open>The parts, from the bottom up.\<close>
  \<^item> \<open>Prelude\<close>, \<open>Verbs\<close>: the monad, heaps, the external calls; \<open>include/RdmaError.h\<close>.
  \<^item> \<open>MemoryRegion\<close> (\<open>RdmaMemoryRegion.h/.cpp\<close>): regions, the allocation loop that rejects
    fragmented memory, release.  Ownership of mappings and registrations is read off the trace
    (\<open>live_maps\<close>, \<open>live_mrs\<close>).
  \<^item> \<open>PoolContainer\<close>, \<open>MemoryPool\<close> (\<open>RdmaMemoryPool.h/.cpp\<close>): the containers of one block size and
    the pool of three; the locale \<open>region_store\<close> states what a container needs of the allocator
    and is interpreted on the pool's own functions.
  \<^item> \<open>PoolThreads\<close>, \<open>PoolSpec\<close>: the mutex and the condition variable of a container as a step
    relation, its invariants, and the abstract pool that it refines.
  \<^item> \<open>CompletionQueue\<close>, \<open>CompletionChannel\<close> (files of these names, \<open>RdmaProtectionDomain\<close> and
    \<open>RdmaSharedReceiveQueue\<close>): the buffer of completions (locale \<open>wc_buffer\<close>), the events of the
    channel.
  \<^item> \<open>ConnectionBase\<close>, \<open>Connection\<close> (files of these names): receives and their refill (locale
    \<open>receive_poster\<close>), identifiers, events, connecting, posting of work requests.
  \<^item> \<open>ClientServer\<close> (\<open>RdmaClient\<close>, \<open>RdmaServer\<close>): the two kinds of connection.
  \<^item> \<open>Device\<close> (\<open>RdmaDevice\<close>): the search for device and interface, its resources, its report.
  \<^item> \<open>Controller\<close> (\<open>RdmaController\<close>): start, the event loop and its handlers, the map of clients.
    \<open>Startup\<close> shows what a successful start leaves; \<open>EventLoop\<close> the receives and completions of
    all clients; \<open>ClientEvents\<close> how a client ends and which events go wrong; \<open>ClientAccept\<close> the
    whole path of a connection request.
  \<^item> \<open>ClientSession\<close>, \<open>ServerSession\<close>, \<open>ServerLife\<close>: the lifetime of a server.  An invariant of all
    clients (who owns which region, queue and share, with the books of what is registered and
    mapped), an abstract server that knows how many receives each peer has posted and how many
    blocks are free, and the proof that \<open>eventChannelHandler\<close> refines it for every event and every
    sequence of events; from it, when all is given back, how many requests a server can answer,
    and what returns a block.  \<open>ServerLoop\<close>: the same for a round of \<open>eventMonitor\<close> with
    completions and events, for a user that returns the blocks of completed receives
    (\<open>recycle\<close>, an example, not code of the repository).
  \<^item> \<open>ClientFlight\<close>, \<open>ServerDevice\<close>, \<open>ServerForever\<close>: the receives in flight, read off the trace of
    the calls, are those the clients count and lie on blocks that are out; a device that completes
    only what is posted, at any time it likes, keeps that, and every poll ends; with a budget of
    32 blocks for each peer the event loop then returns for ever, and in ten rounds handles an event.
  \<^item> \<open>Frames\<close>, \<open>ServerEnd\<close>, \<open>WholeLife\<close>: the whole life of a server.  \<open>Frames\<close> states what a part of
    a program leaves alone (\<open>within\<close>: every run of it stays in a reflexive and transitive relation).
    \<open>ServerEnd\<close> keeps the books of what the controller holds beside its clients (\<open>estate\<close>: the blocks
    of the pool and the large region), which the event loop leaves alone, and shows that the
    destructor of the controller gives it all back.  \<open>WholeLife\<close> shows that \<open>startup\<close> leaves a server
    with the invariant and this estate, and composes start, event loop and destructor (\<open>life\<close>, a
    program that uses the library, not code of the repository).
  \<^item> \<open>SystemLock\<close> (\<open>SystemLock.h\<close>, with what the kernel undoes when a process ends), \<open>CNK\<close> (\<open>CNKMemoryRegion\<close>, \<open>CNKClient\<close>), \<open>Logging\<close>
    (\<open>RdmaLogging.h\<close>), \<open>Messages\<close> (\<open>rdma_messages.h\<close>), \<open>Reports\<close> (getters, \<open>writeTo\<close> and
    \<open>idToString\<close> of all classes, the lines of the log).

  \<^bold>\<open>What the lemmas show.\<close>  Per component: an invariant and its preservation (\<open>pool_inv\<close>, \<open>mp_inv\<close>,
  \<open>cq_inv\<close>, \<open>held_inv\<close>, \<open>wake_inv\<close>), the result of every operation on its branches, what it owns
  before and after.  Across components: a request makes one client with all its receives, a
  disconnect gives back everything in the right order, a poll hands over every completion once,
  a server that is started, run and ended leaves nothing behind, and the paths on which the code loses a request, a resource or its termination.

  \<^bold>\<open>Loops and bounds.\<close>  Loops that may run forever are \<open>partial_function (option)\<close> and have no fuel:
  \<open>pop_all\<close>, \<open>refill_preposts\<close>, \<open>poll_until_event\<close>, \<open>drain_queue\<close>, \<open>drain_channel\<close>,
  \<open>removeFirstInitiated\<close>, \<open>removeAllInitiatedConnections\<close>.  Termination is stated for them in both directions where it
  depends on the state.  All other loops are structural.  The pool has the block sizes and counts
  of a build without the HPX overrides (64 of 4 kB, 16 of 16 kB, 4 of 1 MB), and the attempts of
  an allocation are the 16 of the source; both debug and release builds (\<open>ndebug\<close>) and both
  settings of logging (\<open>logging\<close>) are parameters of the environment.

  \<^bold>\<open>Simplified.\<close>  A shared receive queue that a connection holds is not let go of when the
  connection ends (\<open>destroy_connection\<close>), and the protection domain is destroyed by the controller
  alone although the pool and clients that the server has made hold shares of it
  (\<open>destroy_controller\<close>): what is proved of the life of a server is about servers without a shared
  receive queue, whose pool and clients are gone by then.

  \<^bold>\<open>Not modelled.\<close>  The registration of the log sink in \<open>RdmaLogging.cpp\<close> (calls of boost), the
  bodies that the source has commented out or disabled, the build files.  External
  calls are taken to return.  The mutexes of classes other than the pool are not: their users
  are modelled one thread at a time.
\<close>

end
